(* ===== verification/Prelude.thy ===== *)
theory Prelude
  imports Main "HOL-Library.State_Monad" "HOL-Library.Word"
begin

text \<open>
  Shared vocabulary of the development.

  The program is Go: a function that can fail returns a value and an error, and a method that
  touches the outside world does so through a long sequence of calls with early returns.  Both
  are rendered in the state monad of the library, with Go's \<open>if err != nil\<close> as a case
  distinction on a result of type \<open>'e + 'a\<close>.

  This theory holds the names used everywhere (bytes, monadic abbreviations), the predicate
  transformer \<open>wp\<close> in which properties of such programs are stated, the notion of a program
  that keeps an invariant (\<open>keeps\<close>), and the collections \<open>wp_simps\<close> and \<open>keeps_intros\<close>
  that carry the proofs about them.
\<close>

section \<open>Names\<close>

type_synonym byte = "8 word"
type_synonym bytes = "byte list"

abbreviation return :: "'a \<Rightarrow> ('s, 'a) state" where
  "return \<equiv> State_Monad.return"

definition gets :: "('s \<Rightarrow> 'a) \<Rightarrow> ('s, 'a) state" where
  "gets f = State (\<lambda>s. (f s, s))"

definition modify :: "('s \<Rightarrow> 's) \<Rightarrow> ('s, unit) state" where
  "modify f = State (\<lambda>s. ((), f s))"

text \<open>Go's signed 64-bit \<open>int\<close>: two's complement wrap-around.\<close>

definition go_int :: "int \<Rightarrow> int" where
  "go_int i = (i + 2 ^ 63) mod 2 ^ 64 - 2 ^ 63"

definition is_int64 :: "int \<Rightarrow> bool" where
  "is_int64 i \<longleftrightarrow> - (2 ^ 63) \<le> i \<and> i < 2 ^ 63"

lemma go_int_id: "is_int64 i \<Longrightarrow> go_int i = i"
  by (simp add: go_int_def is_int64_def)

lemma go_int_range: "is_int64 (go_int i)"
  by (simp add: go_int_def is_int64_def)

lemma run_gets [simp]: "run_state (gets f) s = (f s, s)"
  by (simp add: gets_def)

lemma run_modify [simp]: "run_state (modify f) s = ((), f s)"
  by (simp add: modify_def)

section \<open>Weakest preconditions\<close>

text \<open>
  \<open>wp m Q s\<close>: running \<open>m\<close> from \<open>s\<close> ends with a value and a state that satisfy \<open>Q\<close>.
  Every program of the state monad ends, so this is total correctness.
\<close>

definition wp :: "('s, 'a) state \<Rightarrow> ('a \<Rightarrow> 's \<Rightarrow> bool) \<Rightarrow> 's \<Rightarrow> bool" where
  "wp m Q s = (case run_state m s of (a, s') \<Rightarrow> Q a s')"

named_theorems wp_simps "weakest precondition of each program construct"

lemma wp_return [wp_simps]: "wp (return a) Q = Q a"
  by (simp add: wp_def fun_eq_iff)

lemma wp_bind [wp_simps]: "wp (m \<bind> f) Q = wp m (\<lambda>a. wp (f a) Q)"
  by (simp add: wp_def fun_eq_iff split: prod.split)

lemma wp_gets [wp_simps]: "wp (gets f) Q = (\<lambda>s. Q (f s) s)"
  by (simp add: wp_def fun_eq_iff)

lemma wp_modify [wp_simps]: "wp (modify f) Q = (\<lambda>s. Q () (f s))"
  by (simp add: wp_def fun_eq_iff)

lemma wp_if [wp_simps]: "wp (if b then m else n) Q = (if b then wp m Q else wp n Q)"
  by simp

lemma wp_case_sum [wp_simps]:
  "wp (case r of Inl e \<Rightarrow> f e | Inr a \<Rightarrow> g a) Q =
     (case r of Inl e \<Rightarrow> wp (f e) Q | Inr a \<Rightarrow> wp (g a) Q)"
  by (cases r) simp_all

lemma wp_case_option [wp_simps]:
  "wp (case r of None \<Rightarrow> m | Some a \<Rightarrow> g a) Q =
     (case r of None \<Rightarrow> wp m Q | Some a \<Rightarrow> wp (g a) Q)"
  by (cases r) simp_all

lemma wp_case_prod [wp_simps]:
  "wp (case r of (a, b) \<Rightarrow> f a b) Q = (case r of (a, b) \<Rightarrow> wp (f a b) Q)"
  by (cases r) simp

lemma wp_Let [wp_simps]: "wp (let x = t in f x) Q = (let x = t in wp (f x) Q)"
  by (simp add: Let_def)

text \<open>The state argument moves into the branches.\<close>

lemma wp_apply [wp_simps]:
  "(if b then F else G) s = (if b then F s else G s)"
  "(case r of Inl e \<Rightarrow> f e | Inr a \<Rightarrow> g a) s = (case r of Inl e \<Rightarrow> f e s | Inr a \<Rightarrow> g a s)"
  "(case q of None \<Rightarrow> F | Some a \<Rightarrow> h a) s = (case q of None \<Rightarrow> F s | Some a \<Rightarrow> h a s)"
  "(case p of (a, b) \<Rightarrow> k a b) s = (case p of (a, b) \<Rightarrow> k a b s)"
  by (simp_all split: sum.split option.split prod.split)

text \<open>The branches one by one, for branches that are better not simplified.\<close>

lemma wp_ifI: "(b \<Longrightarrow> wp m Q s) \<Longrightarrow> (\<not> b \<Longrightarrow> wp n Q s) \<Longrightarrow> wp (if b then m else n) Q s"
  by simp

lemma wp_optionI:
  "(x = None \<Longrightarrow> wp m Q s) \<Longrightarrow> (\<And>a. x = Some a \<Longrightarrow> wp (f a) Q s) \<Longrightarrow>
     wp (case x of None \<Rightarrow> m | Some a \<Rightarrow> f a) Q s"
  by (cases x) simp_all

lemma wp_sumI:
  "(\<And>e. x = Inl e \<Longrightarrow> wp (f e) Q s) \<Longrightarrow> (\<And>a. x = Inr a \<Longrightarrow> wp (g a) Q s) \<Longrightarrow>
     wp (case x of Inl e \<Rightarrow> f e | Inr a \<Rightarrow> g a) Q s"
  by (cases x) simp_all

lemma wp_mono:
  assumes "wp m P s" and "\<And>a s'. P a s' \<Longrightarrow> Q a s'"
  shows "wp m Q s"
  using assms by (auto simp: wp_def split: prod.splits)

text \<open>One step of a program.\<close>

lemma wp_step:
  assumes "wp m P s" and "\<And>a s'. P a s' \<Longrightarrow> wp (f a) Q s'"
  shows "wp (m \<bind> f) Q s"
  unfolding wp_bind using assms by (rule wp_mono)

text \<open>A call that may fail, with what is done after an error and after success.\<close>

lemma wp_guard:
  assumes "wp m P s" and "\<And>s'. P None s' \<Longrightarrow> wp n Q s'" and "\<And>a s'. P (Some a) s' \<Longrightarrow> wp (f a) Q s'"
  shows "wp (m \<bind> (\<lambda>x. case x of None \<Rightarrow> n | Some a \<Rightarrow> f a)) Q s"
  by (rule wp_step [OF assms(1)], rule wp_optionI) (simp_all add: assms(2,3))

lemma wp_try:
  assumes "wp m P s" and "\<And>e s'. P (Inl e) s' \<Longrightarrow> wp (f e) Q s'" and "\<And>a s'. P (Inr a) s' \<Longrightarrow> wp (g a) Q s'"
  shows "wp (m \<bind> (\<lambda>x. case x of Inl e \<Rightarrow> f e | Inr a \<Rightarrow> g a)) Q s"
  by (rule wp_step [OF assms(1)], rule wp_sumI) (simp_all add: assms(2,3))

lemma wp_conj: "wp m (\<lambda>a s'. P a s' \<and> Q a s') s \<longleftrightarrow> wp m P s \<and> wp m Q s"
  by (simp add: wp_def split: prod.split)

lemma wp_runD: "wp m Q s \<Longrightarrow> run_state m s = (a, s') \<Longrightarrow> Q a s'"
  by (simp add: wp_def)

lemma wp_runI: "(\<And>a s'. run_state m s = (a, s') \<Longrightarrow> Q a s') \<Longrightarrow> wp m Q s"
  by (simp add: wp_def split: prod.split)

section \<open>Programs that keep an invariant\<close>

text \<open>
  \<open>keeps I m\<close>: from a state with \<open>I\<close> the program ends in a state with \<open>I\<close>, whatever it
  returns.  It passes through every construct, so an invariant is checked at the primitive
  calls only.
\<close>

definition keeps :: "('s \<Rightarrow> bool) \<Rightarrow> ('s, 'a) state \<Rightarrow> bool" where
  "keeps I m \<longleftrightarrow> (\<forall>s. I s \<longrightarrow> wp m (\<lambda>_. I) s)"

named_theorems keeps_intros "rules that push an invariant through a program"

lemma keepsI: "(\<And>s. I s \<Longrightarrow> wp m (\<lambda>_. I) s) \<Longrightarrow> keeps I m"
  by (simp add: keeps_def)

lemma keeps_wp: "keeps I m \<Longrightarrow> I s \<Longrightarrow> wp m (\<lambda>_. I) s"
  by (simp add: keeps_def)

lemma keeps_run: "keeps I m \<Longrightarrow> I s \<Longrightarrow> run_state m s = (a, s') \<Longrightarrow> I s'"
  by (auto simp: keeps_def wp_def)

lemma keeps_return [keeps_intros]: "keeps I (return a)"
  by (simp add: keeps_def wp_simps)

lemma keeps_gets [keeps_intros]: "keeps I (gets f)"
  by (simp add: keeps_def wp_simps)

lemma keeps_bind [keeps_intros]:
  assumes "keeps I m" and "\<And>a. keeps I (f a)"
  shows "keeps I (m \<bind> f)"
  using assms unfolding keeps_def wp_bind by (blast intro: wp_mono)

lemma keeps_if [keeps_intros]:
  "(b \<Longrightarrow> keeps I m) \<Longrightarrow> (\<not> b \<Longrightarrow> keeps I n) \<Longrightarrow> keeps I (if b then m else n)"
  by simp

lemma keeps_case_sum [keeps_intros]:
  "(\<And>e. r = Inl e \<Longrightarrow> keeps I (f e)) \<Longrightarrow> (\<And>a. r = Inr a \<Longrightarrow> keeps I (g a)) \<Longrightarrow>
     keeps I (case r of Inl e \<Rightarrow> f e | Inr a \<Rightarrow> g a)"
  by (cases r) simp_all

lemma keeps_case_option [keeps_intros]:
  "(r = None \<Longrightarrow> keeps I m) \<Longrightarrow> (\<And>a. r = Some a \<Longrightarrow> keeps I (g a)) \<Longrightarrow>
     keeps I (case r of None \<Rightarrow> m | Some a \<Rightarrow> g a)"
  by (cases r) simp_all

lemma keeps_case_prod [keeps_intros]:
  "(\<And>a b. r = (a, b) \<Longrightarrow> keeps I (f a b)) \<Longrightarrow> keeps I (case r of (a, b) \<Rightarrow> f a b)"
  by (cases r) simp

section \<open>Programs that always return the same kind of value\<close>

definition always :: "('a \<Rightarrow> bool) \<Rightarrow> ('s, 'a) state \<Rightarrow> bool" where
  "always P m \<longleftrightarrow> (\<forall>s. wp m (\<lambda>a _. P a) s)"

lemma always_bind: "always Q m \<Longrightarrow> (\<And>a. Q a \<Longrightarrow> always P (f a)) \<Longrightarrow> always P (m \<bind> f)"
  unfolding always_def wp_bind by (blast intro: wp_mono)

lemma always_after: "(\<And>a. always P (f a)) \<Longrightarrow> always P (m \<bind> f)"
  by (rule always_bind [where Q = "\<lambda>_. True"]) (simp_all add: always_def wp_def split: prod.split)

lemma always_return: "P a \<Longrightarrow> always P (return a)"
  by (simp add: always_def wp_return)

lemma always_run: "always P m \<Longrightarrow> run_state m s = (a, s') \<Longrightarrow> P a"
  unfolding always_def by (blast dest: wp_runD)

end
