(* ===== verification/GoStrings.thy ===== *)
theory GoStrings
  imports Prelude "HOL-Library.Char_ord" "HOL-Library.List_Lexorder"
begin

text \<open>
  What the program uses of Go's \<open>strings\<close>, \<open>strconv\<close>, \<open>bufio\<close> and \<open>path/filepath\<close>
  packages.  A Go string is a sequence of bytes, and so is \<^typ>\<open>string\<close>, whose characters are
  8-bit values; lengths count bytes on both sides.
\<close>

section \<open>Package strings\<close>

definition hasPrefix :: "string \<Rightarrow> string \<Rightarrow> bool" where
  "hasPrefix s p \<longleftrightarrow> take (length p) s = p"

definition hasSuffix :: "string \<Rightarrow> string \<Rightarrow> bool" where
  "hasSuffix s p \<longleftrightarrow> hasPrefix (rev s) (rev p)"

definition trimPrefix :: "string \<Rightarrow> string \<Rightarrow> string" where
  "trimPrefix s p = (if hasPrefix s p then drop (length p) s else s)"

fun contains :: "string \<Rightarrow> string \<Rightarrow> bool" where
  "contains [] sub = (sub = [])"
| "contains (c # cs) sub = (hasPrefix (c # cs) sub \<or> contains cs sub)"

definition containsAny :: "string \<Rightarrow> string \<Rightarrow> bool" where
  "containsAny s cs = list_ex (\<lambda>c. List.member cs c) s"

definition trimRight :: "string \<Rightarrow> string \<Rightarrow> string" where
  "trimRight s cutset = rev (dropWhile (\<lambda>c. List.member cutset c) (rev s))"

definition trim :: "string \<Rightarrow> string \<Rightarrow> string" where
  "trim s cutset = trimRight (dropWhile (\<lambda>c. List.member cutset c) s) cutset"

text \<open>\<open>strings.Split\<close> with a one-byte separator; a string with no separator is one piece.\<close>

fun split :: "char \<Rightarrow> string \<Rightarrow> string list" where
  "split c [] = [[]]"
| "split c (x # xs) =
     (if x = c then [] # split c xs
      else (case split c xs of [] \<Rightarrow> [[x]] | y # ys \<Rightarrow> (x # y) # ys))"

fun join :: "string \<Rightarrow> string list \<Rightarrow> string" where
  "join sep [] = []"
| "join sep [x] = x"
| "join sep (x # y # ys) = x @ sep @ join sep (y # ys)"

text \<open>\<open>strings.Cut\<close> with a one-byte separator: the parts around its first occurrence.\<close>

fun cut :: "char \<Rightarrow> string \<Rightarrow> (string \<times> string) option" where
  "cut c [] = None"
| "cut c (x # xs) =
     (if x = c then Some ([], xs)
      else (case cut c xs of None \<Rightarrow> None | Some (k, v) \<Rightarrow> Some (x # k, v)))"

text \<open>
  \<open>strings.TrimSpace\<close> removes the runes of \<open>unicode.IsSpace\<close> at both ends.  In UTF-8 these are
  the six ASCII blanks and the encodings of U+0085, U+00A0, U+1680, U+2000 to U+200A, U+2028,
  U+2029, U+202F, U+205F and U+3000.  A byte that starts no valid encoding is no space.
\<close>

definition space_encodings :: "string list" where
  "space_encodings =
     [[CHR 0x20], [CHR 0x09], [CHR 0x0A], [CHR 0x0B], [CHR 0x0C], [CHR 0x0D],
      [CHR 0xC2, CHR 0x85], [CHR 0xC2, CHR 0xA0], [CHR 0xE1, CHR 0x9A, CHR 0x80],
      [CHR 0xE2, CHR 0x80, CHR 0x80], [CHR 0xE2, CHR 0x80, CHR 0x81],
      [CHR 0xE2, CHR 0x80, CHR 0x82], [CHR 0xE2, CHR 0x80, CHR 0x83],
      [CHR 0xE2, CHR 0x80, CHR 0x84], [CHR 0xE2, CHR 0x80, CHR 0x85],
      [CHR 0xE2, CHR 0x80, CHR 0x86], [CHR 0xE2, CHR 0x80, CHR 0x87],
      [CHR 0xE2, CHR 0x80, CHR 0x88], [CHR 0xE2, CHR 0x80, CHR 0x89],
      [CHR 0xE2, CHR 0x80, CHR 0x8A], [CHR 0xE2, CHR 0x80, CHR 0xA8],
      [CHR 0xE2, CHR 0x80, CHR 0xA9], [CHR 0xE2, CHR 0x80, CHR 0xAF],
      [CHR 0xE2, CHR 0x81, CHR 0x9F], [CHR 0xE3, CHR 0x80, CHR 0x80]]"

definition first_of :: "string list \<Rightarrow> string \<Rightarrow> string option" where
  "first_of encs s = find (\<lambda>e. e \<noteq> [] \<and> hasPrefix s e) encs"

lemma first_of_Some: "first_of encs s = Some e \<Longrightarrow> e \<noteq> [] \<and> e \<in> set encs \<and> hasPrefix s e"
  by (auto simp: first_of_def find_Some_iff in_set_conv_nth)

function strip_any :: "string list \<Rightarrow> string \<Rightarrow> string" where
  "strip_any encs s =
     (case first_of encs s of None \<Rightarrow> s | Some e \<Rightarrow> strip_any encs (drop (length e) s))"
  by pat_completeness auto
termination
proof (relation "measure (\<lambda>(encs, s). length s)")
  fix encs s e
  assume "first_of encs s = Some e"
  then have "e \<noteq> []" and "hasPrefix s e"
    by (auto dest: first_of_Some)
  then have "0 < length e" and "0 < length s" by (auto simp: hasPrefix_def)
  then show "((encs, drop (length e) s), (encs, s)) \<in> measure (\<lambda>(encs, s). length s)"
    by simp
qed simp

declare strip_any.simps [simp del]

definition trimSpace :: "string \<Rightarrow> string" where
  "trimSpace s = rev (strip_any (map rev space_encodings) (rev (strip_any space_encodings s)))"

text \<open>
  \<open>strings.ToLower\<close> on the ASCII letters.  The program only compares the result with \<open>"s"\<close>; no
  rune outside ASCII has the lower-case form \<open>s\<close>, so leaving other bytes alone decides that
  comparison the same way.
\<close>

definition toLower :: "string \<Rightarrow> string" where
  "toLower s = map (\<lambda>c. if 65 \<le> (of_char c :: nat) \<and> (of_char c :: nat) \<le> 90
                        then char_of ((of_char c :: nat) + 32) else c) s"

section \<open>Package strconv\<close>

definition is_digit :: "char \<Rightarrow> bool" where
  "is_digit c \<longleftrightarrow> 48 \<le> (of_char c :: nat) \<and> (of_char c :: nat) \<le> 57"

definition digit_val :: "char \<Rightarrow> int" where
  "digit_val c = int (of_char c) - 48"

datatype num_error = ErrSyntax | ErrRange

text \<open>The loop of \<open>strconv.ParseUint\<close> for base 10 and 64 bits: the range check comes digit by digit.\<close>

fun parse_uint :: "int \<Rightarrow> string \<Rightarrow> num_error + int" where
  "parse_uint n [] = Inr n"
| "parse_uint n (c # cs) =
     (if \<not> is_digit c then Inl ErrSyntax
      else if 2 ^ 64 \<le> 10 * n + digit_val c then Inl ErrRange
      else parse_uint (10 * n + digit_val c) cs)"

text \<open>\<open>strconv.Atoi\<close>: the value comes with the error, 0 or the nearest representable number.\<close>

definition atoi :: "string \<Rightarrow> int \<times> num_error option" where
  "atoi s =
     (let neg = (s \<noteq> [] \<and> hd s = CHR ''-'');
          ds = (if s \<noteq> [] \<and> (hd s = CHR ''-'' \<or> hd s = CHR ''+'') then tl s else s)
      in if ds = [] then (0, Some ErrSyntax)
         else (case parse_uint 0 ds of
           Inl ErrSyntax \<Rightarrow> (0, Some ErrSyntax)
         | Inl ErrRange \<Rightarrow> (if neg then - (2 ^ 63) else 2 ^ 63 - 1, Some ErrRange)
         | Inr n \<Rightarrow>
             if \<not> neg \<and> 2 ^ 63 \<le> n then (2 ^ 63 - 1, Some ErrRange)
             else if neg \<and> 2 ^ 63 < n then (- (2 ^ 63), Some ErrRange)
             else (if neg then - n else n, None)))"

fun utoa :: "nat \<Rightarrow> string" where
  "utoa n = (if n < 10 then [char_of (48 + n)] else utoa (n div 10) @ [char_of (48 + n mod 10)])"

declare utoa.simps [simp del]

definition itoa :: "int \<Rightarrow> string" where
  "itoa i = (if i < 0 then CHR ''-'' # utoa (nat (- i)) else utoa (nat i))"

section \<open>Package bufio\<close>

text \<open>
  One step of a \<open>bufio.Scanner\<close> over lines: the line without its end (\<open>\n\<close> or \<open>\r\n\<close>) and the
  input left, or nothing at the end of the input.  A line of 64 KiB or more does not fit the
  scanner's buffer and ends the scan.
\<close>

definition drop_cr :: "string \<Rightarrow> string" where
  "drop_cr l = (if l \<noteq> [] \<and> last l = CHR 0x0D then butlast l else l)"

definition scan_line :: "string \<Rightarrow> (string \<times> string) option" where
  "scan_line inp =
     (case cut (CHR 0x0A) inp of
        Some (l, rest) \<Rightarrow> if 65536 \<le> length l then None else Some (drop_cr l, rest)
      | None \<Rightarrow> if inp = [] \<or> 65536 \<le> length inp then None else Some (drop_cr inp, []))"

section \<open>Package path/filepath\<close>

definition isAbs :: "string \<Rightarrow> bool" where
  "isAbs p \<longleftrightarrow> hasPrefix p ''/''"

text \<open>\<open>filepath.Clean\<close> on the components of a path; \<open>st\<close> is the reversed list of components kept.\<close>

fun clean_comps :: "bool \<Rightarrow> string list \<Rightarrow> string list \<Rightarrow> string list" where
  "clean_comps rooted st [] = rev st"
| "clean_comps rooted st (c # cs) =
     (if c = [] \<or> c = ''.'' then clean_comps rooted st cs
      else if c = ''..'' then
        (if st \<noteq> [] \<and> hd st \<noteq> ''..'' then clean_comps rooted (tl st) cs
         else if rooted then clean_comps rooted st cs
         else clean_comps rooted (c # st) cs)
      else clean_comps rooted (c # st) cs)"

definition clean :: "string \<Rightarrow> string" where
  "clean p =
     (let cs = join ''/'' (clean_comps (isAbs p) [] (split (CHR ''/'') p))
      in if isAbs p then ''/'' @ cs else if cs = [] then ''.'' else cs)"

text \<open>\<open>filepath.Join\<close>: empty elements are dropped, the rest is joined and cleaned.\<close>

definition joinPath :: "string list \<Rightarrow> string" where
  "joinPath es =
     (let es' = filter (\<lambda>e. e \<noteq> []) es in if es' = [] then [] else clean (join ''/'' es'))"

text \<open>\<open>filepath.Dir\<close>: everything before the last separator, cleaned.\<close>

definition dirPath :: "string \<Rightarrow> string" where
  "dirPath p = clean (rev (dropWhile (\<lambda>c. c \<noteq> CHR ''/'') (rev p)))"

section \<open>Facts about strings\<close>

lemma split_ne [simp]: "split c s \<noteq> []"
  by (cases s) (auto split: list.splits)

lemma split_append: "split c (s @ c # t) = split c s @ split c t"
proof (induction s)
  case (Cons x s)
  then show ?case by (cases "split c s") auto
qed simp

lemma split_no_sep: "c \<notin> set s \<Longrightarrow> split c s = [s]"
  by (induction s) auto

lemma join_Cons: "join sep (x # xs) = (if xs = [] then x else x @ sep @ join sep xs)"
  by (cases xs) auto

lemma join_snoc: "xs \<noteq> [] \<Longrightarrow> join sep (xs @ [x]) = join sep xs @ sep @ x"
  by (induction xs) (auto simp: join_Cons)

lemma split_join:
  assumes "xs \<noteq> []" and "\<And>x. x \<in> set xs \<Longrightarrow> c \<notin> set x"
  shows "split c (join [c] xs) = xs"
  using assms
proof (induction xs)
  case (Cons x xs)
  then show ?case
    by (cases "xs = []") (auto simp: join_Cons split_append split_no_sep)
qed simp

lemma join_split: "join [c] (split c s) = s"
proof (induction s)
  case (Cons x s)
  then show ?case
    by (cases "split c s") (auto simp: join_Cons)
qed simp

lemma hasPrefix_append [simp]: "hasPrefix (p @ s) p"
  by (simp add: hasPrefix_def)

lemma hasPrefix_Nil [simp]: "hasPrefix s []"
  by (simp add: hasPrefix_def)

lemma hasPrefix_Cons [simp]: "hasPrefix (x # s) (y # p) \<longleftrightarrow> x = y \<and> hasPrefix s p"
  by (auto simp: hasPrefix_def)

lemma hasPrefix_Nil_Cons [simp]: "\<not> hasPrefix [] (y # p)"
  by (simp add: hasPrefix_def)

lemma hasPrefix_eq: "hasPrefix s p \<longleftrightarrow> (\<exists>t. s = p @ t)"
  by (auto simp: hasPrefix_def) (metis append_take_drop_id)

lemma cut_Some_iff: "cut c s = Some (k, v) \<longleftrightarrow> s = k @ c # v \<and> c \<notin> set k"
proof (induction s arbitrary: k)
  case Nil
  then show ?case by simp
next
  case (Cons x s)
  show ?case
  proof (cases k)
    case Nil
    then show ?thesis by (auto split: option.split)
  next
    case (Cons y k')
    have "cut c (x # s) = Some (k, v) \<longleftrightarrow> x \<noteq> c \<and> x = y \<and> cut c s = Some (k', v)"
      by (simp add: Cons split: option.split)
    then show ?thesis using Cons.IH [of k'] Cons by auto
  qed
qed

lemma cut_None_iff: "cut c s = None \<longleftrightarrow> c \<notin> set s"
  by (induction s) (auto split: option.splits)

lemma dropWhile_all: "(\<forall>x \<in> set (dropWhile P s). P x) \<longleftrightarrow> (\<forall>x \<in> set s. P x)"
  by (induction s) auto

lemma trim_cutset_Nil_iff: "trim s cs = [] \<longleftrightarrow> set s \<subseteq> set cs"
  by (simp add: trim_def trimRight_def dropWhile_all subset_eq)

text \<open>A string whose ends are no blanks is left alone by \<open>trimSpace\<close>.\<close>

lemma strip_any_id:
  assumes "s = [] \<or> (\<forall>e \<in> set encs. e = [] \<or> hd e \<noteq> hd s)"
  shows "strip_any encs s = s"
proof -
  have "first_of encs s = None"
  proof (rule ccontr)
    assume "first_of encs s \<noteq> None"
    then obtain e where "e \<noteq> []" "e \<in> set encs" "hasPrefix s e"
      by (auto dest: first_of_Some)
    with assms show False by (cases e; cases s) auto
  qed
  then show ?thesis by (simp add: strip_any.simps)
qed

definition plain_char :: "char \<Rightarrow> bool" where
  "plain_char c \<longleftrightarrow> 32 < (of_char c :: nat) \<and> (of_char c :: nat) < 128"

lemma plain_char_not_space:
  assumes "plain_char c" and "e \<in> set space_encodings"
  shows "hd e \<noteq> c" and "hd (rev e) \<noteq> c"
  using assms by (auto simp: space_encodings_def plain_char_def)

lemma trimSpace_id:
  assumes "s = [] \<or> plain_char (hd s) \<and> plain_char (last s)"
  shows "trimSpace s = s"
proof -
  have 1: "strip_any space_encodings s = s"
    using assms plain_char_not_space(1) by (intro strip_any_id) auto
  have "rev s = [] \<or> (\<forall>e \<in> set (map rev space_encodings). e = [] \<or> hd e \<noteq> hd (rev s))"
    using assms plain_char_not_space(2) by (auto simp: hd_rev)
  then have "strip_any (map rev space_encodings) (rev s) = rev s"
    by (rule strip_any_id)
  with 1 show ?thesis by (simp add: trimSpace_def)
qed

lemma trimSpace_newline:
  assumes "s \<noteq> []" "plain_char (hd s)" "plain_char (last s)"
  shows "trimSpace (s @ [CHR 0x0A]) = s"
proof -
  have 1: "strip_any space_encodings (s @ [CHR 0x0A]) = s @ [CHR 0x0A]"
    using assms plain_char_not_space(1) by (intro strip_any_id) auto
  have f: "first_of (map rev space_encodings) (CHR 0x0A # rev s) = Some [CHR 0x0A]"
    by (simp add: first_of_def space_encodings_def)
  have "strip_any (map rev space_encodings) (rev s) = rev s"
    using assms plain_char_not_space(2) by (intro strip_any_id) (auto simp: hd_rev)
  then have "strip_any (map rev space_encodings) (CHR 0x0A # rev s) = rev s"
    by (subst strip_any.simps) (simp add: f)
  with 1 show ?thesis by (simp add: trimSpace_def)
qed

subsection \<open>Numbers\<close>

lemma utoa_ne [simp]: "utoa n \<noteq> []"
  by (subst utoa.simps) simp

lemma digit_of [simp]: "(n::nat) < 10 \<Longrightarrow> is_digit (char_of (48 + n))"
  by (simp add: is_digit_def)

lemma digit_val_of [simp]: "n < 10 \<Longrightarrow> digit_val (char_of (48 + n)) = int n"
  by (simp add: digit_val_def)

lemma utoa_digits: "c \<in> set (utoa n) \<Longrightarrow> is_digit c"
proof (induction n rule: utoa.induct)
  case (1 n)
  then show ?case by (cases "n < 10") (auto simp: utoa.simps [of n])
qed

lemma parse_uint_append:
  "parse_uint n (s @ t) = (case parse_uint n s of Inl e \<Rightarrow> Inl e | Inr m \<Rightarrow> parse_uint m t)"
  by (induction n s rule: parse_uint.induct) auto

lemma parse_uint_utoa: "n < 2 ^ 64 \<Longrightarrow> parse_uint 0 (utoa n) = Inr (int n)"
proof (induction n rule: utoa.induct)
  case (1 n)
  show ?case
  proof (cases "n < 10")
    case True
    then show ?thesis by (simp add: utoa.simps [of n])
  next
    case False
    with 1 have IH: "parse_uint 0 (utoa (n div 10)) = Inr (int (n div 10))" by simp
    have "10 * (int n div 10) + int n mod 10 = int n" by presburger
    with False 1 IH show ?thesis
      by (simp add: utoa.simps [of n] parse_uint_append zdiv_int zmod_int)
  qed
qed

lemma utoa_hd: "is_digit (hd (utoa n))"
  by (rule utoa_digits [of _ n]) simp

lemma not_digit_sign: "\<not> is_digit (CHR ''-'')" "\<not> is_digit (CHR ''+'')"
  by (simp_all add: is_digit_def)

text \<open>Every 64-bit integer survives printing and reading.\<close>

lemma atoi_itoa: "is_int64 i \<Longrightarrow> atoi (itoa i) = (i, None)"
proof -
  assume i: "is_int64 i"
  show ?thesis
  proof (cases "i < 0")
    case True
    with i have "parse_uint 0 (utoa (nat (- i))) = Inr (- i)"
      by (subst parse_uint_utoa) (auto simp: is_int64_def nat_less_iff)
    with True i show ?thesis by (simp add: itoa_def atoi_def is_int64_def)
  next
    case False
    with i have p: "parse_uint 0 (utoa (nat i)) = Inr i"
      by (subst parse_uint_utoa) (auto simp: is_int64_def nat_less_iff)
    have "hd (utoa (nat i)) \<noteq> CHR ''-''" "hd (utoa (nat i)) \<noteq> CHR ''+''"
      using utoa_hd [of "nat i"] not_digit_sign by metis+
    with False i p show ?thesis by (simp add: itoa_def atoi_def is_int64_def)
  qed
qed

subsection \<open>Paths\<close>

text \<open>A name a directory can hold.\<close>

definition proper :: "string \<Rightarrow> bool" where
  "proper c \<longleftrightarrow> c \<noteq> [] \<and> CHR ''/'' \<notin> set c \<and> c \<noteq> ''.'' \<and> c \<noteq> ''..''"

lemma properD [simp, dest]:
  assumes "proper c"
  shows "c \<noteq> []" and "CHR ''/'' \<notin> set c" and "c \<noteq> ''.''" and "c \<noteq> ''..''"
  using assms by (simp_all add: proper_def)

definition mk_path :: "string list \<Rightarrow> string" where
  "mk_path cs = ''/'' @ join ''/'' cs"

definition split_path :: "string \<Rightarrow> string list" where
  "split_path p = filter (\<lambda>c. c \<noteq> []) (split (CHR ''/'') p)"

lemma clean_comps_proper: "list_all proper cs \<Longrightarrow> clean_comps rooted st cs = rev st @ cs"
  by (induction cs arbitrary: st) auto

lemma clean_comps_filter:
  "clean_comps rooted st (filter (\<lambda>c. c \<noteq> []) cs) = clean_comps rooted st cs"
  by (induction rooted st cs rule: clean_comps.induct) auto

lemma split_path_append: "split_path (p @ CHR ''/'' # q) = split_path p @ split_path q"
  by (simp add: split_path_def split_append)

lemma split_path_name: "proper c \<Longrightarrow> split_path c = [c]"
  by (simp add: split_path_def split_no_sep)

lemma split_path_Nil [simp]: "split_path [] = []"
  by (simp add: split_path_def)

lemma split_path_mk_path: "list_all proper cs \<Longrightarrow> split_path (mk_path cs) = cs"
proof (induction cs rule: rev_induct)
  case Nil
  then show ?case by (simp add: mk_path_def split_path_def)
next
  case (snoc c cs)
  then show ?case
    by (cases "cs = []")
      (auto simp: mk_path_def join_snoc split_path_name split_path_append
            split_path_append [of "[]", simplified])
qed

lemma isAbs_mk_path [simp]: "isAbs (mk_path cs)"
  by (simp add: isAbs_def mk_path_def)

lemma isAbs_append [simp]: "isAbs p \<Longrightarrow> isAbs (p @ q)"
  by (cases p) (auto simp: isAbs_def)

lemma clean_abs:
  assumes "isAbs p" and "list_all proper (split_path p)"
  shows "clean p = mk_path (split_path p)"
proof -
  have "clean_comps True [] (split (CHR ''/'') p) = split_path p"
    using clean_comps_filter [of True "[]" "split (CHR ''/'') p"] clean_comps_proper [OF assms(2), of True "[]"]
    by (simp add: split_path_def)
  then show ?thesis using assms(1) by (simp add: clean_def mk_path_def)
qed

lemma clean_mk_path: "list_all proper cs \<Longrightarrow> clean (mk_path cs) = mk_path cs"
  by (simp add: clean_abs split_path_mk_path)

lemma mk_path_ne [simp]: "mk_path cs \<noteq> []"
  by (simp add: mk_path_def)

lemma joinPath_name:
  assumes "list_all proper cs" and "proper c"
  shows "joinPath [mk_path cs, c] = mk_path (cs @ [c])"
  using assms by (simp add: joinPath_def clean_abs split_path_append split_path_mk_path split_path_name)

lemma joinPath_name2:
  assumes "list_all proper cs" and "proper c" and "proper d"
  shows "joinPath [mk_path cs, c, d] = mk_path (cs @ [c, d])"
  using assms
  by (simp add: joinPath_def clean_abs split_path_append split_path_mk_path split_path_name)

lemma dirPath_mk_path:
  assumes "list_all proper cs" and "proper c"
  shows "dirPath (mk_path (cs @ [c])) = mk_path cs"
proof -
  define p where "p = (if cs = [] then ''/'' else mk_path cs @ ''/'')"
  have "mk_path (cs @ [c]) = p @ c"
    by (simp add: p_def mk_path_def join_snoc)
  moreover have "dropWhile (\<lambda>x. x \<noteq> CHR ''/'') (rev (p @ c)) = rev p"
    using assms(2) by (subst rev_append, subst dropWhile_append2) (auto simp: p_def)
  ultimately have "dirPath (mk_path (cs @ [c])) = clean p"
    by (simp add: dirPath_def)
  moreover have "isAbs p" and "split_path p = cs"
    using assms(1) split_path_append [of "[]" "[]"]
    by (auto simp: p_def isAbs_def mk_path_def split_path_append split_path_append [of "[]", simplified]
        dest: split_path_mk_path)
  ultimately show ?thesis using assms(1) by (simp add: clean_abs)
qed

lemma mk_path_inj: "list_all proper cs \<Longrightarrow> list_all proper ds \<Longrightarrow> mk_path cs = mk_path ds \<longleftrightarrow> cs = ds"
  by (metis split_path_mk_path)

lemma mk_path_no_slash_end: "cs \<noteq> [] \<Longrightarrow> list_all proper cs \<Longrightarrow> \<not> hasSuffix (mk_path cs) ''/''"
proof -
  assume a: "cs \<noteq> []" "list_all proper cs"
  then obtain ds c where cs: "cs = ds @ [c]" by (metis rev_exhaust)
  with a have c: "proper c" by simp
  have "last (mk_path cs) = last c"
    using c by (simp add: cs mk_path_def) (cases "ds = []"; simp add: join_snoc)
  moreover have "last c \<noteq> CHR ''/''" using c by (metis last_in_set properD(1,2))
  ultimately show ?thesis
    by (auto simp: hasSuffix_def hasPrefix_def take_Suc hd_rev)
qed

end
