(* ===== verification/Os.thy ===== *)
theory Os
  imports GoStrings "HOL-Library.AList" "HOL-Library.Sublist"
begin

text \<open>
  The outside world of the program: a file tree with symbolic links and mount points, the calls
  of Go's \<open>os\<close> package on it, and the state of the programs it runs.

  Every call of the operating system may fail.  The world carries a fault schedule: call number
  \<open>n\<close> fails with an input/output error, and has no effect, when \<open>fault w n\<close> holds.  A power loss
  is the schedule that lets every call after some point fail, since none of them changes
  anything any more; a theorem about all schedules is therefore also about a power loss between
  any two calls.  Not modelled: owners and permission bits (the program runs as root), hard
  links, and the loss of data the kernel has accepted but not yet written.
\<close>

section \<open>Errors\<close>

datatype errno = ENOENT | ENOTDIR | EISDIR | EEXIST | ENOTEMPTY | ELOOP | EBUSY | EINVAL | EIO

text \<open>
  A Go \<open>error\<close> value: an \<open>os.PathError\<close>, an \<open>os.LinkError\<close>, a plain text (\<open>errors.New\<close>, or
  \<open>fmt.Errorf\<close> without \<open>%w\<close>), or an error wrapped with a prefix (\<open>fmt.Errorf\<close> with a trailing
  \<open>%w\<close>), an \<open>exec.ExitError\<close>, a program that ran and reported failure, or a bare
  \<open>syscall.Errno\<close>.
\<close>

datatype gerror =
    PathError string string errno
  | LinkError string string string errno
  | ErrText string
  | Wrap string gerror
  | ExitError string
  | Errno int

fun errno_text :: "errno \<Rightarrow> string" where
  "errno_text ENOENT = ''no such file or directory''"
| "errno_text ENOTDIR = ''not a directory''"
| "errno_text EISDIR = ''is a directory''"
| "errno_text EEXIST = ''file exists''"
| "errno_text ENOTEMPTY = ''directory not empty''"
| "errno_text ELOOP = ''too many levels of symbolic links''"
| "errno_text EBUSY = ''device or resource busy''"
| "errno_text EINVAL = ''invalid argument''"
| "errno_text EIO = ''input/output error''"

text \<open>The texts of the package \<open>syscall\<close>, for Linux on amd64.\<close>

definition syscall_errors :: "(int \<times> string) list" where
  "syscall_errors =
    [(1, ''operation not permitted''), (2, ''no such file or directory''), (3, ''no such process''),
     (4, ''interrupted system call''), (5, ''input/output error''), (6, ''no such device or address''),
     (7, ''argument list too long''), (8, ''exec format error''), (9, ''bad file descriptor''),
     (10, ''no child processes''), (11, ''resource temporarily unavailable''),
     (12, ''cannot allocate memory''), (13, ''permission denied''), (14, ''bad address''),
     (15, ''block device required''), (16, ''device or resource busy''), (17, ''file exists''),
     (18, ''invalid cross-device link''), (19, ''no such device''), (20, ''not a directory''),
     (21, ''is a directory''), (22, ''invalid argument''), (23, ''too many open files in system''),
     (24, ''too many open files''), (25, ''inappropriate ioctl for device''), (26, ''text file busy''),
     (27, ''file too large''), (28, ''no space left on device''), (29, ''illegal seek''),
     (30, ''read-only file system''), (31, ''too many links''), (32, ''broken pipe''),
     (33, ''numerical argument out of domain''), (34, ''numerical result out of range''),
     (35, ''resource deadlock avoided''), (36, ''file name too long''), (37, ''no locks available''),
     (38, ''function not implemented''), (39, ''directory not empty''),
     (40, ''too many levels of symbolic links''), (42, ''no message of desired type''),
     (43, ''identifier removed''), (44, ''channel number out of range''),
     (45, ''level 2 not synchronized''), (46, ''level 3 halted''), (47, ''level 3 reset''),
     (48, ''link number out of range''), (49, ''protocol driver not attached''),
     (50, ''no CSI structure available''), (51, ''level 2 halted''), (52, ''invalid exchange''),
     (53, ''invalid request descriptor''), (54, ''exchange full''), (55, ''no anode''),
     (56, ''invalid request code''), (57, ''invalid slot''), (59, ''bad font file format''),
     (60, ''device not a stream''), (61, ''no data available''), (62, ''timer expired''),
     (63, ''out of streams resources''), (64, ''machine is not on the network''),
     (65, ''package not installed''), (66, ''object is remote''), (67, ''link has been severed''),
     (68, ''advertise error''), (69, ''srmount error''), (70, ''communication error on send''),
     (71, ''protocol error''), (72, ''multihop attempted''), (73, ''RFS specific error''),
     (74, ''bad message''), (75, ''value too large for defined data type''),
     (76, ''name not unique on network''), (77, ''file descriptor in bad state''),
     (78, ''remote address changed''), (79, ''can not access a needed shared library''),
     (80, ''accessing a corrupted shared library''), (81, ''.lib section in a.out corrupted''),
     (82, ''attempting to link in too many shared libraries''),
     (83, ''cannot exec a shared library directly''),
     (84, ''invalid or incomplete multibyte or wide character''),
     (85, ''interrupted system call should be restarted''), (86, ''streams pipe error''),
     (87, ''too many users''), (88, ''socket operation on non-socket''),
     (89, ''destination address required''), (90, ''message too long''),
     (91, ''protocol wrong type for socket''), (92, ''protocol not available''),
     (93, ''protocol not supported''), (94, ''socket type not supported''),
     (95, ''operation not supported''), (96, ''protocol family not supported''),
     (97, ''address family not supported by protocol''), (98, ''address already in use''),
     (99, ''cannot assign requested address''), (100, ''network is down''),
     (101, ''network is unreachable''), (102, ''network dropped connection on reset''),
     (103, ''software caused connection abort''), (104, ''connection reset by peer''),
     (105, ''no buffer space available''), (106, ''transport endpoint is already connected''),
     (107, ''transport endpoint is not connected''),
     (108, ''cannot send after transport endpoint shutdown''),
     (109, ''too many references: cannot splice''), (110, ''connection timed out''),
     (111, ''connection refused''), (112, ''host is down''), (113, ''no route to host''),
     (114, ''operation already in progress''), (115, ''operation now in progress''),
     (116, ''stale NFS file handle''), (117, ''structure needs cleaning''),
     (118, ''not a XENIX named type file''), (119, ''no XENIX semaphores available''),
     (120, ''is a named type file''), (121, ''remote I/O error''), (122, ''disk quota exceeded''),
     (123, ''no medium found''), (124, ''wrong medium type''), (125, ''operation canceled''),
     (126, ''required key not available''), (127, ''key has expired''), (128, ''key has been revoked''),
     (129, ''key was rejected by service''), (130, ''owner died''), (131, ''state not recoverable''),
     (132, ''operation not possible due to RF-kill'')]"

definition errno_error :: "int \<Rightarrow> string" where
  "errno_error n = (case map_of syscall_errors n of Some t \<Rightarrow> t | None \<Rightarrow> ''errno '' @ itoa n)"

text \<open>The method \<open>Error()\<close>.\<close>

fun error_text :: "gerror \<Rightarrow> string" where
  "error_text (PathError op p e) = op @ '' '' @ p @ '': '' @ errno_text e"
| "error_text (LinkError op p q e) = op @ '' '' @ p @ '' '' @ q @ '': '' @ errno_text e"
| "error_text (ErrText s) = s"
| "error_text (Wrap s e) = s @ error_text e"
| "error_text (ExitError s) = s"
| "error_text (Errno n) = errno_error n"

text \<open>\<open>os.IsNotExist\<close> and \<open>os.IsExist\<close> look at the error itself, not through \<open>%w\<close>.\<close>

fun isNotExist :: "gerror \<Rightarrow> bool" where
  "isNotExist (PathError op p e) = (e = ENOENT)"
| "isNotExist (LinkError op p q e) = (e = ENOENT)"
| "isNotExist (Errno n) = (n = 2)"
| "isNotExist _ = False"

fun isExist :: "gerror \<Rightarrow> bool" where
  "isExist (PathError op p e) = (e = EEXIST \<or> e = ENOTEMPTY)"
| "isExist (LinkError op p q e) = (e = EEXIST \<or> e = ENOTEMPTY)"
| "isExist (Errno n) = (n = 17 \<or> n = 39)"
| "isExist _ = False"

section \<open>The file tree\<close>

text \<open>Every node carries the number of its device, \<open>st_dev\<close>.\<close>

datatype inode =
    Dir nat "(string \<times> inode) list"
  | Reg nat string
  | Lnk nat string
  | Special nat

fun lookup :: "inode \<Rightarrow> string list \<Rightarrow> inode option" where
  "lookup n [] = Some n"
| "lookup (Dir d es) (c # cs) = (case map_of es c of None \<Rightarrow> None | Some n \<Rightarrow> lookup n cs)"
| "lookup _ (c # cs) = None"

text \<open>Replace (\<open>Some\<close>) or delete (\<open>None\<close>) the entry at a path whose parent exists.\<close>

fun put :: "string list \<Rightarrow> inode option \<Rightarrow> inode \<Rightarrow> inode" where
  "put [] v n = (case v of None \<Rightarrow> n | Some m \<Rightarrow> m)"
| "put [c] v (Dir d es) =
     Dir d (case v of None \<Rightarrow> AList.delete c es | Some m \<Rightarrow> AList.update c m es)"
| "put (c # c' # cs) v (Dir d es) =
     (case map_of es c of
        None \<Rightarrow> Dir d es
      | Some m \<Rightarrow> Dir d (AList.update c (put (c' # cs) v m) es))"
| "put (c # cs) v n = n"

definition is_dir :: "inode option \<Rightarrow> bool" where
  "is_dir n = (case n of Some (Dir d es) \<Rightarrow> True | _ \<Rightarrow> False)"

subsection \<open>Path resolution\<close>

text \<open>
  The kernel's walk over the components of a path.  \<open>cur\<close> is the directory reached, as its path
  from the root without links; \<open>links\<close> bounds the symbolic links followed.  The last component
  is followed only on request.
\<close>

fun walk :: "nat \<Rightarrow> inode \<Rightarrow> string list \<Rightarrow> string list \<Rightarrow> bool \<Rightarrow> errno + string list" where
  "walk links r cur [] follow = Inr cur"
| "walk links r cur (c # cs) follow =
     (case lookup r cur of
        Some (Dir d es) \<Rightarrow>
          if c = ''.'' then walk links r cur cs follow
          else if c = ''..'' then walk links r (butlast cur) cs follow
          else (case map_of es c of
             None \<Rightarrow> Inl ENOENT
           | Some (Lnk d' t) \<Rightarrow>
               if cs = [] \<and> \<not> follow then Inr (cur @ [c])
               else (case links of
                  0 \<Rightarrow> Inl ELOOP
                | Suc l \<Rightarrow> walk l r (if isAbs t then [] else cur) (split_path t @ cs) follow)
           | Some n \<Rightarrow> walk links r (cur @ [c]) cs follow)
      | _ \<Rightarrow> Inl ENOTDIR)"

definition max_links :: nat where
  "max_links = 40"

text \<open>
  Resolve a path string; a relative path starts at the root, the working directory of the
  recovery environment.  A trailing slash asks for a directory and follows a final link.
\<close>

definition resolve :: "inode \<Rightarrow> bool \<Rightarrow> string \<Rightarrow> errno + string list" where
  "resolve r follow p =
     (if p = [] then Inl ENOENT
      else (case walk max_links r [] (split_path p) (follow \<or> hasSuffix p ''/'') of
         Inl e \<Rightarrow> Inl e
       | Inr q \<Rightarrow> if hasSuffix p ''/'' \<and> \<not> is_dir (lookup r q) then Inl ENOTDIR else Inr q))"

text \<open>
  The directory and the name under which a path creates, renames or deletes an entry; the root and
  a path that ends in a dot name no entry.
\<close>

definition resolve_entry :: "inode \<Rightarrow> string \<Rightarrow> errno + (string list \<times> string)" where
  "resolve_entry r p =
     (if split_path p = [] then Inl EBUSY
      else if last (split_path p) = ''.'' \<or> last (split_path p) = ''..'' then Inl EINVAL
      else (case walk max_links r [] (butlast (split_path p)) True of
         Inl e \<Rightarrow> Inl e
       | Inr q \<Rightarrow> if is_dir (lookup r q) then Inr (q, last (split_path p)) else Inl ENOTDIR))"

section \<open>The world\<close>

text \<open>
  \<open>root\<close> is the file tree, \<open>ext\<close> the state owned by the programs outside (the TPM and what
  \<open>sintykey\<close> keeps), \<open>tick\<close> counts the calls made, \<open>rnd\<close> supplies the random numbers of
  temporary names, and \<open>events\<close> records the calls of the cryptographic primitives, with their
  results, in their order, newest first.
\<close>

datatype event =
    ReadLockBit "gerror + bool"
  | ReadVerityOff "gerror + bool"
  | VerifyPIN int string "gerror + bool"
  | WipeVar "gerror option"
  | SetUnlockBit "gerror option"
  | DisableVerity "gerror option"

record 'x world =
  root :: inode
  ext :: 'x
  tick :: nat
  fault :: "nat \<Rightarrow> bool"
  rnd :: "nat \<Rightarrow> nat"
  events :: "event list"

type_synonym ('x, 'a) io = "('x world, 'a) state"

text \<open>A call: does this one fail?\<close>

definition syscall :: "('x, bool) io" where
  "syscall = State (\<lambda>w. (fault w (tick w), w\<lparr>tick := Suc (tick w)\<rparr>))"

text \<open>A call that reads the tree, and one that changes it in one step.\<close>

definition query :: "string \<Rightarrow> string \<Rightarrow> (inode \<Rightarrow> errno + 'a) \<Rightarrow> ('x, gerror + 'a) io" where
  "query op p f = do {
     bad \<leftarrow> syscall;
     if bad then return (Inl (PathError op p EIO))
     else gets (\<lambda>w. case f (root w) of Inl e \<Rightarrow> Inl (PathError op p e) | Inr a \<Rightarrow> Inr a)
   }"

definition perform :: "string \<Rightarrow> string \<Rightarrow> (inode \<Rightarrow> errno + inode) \<Rightarrow> ('x, gerror option) io" where
  "perform op p f = do {
     bad \<leftarrow> syscall;
     if bad then return (Some (PathError op p EIO))
     else do {
       r \<leftarrow> gets root;
       case f r of
         Inl e \<Rightarrow> return (Some (PathError op p e))
       | Inr r' \<Rightarrow> do { modify (root_update (\<lambda>_. r')); return None }
     }
   }"

section \<open>Package os\<close>

datatype ftype = TDir | TReg | TLnk | TSpecial

record fileinfo =
  mode_type :: ftype
  st_dev :: nat

fun info_of :: "inode \<Rightarrow> fileinfo" where
  "info_of (Dir d es) = \<lparr>mode_type = TDir, st_dev = d\<rparr>"
| "info_of (Reg d s) = \<lparr>mode_type = TReg, st_dev = d\<rparr>"
| "info_of (Lnk d t) = \<lparr>mode_type = TLnk, st_dev = d\<rparr>"
| "info_of (Special d) = \<lparr>mode_type = TSpecial, st_dev = d\<rparr>"

definition isDir :: "fileinfo \<Rightarrow> bool" where
  "isDir i \<longleftrightarrow> mode_type i = TDir"

definition isRegular :: "fileinfo \<Rightarrow> bool" where
  "isRegular i \<longleftrightarrow> mode_type i = TReg"

definition isSymlink :: "fileinfo \<Rightarrow> bool" where
  "isSymlink i \<longleftrightarrow> mode_type i = TLnk"

definition stat_at :: "bool \<Rightarrow> string \<Rightarrow> inode \<Rightarrow> errno + fileinfo" where
  "stat_at follow p r =
     (case resolve r follow p of
        Inl e \<Rightarrow> Inl e
      | Inr q \<Rightarrow> (case lookup r q of None \<Rightarrow> Inl ENOENT | Some n \<Rightarrow> Inr (info_of n)))"

definition os_Lstat :: "string \<Rightarrow> ('x, gerror + fileinfo) io" where
  "os_Lstat p = query ''lstat'' p (stat_at False p)"

definition os_Stat :: "string \<Rightarrow> ('x, gerror + fileinfo) io" where
  "os_Stat p = query ''stat'' p (stat_at True p)"

text \<open>Reading a device or a socket as if it were a file is an error here; no caller does it.\<close>

definition read_at :: "string \<Rightarrow> inode \<Rightarrow> errno + string" where
  "read_at p r =
     (case resolve r True p of
        Inl e \<Rightarrow> Inl e
      | Inr q \<Rightarrow> (case lookup r q of
           Some (Reg d s) \<Rightarrow> Inr s
         | Some (Dir d es) \<Rightarrow> Inl EISDIR
         | Some _ \<Rightarrow> Inl EINVAL
         | None \<Rightarrow> Inl ENOENT))"

definition os_ReadFile :: "string \<Rightarrow> ('x, gerror + string) io" where
  "os_ReadFile p = query ''open'' p (read_at p)"

text \<open>\<open>os.ReadDir\<close> lists the names of a directory in order.\<close>

definition names_at :: "string \<Rightarrow> inode \<Rightarrow> errno + string list" where
  "names_at p r =
     (case resolve r True p of
        Inl e \<Rightarrow> Inl e
      | Inr q \<Rightarrow> (case lookup r q of
           Some (Dir d es) \<Rightarrow> Inr (sort (remdups (map fst es)))
         | _ \<Rightarrow> Inl ENOTDIR))"

definition os_ReadDir :: "string \<Rightarrow> ('x, gerror + string list) io" where
  "os_ReadDir p = query ''open'' p (names_at p)"

definition os_Mkdir :: "string \<Rightarrow> ('x, gerror option) io" where
  "os_Mkdir p = perform ''mkdir'' p (\<lambda>r.
     case resolve_entry r p of
       Inl e \<Rightarrow> Inl e
     | Inr (q, c) \<Rightarrow> (case lookup r q of
          Some (Dir d es) \<Rightarrow>
            (case map_of es c of
               Some _ \<Rightarrow> Inl EEXIST
             | None \<Rightarrow> Inr (put (q @ [c]) (Some (Dir d [])) r))
        | _ \<Rightarrow> Inl ENOTDIR))"

text \<open>
  \<open>os.MkdirAll\<close>; the components are given last first.  A directory that somebody else made in
  the meantime is as good as a new one.
\<close>

definition mkdir_or_dir :: "string \<Rightarrow> ('x, gerror option) io" where
  "mkdir_or_dir p = do {
     e \<leftarrow> os_Mkdir p;
     case e of
       None \<Rightarrow> return None
     | Some err \<Rightarrow> do {
         st \<leftarrow> os_Lstat p;
         case st of
           Inl _ \<Rightarrow> return (Some err)
         | Inr i \<Rightarrow> return (if isDir i then None else Some err)
       }
   }"

fun mkdirAll_comps :: "bool \<Rightarrow> string list \<Rightarrow> ('x, gerror option) io" where
  "mkdirAll_comps rooted [] = return None"
| "mkdirAll_comps rooted (c # cs) = do {
     let p = (if rooted then mk_path (rev (c # cs)) else join ''/'' (rev (c # cs)));
     st \<leftarrow> os_Stat p;
     case st of
       Inl _ \<Rightarrow> do {
         e \<leftarrow> mkdirAll_comps rooted cs;
         case e of
           Some err \<Rightarrow> return (Some err)
         | None \<Rightarrow> mkdir_or_dir p
       }
     | Inr i \<Rightarrow> return (if isDir i then None else Some (PathError ''mkdir'' p ENOTDIR))
   }"

definition os_MkdirAll :: "string \<Rightarrow> ('x, gerror option) io" where
  "os_MkdirAll p = mkdirAll_comps (isAbs p) (rev (split_path p))"

subsection \<open>Removing\<close>

text \<open>
  \<open>os.RemoveAll\<close> on a subtree.  Each entry costs a call, a directory two (open, remove); an
  entry whose call fails stays, its siblings are still tried, and a directory that is not empty
  at the end stays.  A mount point, whose device differs from its parent's, cannot be removed.
  The result is what is left, with the first error.
\<close>

fun rm_node :: "(nat \<Rightarrow> bool) \<Rightarrow> nat \<Rightarrow> nat \<Rightarrow> inode \<Rightarrow> (inode \<times> errno) option \<times> nat"
  and rm_entries :: "(nat \<Rightarrow> bool) \<Rightarrow> nat \<Rightarrow> nat \<Rightarrow> (string \<times> inode) list \<Rightarrow>
        ((string \<times> inode) list \<times> errno option) \<times> nat" where
  "rm_node flt t pd (Dir d es) =
     (if flt t then (Some (Dir d es, EIO), Suc t)
      else (case rm_entries flt (Suc t) d es of
        ((es', err), t') \<Rightarrow>
          (case err of
             Some e \<Rightarrow> (Some (Dir d es', e), t')
           | None \<Rightarrow>
               if d \<noteq> pd then (Some (Dir d es', EBUSY), Suc t')
               else if flt t' then (Some (Dir d es', EIO), Suc t')
               else (None, Suc t'))))"
| "rm_node flt t pd (Reg d s) = (if flt t then (Some (Reg d s, EIO), Suc t) else (None, Suc t))"
| "rm_node flt t pd (Lnk d s) = (if flt t then (Some (Lnk d s, EIO), Suc t) else (None, Suc t))"
| "rm_node flt t pd (Special d) = (if flt t then (Some (Special d, EIO), Suc t) else (None, Suc t))"
| "rm_entries flt t d [] = (([], None), t)"
| "rm_entries flt t d ((c, n) # es) =
     (case rm_node flt t d n of (res, t1) \<Rightarrow>
        (case rm_entries flt t1 d es of ((es', err), t2) \<Rightarrow>
           (case res of
              None \<Rightarrow> ((es', err), t2)
            | Some (n', e) \<Rightarrow> (((c, n') # es', Some e), t2))))"

definition endsWithDot :: "string \<Rightarrow> bool" where
  "endsWithDot p \<longleftrightarrow> p = ''.'' \<or> hasSuffix p ''/.''"

definition os_RemoveAll :: "string \<Rightarrow> ('x, gerror option) io" where
  "os_RemoveAll p =
     (if p = [] then return None
      else if endsWithDot p then return (Some (PathError ''RemoveAll'' p EINVAL))
      else do {
        bad \<leftarrow> syscall;
        if bad then return (Some (PathError ''unlinkat'' p EIO))
        else do {
          r \<leftarrow> gets root;
          case resolve_entry r p of
            Inl e \<Rightarrow> return (if e = ENOENT then None else Some (PathError ''unlinkat'' p e))
          | Inr (q, c) \<Rightarrow>
              (case (lookup r q, lookup r (q @ [c])) of
                 (Some (Dir d es), Some n) \<Rightarrow> do {
                   flt \<leftarrow> gets fault;
                   t \<leftarrow> gets tick;
                   case rm_node flt t d n of
                     (None, t') \<Rightarrow> do {
                       modify (\<lambda>w. w\<lparr>root := put (q @ [c]) None r, tick := t'\<rparr>);
                       return None
                     }
                   | (Some (n', e), t') \<Rightarrow> do {
                       modify (\<lambda>w. w\<lparr>root := put (q @ [c]) (Some n') r, tick := t'\<rparr>);
                       return (Some (PathError ''unlinkat'' p e))
                     }
                 }
               | _ \<Rightarrow> return None)
        }
      })"

text \<open>\<open>os.Remove\<close>: one entry, a directory only when it is empty.\<close>

definition os_Remove :: "string \<Rightarrow> ('x, gerror option) io" where
  "os_Remove p = perform ''remove'' p (\<lambda>r.
     case resolve_entry r p of
       Inl e \<Rightarrow> Inl e
     | Inr (q, c) \<Rightarrow>
         (case lookup r (q @ [c]) of
            None \<Rightarrow> Inl ENOENT
          | Some (Dir d es) \<Rightarrow> if es = [] then Inr (put (q @ [c]) None r) else Inl ENOTEMPTY
          | Some _ \<Rightarrow> Inr (put (q @ [c]) None r)))"

subsection \<open>Files\<close>

text \<open>An open file: the name it was opened with and the node it denotes.\<close>

record gofile =
  file_name :: string
  file_node :: "string list"

definition os_Open :: "string \<Rightarrow> ('x, gerror + gofile) io" where
  "os_Open p = query ''open'' p (\<lambda>r.
     case resolve r True p of
       Inl e \<Rightarrow> Inl e
     | Inr q \<Rightarrow> if lookup r q = None then Inl ENOENT else Inr \<lparr>file_name = p, file_node = q\<rparr>)"

text \<open>Chmod, Sync and Close change nothing the model shows, but they can fail.\<close>

definition file_Chmod :: "gofile \<Rightarrow> ('x, gerror option) io" where
  "file_Chmod f = perform ''chmod'' (file_name f) Inr"

definition file_Sync :: "gofile \<Rightarrow> ('x, gerror option) io" where
  "file_Sync f = perform ''sync'' (file_name f) Inr"

definition file_Close :: "gofile \<Rightarrow> ('x, gerror option) io" where
  "file_Close f = perform ''close'' (file_name f) Inr"

text \<open>A failing write may still have written the beginning of its data.\<close>

definition write_at :: "string list \<Rightarrow> string \<Rightarrow> inode \<Rightarrow> errno + inode" where
  "write_at q b r =
     (case lookup r q of
        Some (Reg d s) \<Rightarrow> Inr (put q (Some (Reg d (s @ b))) r)
      | _ \<Rightarrow> Inl EINVAL)"

definition file_Write :: "gofile \<Rightarrow> string \<Rightarrow> ('x, gerror option) io" where
  "file_Write f b = do {
     k \<leftarrow> gets (\<lambda>w. rnd w (tick w));
     bad \<leftarrow> syscall;
     r \<leftarrow> gets root;
     case write_at (file_node f) (if bad then take k b else b) r of
       Inl e \<Rightarrow> return (Some (PathError ''write'' (file_name f) e))
     | Inr r' \<Rightarrow> do {
         modify (root_update (\<lambda>_. r'));
         return (if bad then Some (PathError ''write'' (file_name f) EIO) else None)
       }
   }"

text \<open>\<open>os.CreateTemp\<close> makes up to 10000 attempts at a random name nobody uses yet.\<close>

definition create_excl :: "string \<Rightarrow> inode \<Rightarrow> errno + inode" where
  "create_excl p r =
     (case resolve_entry r p of
        Inl e \<Rightarrow> Inl e
      | Inr (q, c) \<Rightarrow> (case lookup r q of
           Some (Dir d es) \<Rightarrow>
             (case map_of es c of
                Some _ \<Rightarrow> Inl EEXIST
              | None \<Rightarrow> Inr (put (q @ [c]) (Some (Reg d [])) r))
         | _ \<Rightarrow> Inl ENOTDIR))"

fun createTemp_try :: "nat \<Rightarrow> string \<Rightarrow> string \<Rightarrow> ('x, gerror + gofile) io" where
  "createTemp_try 0 dir pre =
     return (Inl (PathError ''createtemp'' (dir @ ''/'' @ pre @ ''*'') EEXIST))"
| "createTemp_try (Suc n) dir pre = do {
     k \<leftarrow> gets (\<lambda>w. rnd w (tick w));
     let p = dir @ ''/'' @ pre @ utoa k;
     e \<leftarrow> perform ''open'' p (create_excl p);
     case e of
       None \<Rightarrow> do {
         q \<leftarrow> gets (\<lambda>w. resolve_entry (root w) p);
         return (case q of
                   Inr (d, c) \<Rightarrow> Inr \<lparr>file_name = p, file_node = d @ [c]\<rparr>
                 | Inl e \<Rightarrow> Inl (PathError ''open'' p e))
       }
     | Some err \<Rightarrow> if isExist err then createTemp_try n dir pre else return (Inl err)
   }"

definition os_CreateTemp :: "string \<Rightarrow> string \<Rightarrow> ('x, gerror + gofile) io" where
  "os_CreateTemp dir pre = createTemp_try 10000 dir pre"

text \<open>\<open>os.Rename\<close> within one file system: the target entry is replaced in one step.\<close>

definition rename_at :: "string \<Rightarrow> string \<Rightarrow> inode \<Rightarrow> errno + inode" where
  "rename_at p p' r =
     (case resolve_entry r p of
        Inl e \<Rightarrow> Inl e
      | Inr (q, c) \<Rightarrow> (case resolve_entry r p' of
           Inl e \<Rightarrow> Inl e
         | Inr (q', c') \<Rightarrow> (case lookup r (q @ [c]) of
              None \<Rightarrow> Inl ENOENT
            | Some n \<Rightarrow>
                if is_dir (lookup r (q' @ [c'])) then Inl EEXIST
                else Inr (put (q' @ [c']) (Some n) (put (q @ [c]) None r)))))"

definition os_Rename :: "string \<Rightarrow> string \<Rightarrow> ('x, gerror option) io" where
  "os_Rename p p' = do {
     bad \<leftarrow> syscall;
     if bad then return (Some (LinkError ''rename'' p p' EIO))
     else do {
       r \<leftarrow> gets root;
       case rename_at p p' r of
         Inl e \<Rightarrow> return (Some (LinkError ''rename'' p p' e))
       | Inr r' \<Rightarrow> do { modify (root_update (\<lambda>_. r')); return None }
     }
   }"

section \<open>Facts about the tree\<close>

lemma lookup_append:
  "lookup r (p @ q) = (case lookup r p of None \<Rightarrow> None | Some n \<Rightarrow> lookup n q)"
proof (induction p arbitrary: r)
  case (Cons c p)
  then show ?case by (cases r) (auto split: option.splits)
qed simp

lemma is_dir_iff: "is_dir n \<longleftrightarrow> (\<exists>d es. n = Some (Dir d es))"
  by (auto simp: is_dir_def split: option.splits inode.splits)

lemma is_dirE:
  assumes "is_dir n"
  obtains d es where "n = Some (Dir d es)"
  using assms by (auto simp: is_dir_iff)

lemma lookup_Cons: "lookup r (c # cs) =
    (case r of Dir d es \<Rightarrow> (case map_of es c of None \<Rightarrow> None | Some n \<Rightarrow> lookup n cs) | _ \<Rightarrow> None)"
  by (cases r) auto

lemma lookup_snoc:
  "lookup r D = Some (Dir d es) \<Longrightarrow> lookup r (D @ [c]) = map_of es c"
  by (auto simp: lookup_append split: option.split)

lemma lookup_snoc_dir: "lookup r (D @ [c]) = Some n \<Longrightarrow> is_dir (lookup r D)"
  by (cases "lookup r D") (auto simp: lookup_append lookup_Cons is_dir_iff split: option.splits inode.splits)

lemma is_dir_prefix: "is_dir (lookup r (p @ q)) \<Longrightarrow> is_dir (lookup r p)"
proof (induction q rule: rev_induct)
  case (snoc c q)
  then obtain n where "lookup r ((p @ q) @ [c]) = Some n" by (auto simp: is_dir_iff)
  then have "is_dir (lookup r (p @ q))" by (rule lookup_snoc_dir)
  then show ?case by (rule snoc.IH)
qed simp

subsection \<open>Updates\<close>

lemma put_Cons:
  "put (c # cs) v (Dir d es) =
     (if cs = [] then Dir d (case v of None \<Rightarrow> AList.delete c es | Some m \<Rightarrow> AList.update c m es)
      else (case map_of es c of None \<Rightarrow> Dir d es | Some m \<Rightarrow> Dir d (AList.update c (put cs v m) es)))"
  by (cases cs) auto

text \<open>An update below a directory is an update of that directory.\<close>

lemma put_append:
  "lookup r p = Some n \<Longrightarrow> q \<noteq> [] \<Longrightarrow> put (p @ q) v r = put p (Some (put q v n)) r"
proof (induction p arbitrary: r)
  case (Cons c p)
  from Cons.prems obtain d es m where r: "r = Dir d es" and m: "map_of es c = Some m"
      and l: "lookup m p = Some n"
    by (auto simp: lookup_Cons split: inode.splits option.splits)
  show ?case
  proof (cases "p = []")
    case True
    with l m Cons.prems show ?thesis by (simp add: r put_Cons)
  next
    case False
    with Cons.IH [OF l Cons.prems(2)] m show ?thesis by (simp add: r put_Cons)
  qed
qed simp

lemma put_snoc:
  assumes "lookup r D = Some (Dir d es)"
  shows "put (D @ [c]) v r =
     put D (Some (Dir d (case v of None \<Rightarrow> AList.delete c es | Some m \<Rightarrow> AList.update c m es))) r"
  using put_append [OF assms, of "[c]" v] by simp

lemma lookup_put_under:
  "lookup r p = Some n \<Longrightarrow> lookup (put p (Some m) r) (p @ q) = lookup m q"
proof (induction p arbitrary: r)
  case (Cons c p)
  from Cons.prems obtain d es m' where r: "r = Dir d es" and m: "map_of es c = Some m'"
      and l: "lookup m' p = Some n"
    by (auto simp: lookup_Cons split: inode.splits option.splits)
  with Cons.IH [OF l] show ?case
    by (cases "p = []") (auto simp: put_Cons update_conv')
qed simp

lemma lookup_put_same: "lookup r p = Some n \<Longrightarrow> lookup (put p (Some m) r) p = Some m"
  using lookup_put_under [of r p n m "[]"] by simp

lemma put_put: "lookup r p = Some n \<Longrightarrow> put p (Some k) (put p (Some m) r) = put p (Some k) r"
proof (induction p arbitrary: r)
  case Nil
  then show ?case by simp
next
  case (Cons c p)
  from Cons.prems obtain d es m' where r: "r = Dir d es" and m: "map_of es c = Some m'"
      and l: "lookup m' p = Some n"
    by (auto simp: lookup_Cons split: inode.splits option.splits)
  with Cons.IH [OF l] show ?case
    by (cases "p = []") (auto simp: put_Cons update_conv')
qed

text \<open>
  What a directory shows of itself without its children: its device and its names.  Everything
  else shows its contents.
\<close>

fun shallow :: "inode \<Rightarrow> inode" where
  "shallow (Dir d es) = Dir d (map (\<lambda>(c, n). (c, Special 0)) es)"
| "shallow n = n"

lemma shallow_update:
  "map_of es c = Some n \<Longrightarrow> shallow (Dir d (AList.update c m es)) = shallow (Dir d es)"
  by (induction es) auto

text \<open>Replacing a subtree changes nothing outside of it.\<close>

lemma lookup_put_outside:
  "lookup r p = Some n \<Longrightarrow> \<not> prefix p q \<Longrightarrow>
     map_option shallow (lookup (put p (Some m) r) q) = map_option shallow (lookup r q)"
proof (induction p arbitrary: r q)
  case (Cons c p)
  from Cons.prems(1) obtain d es m' where r: "r = Dir d es" and m: "map_of es c = Some m'"
      and l: "lookup m' p = Some n"
    by (auto simp: lookup_Cons split: inode.splits option.splits)
  have put: "put (c # p) (Some m) (Dir d es) = Dir d (AList.update c (put p (Some m) m') es)"
    using m by (simp add: put_Cons)
  show ?case
  proof (cases q)
    case Nil
    with m show ?thesis by (simp add: put r shallow_update del: shallow.simps)
  next
    case (Cons c' q')
    with Cons.prems(2) Cons.IH [OF l, of q'] m show ?thesis
      by (auto simp: put r update_conv' split: option.splits)
  qed
qed simp

text \<open>Paths that fork from the replaced subtree find the very same node.\<close>

lemma lookup_put_fork:
  "\<not> prefix p q \<Longrightarrow> \<not> prefix q p \<Longrightarrow> lookup (put p v r) q = lookup r q"
proof (induction p arbitrary: r q)
  case (Cons c p)
  then obtain c' q' where q: "q = c' # q'" by (cases q) auto
  show ?case
  proof (cases r)
    case (Dir d es)
    show ?thesis
    proof (cases "c' = c")
      case True
      with Cons.prems q have f: "\<not> prefix p q'" "\<not> prefix q' p" by auto
      then have "p \<noteq> []" by auto
      with Cons.IH [OF f] True q Dir show ?thesis
        by (auto simp: put_Cons update_conv' split: option.splits)
    next
      case False
      with q Dir show ?thesis
        by (auto simp: put_Cons update_conv' delete_conv' split: option.splits)
    qed
  qed (use q in \<open>simp_all\<close>)
qed simp

lemma is_dir_shallow: "map_option shallow n = map_option shallow n' \<Longrightarrow> is_dir n = is_dir n'"
  by (cases n; cases n') (auto simp: is_dir_def split: inode.splits elim: shallow.elims)

subsection \<open>Resolution of paths without links\<close>

lemma walk_dirs:
  "is_dir (lookup r (cur @ cs)) \<Longrightarrow> list_all proper cs \<Longrightarrow>
     walk l r cur (cs @ ds) f = walk l r (cur @ cs) ds f"
proof (induction cs arbitrary: cur)
  case (Cons c cs)
  from Cons.prems(1) have "is_dir (lookup r (cur @ [c]))"
    using is_dir_prefix [of r "cur @ [c]" cs] by simp
  then obtain d' es' where c: "lookup r (cur @ [c]) = Some (Dir d' es')" by (rule is_dirE)
  from lookup_snoc_dir [OF c] obtain d es where cur: "lookup r cur = Some (Dir d es)" by (rule is_dirE)
  with c have "map_of es c = Some (Dir d' es')" by (simp add: lookup_snoc)
  with Cons.IH [of "cur @ [c]"] Cons.prems cur show ?case by simp
qed simp

lemma walk_dir: "is_dir (lookup r D) \<Longrightarrow> list_all proper D \<Longrightarrow> walk l r [] D f = Inr D"
  using walk_dirs [of r "[]" D l "[]" f] by simp

lemma walk_entry:
  assumes D: "lookup r D = Some (Dir d es)" and p: "list_all proper (D @ [c])"
  shows "walk l r [] (D @ [c]) False = (if map_of es c = None then Inl ENOENT else Inr (D @ [c]))"
proof -
  have "walk l r [] (D @ [c]) False = walk l r D [c] False"
    using walk_dirs [of r "[]" D l "[c]" False] D p by (simp add: is_dir_def)
  then show ?thesis using D p by (auto split: option.split inode.split)
qed

lemma resolve_dir:
  assumes "is_dir (lookup r D)" and "list_all proper D"
  shows "resolve r f (mk_path D) = Inr D"
  using assms by (simp add: resolve_def split_path_mk_path walk_dir)

lemma resolve_entry_name:
  assumes "is_dir (lookup r D)" and "list_all proper (D @ [c])"
  shows "resolve_entry r (mk_path (D @ [c])) = Inr (D, c)"
  using assms by (simp add: resolve_entry_def split_path_mk_path walk_dir)

lemma stat_at_entry:
  assumes D: "is_dir (lookup r D)" and p: "list_all proper (D @ [c])"
  shows "stat_at False (mk_path (D @ [c])) r =
     (case lookup r (D @ [c]) of None \<Rightarrow> Inl ENOENT | Some n \<Rightarrow> Inr (info_of n))"
proof -
  obtain d es where e: "lookup r D = Some (Dir d es)" using D by (rule is_dirE)
  have "\<not> hasSuffix (mk_path (D @ [c])) ''/''"
    using p by (intro mk_path_no_slash_end) auto
  then show ?thesis
    using p walk_entry [OF e p, of max_links]
    by (auto simp: stat_at_def resolve_def split_path_mk_path lookup_snoc [OF e] split: option.split)
qed

lemma stat_at_dir:
  assumes "lookup r D = Some (Dir d es)" and "list_all proper D"
  shows "stat_at f (mk_path D) r = Inr (info_of (Dir d es))"
  using assms by (simp add: stat_at_def resolve_dir is_dir_def)

lemma names_at_dir:
  assumes "lookup r D = Some (Dir d es)" and "list_all proper D"
  shows "names_at (mk_path D) r = Inr (sort (remdups (map fst es)))"
  using assms by (simp add: names_at_def resolve_dir is_dir_def)

subsection \<open>Calls\<close>

lemma tick_root: "w\<lparr>tick := t, root := r\<rparr> = w\<lparr>root := r, tick := t\<rparr>"
  by (cases w) simp

lemma wp_syscall [wp_simps]:
  "wp syscall Q = (\<lambda>w. Q (fault w (tick w)) (w\<lparr>tick := Suc (tick w)\<rparr>))"
  by (simp add: wp_def syscall_def fun_eq_iff)

text \<open>The outcomes of a call, whatever the schedule says.\<close>

lemma wp_queryI:
  assumes "Q (Inl (PathError op p EIO)) (w\<lparr>tick := Suc (tick w)\<rparr>)"
    and "\<And>e. f (root w) = Inl e \<Longrightarrow> Q (Inl (PathError op p e)) (w\<lparr>tick := Suc (tick w)\<rparr>)"
    and "\<And>a. f (root w) = Inr a \<Longrightarrow> Q (Inr a) (w\<lparr>tick := Suc (tick w)\<rparr>)"
  shows "wp (query op p f) Q w"
  using assms by (simp add: query_def wp_simps split: sum.split)

lemma wp_performI:
  assumes "Q (Some (PathError op p EIO)) (w\<lparr>tick := Suc (tick w)\<rparr>)"
    and "\<And>e. f (root w) = Inl e \<Longrightarrow> Q (Some (PathError op p e)) (w\<lparr>tick := Suc (tick w)\<rparr>)"
    and "\<And>r. f (root w) = Inr r \<Longrightarrow> Q None (w\<lparr>root := r, tick := Suc (tick w)\<rparr>)"
  shows "wp (perform op p f) Q w"
  using assms by (simp add: perform_def wp_simps tick_root split: sum.split)

text \<open>A predicate on worlds that does not look at the call counter.\<close>

definition tickless :: "('x world \<Rightarrow> bool) \<Rightarrow> bool" where
  "tickless I \<longleftrightarrow> (\<forall>w t. I w \<longrightarrow> I (w\<lparr>tick := t\<rparr>))"

lemma keeps_query: "tickless I \<Longrightarrow> keeps I (query op p f)"
  by (rule keepsI, rule wp_queryI) (auto simp: tickless_def)

lemma keeps_perform:
  assumes "tickless I" and "\<And>w r. I w \<Longrightarrow> f (root w) = Inr r \<Longrightarrow> I (w\<lparr>root := r\<rparr>)"
  shows "keeps I (perform op p f)"
proof (rule keepsI, rule wp_performI)
  fix w r
  assume "I w" "f (root w) = Inr r"
  then have "I (w\<lparr>root := r\<rparr>)" by (rule assms(2))
  then have "I (w\<lparr>root := r\<rparr>\<lparr>tick := Suc (tick w)\<rparr>)" using assms(1) unfolding tickless_def by blast
  then show "I (w\<lparr>root := r, tick := Suc (tick w)\<rparr>)" by simp
qed (use assms(1) in \<open>auto simp: tickless_def\<close>)

section \<open>Programs that only look\<close>

text \<open>
  \<open>quiet w\<close>: no call fails from here on.  \<open>yields r m v\<close>: on the tree \<open>r\<close> the program \<open>m\<close>
  changes nothing but the call counter, any value it returns is \<open>v\<close>, and without faults it does
  return it (or, for \<open>None\<close>, fails).  \<open>checks r m b\<close> is the same for a program that returns an
  error or nil: nil means that \<open>b\<close> holds.
\<close>

definition quiet :: "'x world \<Rightarrow> bool" where
  "quiet w \<longleftrightarrow> (\<forall>t. \<not> fault w t)"

lemma quiet_simps [simp]:
  "quiet (w\<lparr>tick := t\<rparr>) = quiet w" "quiet (w\<lparr>root := r\<rparr>) = quiet w"
  "quiet (w\<lparr>root := r, tick := t\<rparr>) = quiet w"
  by (simp_all add: quiet_def)

text \<open>Two worlds that differ in the call counter only.\<close>

definition ticked :: "'x world \<Rightarrow> 'x world \<Rightarrow> bool" where
  "ticked w w' \<longleftrightarrow> (\<exists>t. w' = w\<lparr>tick := t\<rparr>)"

lemma ticked_refl [simp]: "ticked w w"
  unfolding ticked_def by (rule exI [of _ "tick w"]) simp

lemma ticked_step [simp]: "ticked w (w\<lparr>tick := t\<rparr>)"
  by (auto simp: ticked_def)

lemma ticked_trans [trans]: "ticked w w' \<Longrightarrow> ticked w' w'' \<Longrightarrow> ticked w w''"
  by (auto simp: ticked_def)

lemma tickedD:
  assumes "ticked w w'"
  shows "root w' = root w" "ext w' = ext w" "events w' = events w" "quiet w' = quiet w"
    and "fault w' = fault w" "rnd w' = rnd w"
  using assms by (auto simp: ticked_def quiet_def)

definition yields :: "inode \<Rightarrow> ('x, gerror + 'a) io \<Rightarrow> 'a option \<Rightarrow> bool" where
  "yields r m v \<longleftrightarrow>
     (\<forall>w. root w = r \<longrightarrow> wp m (\<lambda>x w'. ticked w w'
        \<and> (\<forall>a. x = Inr a \<longrightarrow> v = Some a)
        \<and> (quiet w \<longrightarrow> (\<forall>a. v = Some a \<longrightarrow> x = Inr a))) w)"

definition checks :: "inode \<Rightarrow> ('x, gerror option) io \<Rightarrow> bool \<Rightarrow> bool" where
  "checks r m b \<longleftrightarrow>
     (\<forall>w. root w = r \<longrightarrow> wp m (\<lambda>e w'. ticked w w'
        \<and> (e = None \<longrightarrow> b) \<and> (quiet w \<longrightarrow> b \<longrightarrow> e = None)) w)"

named_theorems looks "rules for programs that only look"

lemma yields_wp:
  assumes "yields r m v" and "root w = r"
  shows "wp m (\<lambda>x w'. ticked w w' \<and> (\<forall>a. x = Inr a \<longrightarrow> v = Some a)
           \<and> (quiet w \<longrightarrow> (\<forall>a. v = Some a \<longrightarrow> x = Inr a))) w"
  using assms by (simp add: yields_def)

lemma checks_wp:
  assumes "checks r m b" and "root w = r"
  shows "wp m (\<lambda>e w'. ticked w w' \<and> (e = None \<longrightarrow> b) \<and> (quiet w \<longrightarrow> b \<longrightarrow> e = None)) w"
  using assms by (simp add: checks_def)

lemma checks_cong: "checks r m b \<Longrightarrow> b = c \<Longrightarrow> checks r m c"
  by simp

lemma yields_cong: "yields r m v \<Longrightarrow> v = u \<Longrightarrow> yields r m u"
  by simp

lemma yields_query [looks]:
  "yields r (query op p f) (case f r of Inl e \<Rightarrow> None | Inr a \<Rightarrow> Some a)"
  by (auto simp: yields_def quiet_def query_def wp_simps split: sum.split)

lemma yields_bind [looks]:
  assumes m: "yields r m v" and k: "\<And>a. v = Some a \<Longrightarrow> yields r (k a) (u a)"
  shows "yields r (do { x \<leftarrow> m; case x of Inl e \<Rightarrow> return (Inl (g e)) | Inr a \<Rightarrow> k a })
           (case v of None \<Rightarrow> None | Some a \<Rightarrow> u a)"
  unfolding yields_def wp_bind
proof (intro allI impI, rule wp_mono [OF yields_wp [OF m]], assumption, goal_cases)
  case (1 w x w')
  show ?case
  proof (cases x)
    case (Inl e)
    with 1 show ?thesis by (cases v) (simp_all add: wp_simps)
  next
    case (Inr a)
    with 1 have v: "v = Some a" and r': "root w' = r" and q: "quiet w' = quiet w"
      and t: "ticked w w'" by (auto dest: tickedD)
    show ?thesis
      unfolding Inr sum.case v option.case q [symmetric]
      by (rule wp_mono [OF yields_wp [OF k [OF v] r']]) (blast intro: ticked_trans [OF t])
  qed
qed

lemma yields_return_Inr [looks]: "yields r (return (Inr a)) (Some a)"
  by (simp add: yields_def wp_simps)

lemma yields_return_Inl [looks]: "yields r (return (Inl e)) None"
  by (simp add: yields_def wp_simps)

lemma yields_guard [looks]:
  assumes "\<not> b \<Longrightarrow> yields r m v"
  shows "yields r (if b then return (Inl err) else m) (if b then None else v)"
  using assms by (simp add: yields_def wp_simps)

lemma checks_return [looks]: "checks r (return (e :: gerror option)) (e = None)"
  by (simp add: checks_def wp_simps)

lemma checks_guard [looks]:
  assumes "\<not> b \<Longrightarrow> checks r m c"
  shows "checks r (if b then return (Some err) else m) (\<not> b \<and> c)"
  using assms by (simp add: checks_def wp_simps)

lemma checks_when [looks]:
  assumes "b \<Longrightarrow> checks r m c"
  shows "checks r (if b then m else return None) (b \<longrightarrow> c)"
  using assms by (simp add: checks_def wp_simps)

lemma checks_yields [looks]:
  assumes m: "yields r m v" and k: "\<And>a. v = Some a \<Longrightarrow> checks r (k a) (c a)"
  shows "checks r (do { x \<leftarrow> m; case x of Inl e \<Rightarrow> return (Some (g e)) | Inr a \<Rightarrow> k a })
           (\<exists>a. v = Some a \<and> c a)"
  unfolding checks_def wp_bind
proof (intro allI impI, rule wp_mono [OF yields_wp [OF m]], assumption, goal_cases)
  case (1 w x w')
  show ?case
  proof (cases x)
    case (Inl e)
    with 1 show ?thesis by (cases v) (simp_all add: wp_simps)
  next
    case (Inr a)
    with 1 have v: "v = Some a" and r': "root w' = r" and q: "quiet w' = quiet w"
      and t: "ticked w w'" by (auto dest: tickedD)
    show ?thesis
      unfolding Inr sum.case
      by (rule wp_mono [OF checks_wp [OF k [OF v] r']])
        (use v q in \<open>auto intro: ticked_trans [OF t]\<close>)
  qed
qed

lemma checks_bind [looks]:
  assumes m: "checks r m b" and n: "b \<Longrightarrow> checks r n c"
  shows "checks r (do { e \<leftarrow> m; case e of Some err \<Rightarrow> return (Some (g err)) | None \<Rightarrow> n }) (b \<and> c)"
  unfolding checks_def wp_bind
proof (intro allI impI, rule wp_mono [OF checks_wp [OF m]], assumption, goal_cases)
  case (1 w e w')
  show ?case
  proof (cases e)
    case (Some err)
    with 1 show ?thesis by (simp add: wp_simps)
  next
    case None
    with 1 have b: b and r': "root w' = r" and q: "quiet w' = quiet w"
      and t: "ticked w w'" by (auto dest: tickedD)
    show ?thesis
      unfolding None option.case
      by (rule wp_mono [OF checks_wp [OF n [OF b] r']])
        (use b q in \<open>auto intro: ticked_trans [OF t]\<close>)
  qed
qed

subsection \<open>The looking calls on paths without links\<close>

definition is_reg :: "inode option \<Rightarrow> bool" where
  "is_reg n = (case n of Some (Reg d s) \<Rightarrow> True | _ \<Rightarrow> False)"

fun dev_of :: "inode \<Rightarrow> nat" where
  "dev_of (Dir d es) = d"
| "dev_of (Reg d s) = d"
| "dev_of (Lnk d t) = d"
| "dev_of (Special d) = d"

lemma info_of_simps [simp]:
  "isDir (info_of n) = is_dir (Some n)" "isRegular (info_of n) = is_reg (Some n)"
  "isSymlink (info_of n) \<longleftrightarrow> (\<exists>d t. n = Lnk d t)" "st_dev (info_of n) = dev_of n"
  by (cases n; simp add: isDir_def isRegular_def isSymlink_def is_dir_def is_reg_def)+

declare info_of.simps [simp del]

lemma yields_lstat [looks]:
  assumes "is_dir (lookup r D)" and "list_all proper (D @ [c])"
  shows "yields r (os_Lstat (mk_path (D @ [c]))) (map_option info_of (lookup r (D @ [c])))"
  unfolding os_Lstat_def
  by (rule yields_cong [OF yields_query]) (simp add: stat_at_entry [OF assms] split: option.split)

lemma yields_stat_dir [looks]:
  assumes "is_dir (lookup r D)" and "list_all proper D"
  shows "yields r (os_Stat (mk_path D)) (map_option info_of (lookup r D))"
proof -
  obtain d es where "lookup r D = Some (Dir d es)" using assms(1) by (rule is_dirE)
  with assms(2) show ?thesis
    unfolding os_Stat_def by (intro yields_cong [OF yields_query]) (simp add: stat_at_dir)
qed

lemma yields_lstat_dir [looks]:
  assumes "is_dir (lookup r D)" and "list_all proper D"
  shows "yields r (os_Lstat (mk_path D)) (map_option info_of (lookup r D))"
proof -
  obtain d es where "lookup r D = Some (Dir d es)" using assms(1) by (rule is_dirE)
  with assms(2) show ?thesis
    unfolding os_Lstat_def by (intro yields_cong [OF yields_query]) (simp add: stat_at_dir)
qed

lemma walk_leaf:
  assumes D: "lookup r D = Some (Dir d es)" and p: "list_all proper (D @ [c])"
    and n: "map_of es c = Some n" "\<And>d t. n \<noteq> Lnk d t"
  shows "walk l r [] (D @ [c]) f = Inr (D @ [c])"
proof -
  have "walk l r [] (D @ [c]) f = walk l r D [c] f"
    using walk_dirs [of r "[]" D l "[c]" f] D p by (simp add: is_dir_def)
  then show ?thesis using D p n by (cases n) auto
qed

lemma read_at_reg:
  assumes l: "lookup r (D @ [c]) = Some (Reg d s)" and p: "list_all proper (D @ [c])"
  shows "read_at (mk_path (D @ [c])) r = Inr s"
proof -
  from lookup_snoc_dir [OF l] obtain d' es where D: "lookup r D = Some (Dir d' es)" by (rule is_dirE)
  have "\<not> hasSuffix (mk_path (D @ [c])) ''/''"
    using p by (intro mk_path_no_slash_end) auto
  moreover have "walk max_links r [] (D @ [c]) True = Inr (D @ [c])"
    using l by (intro walk_leaf [OF D p, of "Reg d s"]) (auto simp: lookup_snoc [OF D])
  ultimately show ?thesis
    using p l by (simp add: read_at_def resolve_def split_path_mk_path)
qed

lemma yields_read_reg [looks]:
  assumes "lookup r (D @ [c]) = Some (Reg d s)" and "list_all proper (D @ [c])"
  shows "yields r (os_ReadFile (mk_path (D @ [c]))) (Some s)"
  unfolding os_ReadFile_def
  by (rule yields_cong [OF yields_query]) (simp add: read_at_reg [OF assms])

lemma stat_at_missing:
  assumes D: "is_dir (lookup r D)" and p: "list_all proper (D @ [c, c'])"
    and n: "lookup r (D @ [c]) = None"
  shows "stat_at f (mk_path (D @ [c, c'])) r = Inl ENOENT"
proof -
  obtain d es where e: "lookup r D = Some (Dir d es)" using D by (rule is_dirE)
  have "walk l r [] (D @ [c, c']) f' = walk l r D [c, c'] f'" for l f'
    using walk_dirs [of r "[]" D l "[c, c']" f'] D p by simp
  also have "\<dots> l f' = Inl ENOENT" for l f'
    using n p by (simp add: e lookup_snoc [OF e])
  finally have "walk l r [] (D @ [c, c']) f' = Inl ENOENT" for l f' .
  moreover have "\<not> hasSuffix (mk_path (D @ [c, c'])) ''/''"
    using p by (intro mk_path_no_slash_end) auto
  ultimately show ?thesis
    using p by (simp add: stat_at_def resolve_def split_path_mk_path)
qed

lemma stat_at_absent:
  assumes D: "is_dir (lookup r D)" and p: "list_all proper (D @ [c])"
    and n: "lookup r (D @ [c]) = None"
  shows "stat_at f (mk_path (D @ [c])) r = Inl ENOENT"
proof -
  obtain d es where e: "lookup r D = Some (Dir d es)" using D by (rule is_dirE)
  have "walk l r [] (D @ [c]) f' = Inl ENOENT" for l f'
    using walk_dirs [of r "[]" D l "[c]" f'] D p n by (simp add: e lookup_snoc [OF e])
  moreover have "\<not> hasSuffix (mk_path (D @ [c])) ''/''"
    using p by (intro mk_path_no_slash_end) auto
  ultimately show ?thesis
    using p by (simp add: stat_at_def resolve_def split_path_mk_path)
qed

subsection \<open>Removing\<close>

text \<open>A tree with no mount point in it, below a directory of device \<open>d\<close>.\<close>

fun one_dev :: "nat \<Rightarrow> inode \<Rightarrow> bool" where
  "one_dev d (Dir d' es) \<longleftrightarrow> d' = d \<and> list_all (\<lambda>e. one_dev d (snd e)) es"
| "one_dev d n \<longleftrightarrow> True"

text \<open>A tree whose directories hold proper names only, each once.\<close>

fun wf_tree :: "inode \<Rightarrow> bool" where
  "wf_tree (Dir d es) \<longleftrightarrow>
     distinct (map fst es) \<and> list_all (\<lambda>e. proper (fst e) \<and> wf_tree (snd e)) es"
| "wf_tree n \<longleftrightarrow> True"

lemma wf_tree_lookup: "wf_tree r \<Longrightarrow> lookup r p = Some n \<Longrightarrow> wf_tree n"
proof (induction p arbitrary: r)
  case (Cons c p)
  from Cons.prems(2) obtain d es m where r: "r = Dir d es" and m: "map_of es c = Some m"
      and l: "lookup m p = Some n"
    by (auto simp: lookup_Cons split: inode.splits option.splits)
  from m have "(c, m) \<in> set es" by (rule map_of_SomeD)
  with Cons.prems(1) have "wf_tree m" by (auto simp: r list_all_iff)
  then show ?case using l by (rule Cons.IH)
qed simp

lemma wf_tree_names: "wf_tree (Dir d es) \<Longrightarrow> list_all proper (map fst es)"
  by (auto simp: list_all_iff)

lemma rm_quiet:
  "flt = (\<lambda>_. False) \<Longrightarrow> one_dev pd n \<Longrightarrow> fst (rm_node flt t pd n) = None"
  "flt = (\<lambda>_. False) \<Longrightarrow> list_all (\<lambda>e. one_dev d (snd e)) es \<Longrightarrow>
     fst (rm_entries flt t d es) = ([], None)"
proof (induction flt t pd n and flt t d es rule: rm_node_rm_entries.induct)
  case (1 flt t pd d es)
  then show ?case by (auto split: prod.split)
next
  case (6 flt t d c n es)
  obtain res t1 where n: "rm_node flt t d n = (res, t1)" by fastforce
  with 6 have res: "res = None" by auto
  obtain es' err t2 where e: "rm_entries flt t1 d es = ((es', err), t2)" by (metis prod.exhaust)
  with 6 n have "es' = []" "err = None" by auto
  with n e res show ?case by simp
qed auto

lemma quiet_fault: "quiet w \<Longrightarrow> fault w = (\<lambda>_. False)"
  by (auto simp: quiet_def)

lemma put_id: "lookup r p = Some n \<Longrightarrow> put p (Some n) r = r"
proof (induction p arbitrary: r)
  case (Cons c p)
  then show ?case
    by (cases r) (auto simp: put_Cons update_triv split: option.splits)
qed simp

lemma not_endsWithDot:
  assumes "list_all proper (Q @ [c])"
  shows "\<not> endsWithDot (mk_path (Q @ [c]))"
proof -
  have c: "proper c" using assms by simp
  obtain p where p: "mk_path (Q @ [c]) = p @ ''/'' @ c"
    by (cases "Q = []") (auto simp: mk_path_def join_snoc)
  obtain x y where xy: "rev c = x # y" using c by (cases "rev c") auto
  have "\<not> hasPrefix (rev c @ CHR ''/'' # rev p) ''./''"
  proof (cases y)
    case Nil
    with xy c show ?thesis by (auto simp: rev_eq_Cons_iff)
  next
    case (Cons z ys)
    then have "z \<in> set c" using xy by (metis list.set_intros(1,2) set_rev)
    with c have "z \<noteq> CHR ''/''" by auto
    with xy Cons show ?thesis by simp
  qed
  moreover have "p @ ''/'' @ c \<noteq> ''.''" using c by (cases p) auto
  ultimately show ?thesis by (simp add: endsWithDot_def hasSuffix_def p)
qed

text \<open>
  Removing the entry \<open>c\<close> of a directory touches that entry only; when it reports success the
  entry is gone, and without faults and mount points it does.
\<close>

definition removal ::
    "string list \<Rightarrow> nat \<Rightarrow> (string \<times> inode) list \<Rightarrow> (string \<Rightarrow> bool) \<Rightarrow> 'x world \<Rightarrow>
     gerror option \<Rightarrow> 'x world \<Rightarrow> bool" where
  "removal Q d es gone w e w' \<longleftrightarrow>
     (\<exists>es' t. w' = w\<lparr>root := put Q (Some (Dir d es')) (root w), tick := t\<rparr>
        \<and> (\<forall>c. \<not> gone c \<longrightarrow> map_of es' c = map_of es c)
        \<and> (e = None \<longrightarrow> es' = filter (\<lambda>x. \<not> gone (fst x)) es))
     \<and> (quiet w \<longrightarrow> (\<forall>c n. gone c \<longrightarrow> map_of es c = Some n \<longrightarrow> one_dev d n) \<longrightarrow> e = None)"

lemma removal_same:
  assumes "lookup (root w) Q = Some (Dir d es)"
    and "e = None \<longrightarrow> (\<forall>c. gone c \<longrightarrow> c \<notin> fst ` set es)"
    and "quiet w \<longrightarrow> e = None" and "ticked w w'"
  shows "removal Q d es gone w e w'"
proof -
  have "e = None \<Longrightarrow> filter (\<lambda>x. \<not> gone (fst x)) es = es"
    using assms(2) by (auto simp: filter_id_conv)
  moreover from assms(4) obtain t where "w' = w\<lparr>tick := t\<rparr>" by (auto simp: ticked_def)
  ultimately show ?thesis
    using assms(3) unfolding removal_def
    by (intro conjI exI [of _ es] exI [of _ t]) (auto simp: put_id [OF assms(1)])
qed

lemma removal_change:
  assumes "w' = w\<lparr>root := put Q (Some (Dir d es')) (root w), tick := t\<rparr>"
    and "\<And>c. \<not> gone c \<Longrightarrow> map_of es' c = map_of es c"
    and "e = None \<Longrightarrow> es' = filter (\<lambda>x. \<not> gone (fst x)) es"
    and "quiet w \<Longrightarrow> \<forall>c n. gone c \<longrightarrow> map_of es c = Some n \<longrightarrow> one_dev d n \<Longrightarrow> e = None"
  shows "removal Q d es gone w e w'"
  using assms unfolding removal_def by blast

lemma map_of_filter_fst:
  "map_of (filter (\<lambda>x. P (fst x)) es) c = (if P c then map_of es c else None)"
  by (induction es) auto

lemma delete_filter: "AList.delete c es = filter (\<lambda>x. fst x \<noteq> c) es"
  by (induction es) auto

lemma wp_RemoveAll:
  assumes Q: "lookup (root w) Q = Some (Dir d es)" and p: "list_all proper (Q @ [c])"
  shows "wp (os_RemoveAll (mk_path (Q @ [c]))) (removal Q d es (\<lambda>x. x = c) w) w"
proof -
  have re: "resolve_entry (root w) (mk_path (Q @ [c])) = Inr (Q, c)"
    using Q p by (intro resolve_entry_name) (simp_all add: is_dir_def)
  have lc: "lookup (root w) (Q @ [c]) = map_of es c" using Q by (rule lookup_snoc)
  note defs = os_RemoveAll_def wp_simps re lc Q not_endsWithDot [OF p]
  consider (fault) "fault w (tick w)" | (none) "\<not> fault w (tick w)" "map_of es c = None"
    | (some) n where "\<not> fault w (tick w)" "map_of es c = Some n" by blast
  then show ?thesis
  proof cases
    case fault
    then show ?thesis by (auto simp: defs quiet_def intro!: removal_same [OF Q])
  next
    case none
    then have "c \<notin> fst ` set es" by (simp add: map_of_eq_None_iff)
    with none show ?thesis by (auto simp: defs intro!: removal_same [OF Q])
  next
    case (some n)
    obtain res t where rm: "rm_node (fault w) (Suc (tick w)) d n = (res, t)" by fastforce
    have q: "quiet w \<Longrightarrow> one_dev d n \<Longrightarrow> res = None"
      using rm_quiet(1) [of "fault w" d n "Suc (tick w)"] rm by (simp add: quiet_fault)
    show ?thesis
    proof (cases res)
      case None
      with some rm show ?thesis
        by (auto simp: defs put_snoc [OF Q] map_of_filter_fst [of "\<lambda>x. x \<noteq> c"] tick_root delete_filter
            intro!: removal_change [of _ _ _ _ "AList.delete c es"])
    next
      case (Some pe)
      obtain n' e where "pe = (n', e)" by fastforce
      with some rm q Some show ?thesis
        by (auto simp: defs put_snoc [OF Q] update_conv' tick_root
            intro!: removal_change [of _ _ _ _ "AList.update c n' es"])
    qed
  qed
qed

subsection \<open>Making directories\<close>

lemma wp_Mkdir_exists:
  assumes "lookup (root w) (Q @ [c]) = Some n" and "list_all proper (Q @ [c])"
  shows "wp (os_Mkdir (mk_path (Q @ [c]))) (\<lambda>e w'. ticked w w' \<and> e \<noteq> None) w"
proof -
  from lookup_snoc_dir [OF assms(1)] have D: "is_dir (lookup (root w) Q)" .
  then obtain d es where Q: "lookup (root w) Q = Some (Dir d es)" by (rule is_dirE)
  with assms(1) have "map_of es c = Some n" by (simp add: lookup_snoc)
  then show ?thesis
    by (simp add: os_Mkdir_def perform_def wp_simps resolve_entry_name [OF D assms(2)] Q)
qed

lemma wp_Mkdir_new:
  assumes Q: "lookup (root w) Q = Some (Dir d es)" and n: "lookup (root w) (Q @ [c]) = None"
    and p: "list_all proper (Q @ [c])"
  shows "wp (os_Mkdir (mk_path (Q @ [c]))) (\<lambda>e w'.
     if e = None then \<exists>t. w' = w\<lparr>root := put (Q @ [c]) (Some (Dir d [])) (root w), tick := t\<rparr>
     else ticked w w' \<and> \<not> quiet w) w"
proof -
  have "resolve_entry (root w) (mk_path (Q @ [c])) = Inr (Q, c)"
    using Q p by (simp add: resolve_entry_name is_dir_def)
  moreover have "map_of es c = None" using n by (simp add: lookup_snoc [OF Q])
  ultimately show ?thesis
    by (auto simp: os_Mkdir_def perform_def wp_simps Q quiet_def tick_root)
qed

lemma wp_mkdir_or_dir_exists:
  assumes "lookup (root w) (Q @ [c]) = Some n" and "list_all proper (Q @ [c])"
  shows "wp (mkdir_or_dir (mk_path (Q @ [c]))) (\<lambda>e w'. ticked w w') w"
proof -
  have l: "wp (os_Lstat p) (\<lambda>x w2. ticked w w2) w1" if "ticked w w1" for p and w1
    unfolding os_Lstat_def by (rule wp_queryI) (auto intro: ticked_trans [OF that])
  show ?thesis
    unfolding mkdir_or_dir_def wp_bind
  proof (rule wp_mono [OF wp_Mkdir_exists [OF assms]], goal_cases)
    case (1 e w1)
    then obtain err where "e = Some err" by auto
    then show ?case
      by (simp add: wp_bind) (rule wp_mono [OF l], use 1 in \<open>auto simp: wp_simps split: sum.split\<close>)
  qed
qed

lemma wp_mkdir_or_dir_new:
  assumes Q: "lookup (root w) Q = Some (Dir d es)" and n: "lookup (root w) (Q @ [c]) = None"
    and p: "list_all proper (Q @ [c])"
  shows "wp (mkdir_or_dir (mk_path (Q @ [c]))) (\<lambda>e w'.
     if e = None then \<exists>t. w' = w\<lparr>root := put (Q @ [c]) (Some (Dir d [])) (root w), tick := t\<rparr>
     else ticked w w' \<and> \<not> quiet w) w"
proof -
  have l: "wp (os_Lstat (mk_path (Q @ [c]))) (\<lambda>x w2. ticked w w2 \<and> (\<exists>e. x = Inl e)) w1"
    if "ticked w w1" for w1
    unfolding os_Lstat_def
    by (rule wp_queryI)
      (use that Q n p in \<open>auto intro: ticked_trans [OF that] simp: stat_at_absent tickedD is_dir_def\<close>)
  show ?thesis
    unfolding mkdir_or_dir_def wp_bind
  proof (rule wp_mono [OF wp_Mkdir_new [OF assms]], goal_cases)
    case (1 e w1)
    show ?case
    proof (cases e)
      case None
      with 1 show ?thesis by (simp add: wp_simps)
    next
      case (Some err)
      with 1 have "ticked w w1" "\<not> quiet w" by auto
      with l [of w1] Some show ?thesis by (auto simp: wp_simps elim!: wp_mono)
    qed
  qed
qed

text \<open>A directory that is there is left alone.\<close>

lemma wp_mkdirAll_exists:
  "is_dir (lookup (root w) Q) \<Longrightarrow> list_all proper Q \<Longrightarrow>
     wp (mkdirAll_comps True (rev Q)) (\<lambda>e w'. ticked w w' \<and> (quiet w \<longrightarrow> e = None)) w"
proof (induction Q arbitrary: w rule: rev_induct)
  case Nil
  then show ?case by (simp add: wp_simps)
next
  case (snoc c Q)
  then obtain n where n: "lookup (root w) (Q @ [c]) = Some n" and dn: "is_dir (Some n)"
    by (auto simp: is_dir_iff)
  have Q: "is_dir (lookup (root w) Q)" using n by (rule lookup_snoc_dir)
  have p: "list_all proper (Q @ [c])" and pQ: "list_all proper Q" using snoc.prems by simp_all
  let ?P = "\<lambda>(e :: gerror option) w'. ticked w w' \<and> (quiet w \<longrightarrow> e = None)"
  have up: "wp (mkdirAll_comps True (rev Q) \<bind> (\<lambda>e. case e of Some err \<Rightarrow> return (Some err)
      | None \<Rightarrow> mkdir_or_dir (mk_path (Q @ [c])))) ?P w1" if t1: "ticked w w1" and nq: "\<not> quiet w" for w1
    unfolding wp_bind
  proof (rule wp_mono [OF snoc.IH [OF _ pQ]], goal_cases)
    case 1
    show ?case using Q t1 by (simp add: tickedD)
  next
    case (2 e w2)
    then have t2: "ticked w w2" using ticked_trans [OF t1] by blast
    then have n2: "lookup (root w2) (Q @ [c]) = Some n" using n by (simp add: tickedD)
    show ?case
    proof (cases e)
      case (Some err)
      with t2 nq show ?thesis by (simp add: wp_simps)
    next
      case None
      show ?thesis
        unfolding None option.case
        by (rule wp_mono [OF wp_mkdir_or_dir_exists [OF n2 p]]) (use nq in \<open>blast intro: ticked_trans [OF t2]\<close>)
    qed
  qed
  show ?case
    unfolding rev_append rev.simps append.simps mkdirAll_comps.simps Let_def if_True rev_rev_ident wp_bind
  proof (rule wp_mono [OF yields_wp [OF yields_stat_dir [OF snoc.prems] refl]], goal_cases)
    case (1 x w1)
    show ?case
    proof (cases x)
      case (Inl e)
      with 1 n have "\<not> quiet w" and "ticked w w1" by auto
      then show ?thesis unfolding Inl sum.case by (intro up)
    next
      case (Inr i)
      with 1 have "map_option info_of (lookup (root w) (Q @ [c])) = Some i" and t1: "ticked w w1"
        by blast+
      with n dn have "isDir i" by auto
      with t1 show ?thesis by (simp add: Inr wp_simps)
    qed
  qed
qed

text \<open>One missing directory below a directory that is there.\<close>

lemma wp_mkdirAll_new:
  assumes Q: "lookup (root w) Q = Some (Dir d es)" and n: "lookup (root w) (Q @ [c]) = None"
    and p: "list_all proper (Q @ [c])"
  shows "wp (mkdirAll_comps True (rev (Q @ [c]))) (\<lambda>e w'.
     if e = None then \<exists>t. w' = w\<lparr>root := put (Q @ [c]) (Some (Dir d [])) (root w), tick := t\<rparr>
     else ticked w w' \<and> \<not> quiet w) w"
    (is "wp _ ?P w")
proof -
  have pQ: "list_all proper Q" using p by simp
  have dQ: "is_dir (lookup (root w) Q)" using Q by (simp add: is_dir_def)
  have st: "wp (os_Stat (mk_path (Q @ [c]))) (\<lambda>x w1. ticked w w1 \<and> (\<exists>e. x = Inl e)) w"
    unfolding os_Stat_def by (rule wp_queryI) (use stat_at_absent [OF dQ p n] in auto)
  have mk: "wp (mkdir_or_dir (mk_path (Q @ [c]))) ?P w2" if t: "ticked w w2" for w2
  proof -
    have "lookup (root w2) Q = Some (Dir d es)" "lookup (root w2) (Q @ [c]) = None"
      using Q n t by (simp_all add: tickedD)
    from wp_mkdir_or_dir_new [OF this p] show ?thesis
    proof (rule wp_mono, goal_cases)
      case (1 e w3)
      then show ?case
        using t ticked_trans [OF t, of w3] by (auto simp: ticked_def split: if_splits)
    qed
  qed
  show ?thesis
    unfolding rev_append rev.simps append.simps mkdirAll_comps.simps Let_def if_True rev_rev_ident wp_bind
  proof (rule wp_mono [OF st], goal_cases)
    case (1 x w1)
    then obtain err where x: "x = Inl err" and t1: "ticked w w1" by auto
    show ?case
      unfolding x sum.case wp_bind
    proof (rule wp_mono [OF wp_mkdirAll_exists [OF _ pQ]], goal_cases)
      case 1
      show ?case using dQ t1 by (simp add: tickedD)
    next
      case (2 e w2)
      then have "ticked w w2" using ticked_trans [OF t1] by blast
      with 2 t1 mk show ?case by (cases e) (auto simp: wp_simps tickedD)
    qed
  qed
qed

end
