(* ===== verification/Config.thy ===== *)
theory Config
  imports Os
begin

text \<open>
  The configuration of the recovery core (\<open>internal/recovery/core.go\<close>).  \<open>stageDirs\<close> is the
  struct \<open>atom.StageDirs\<close> of the staging library, of which the program uses the two directories
  it sets itself in \<open>cmd/atom-recovery\<close>.  The core also holds the wireless client, made from the
  interface name, and a mutex; the methods that take the mutex run one at a time, so each of
  them is one program on the world.
\<close>

record stageDirs =
  Rootfs :: string
  ESP :: string

record config =
  Iface :: string
  WALPath :: string
  DataDir :: string
  RequireMount :: bool
  ManifestURL :: string
  RevocationURL :: string
  RootPub :: string
  LoaderImage :: string
  LoaderSig :: string
  Dirs :: stageDirs

end
