(* ===== verification/DataWipe.thy ===== *)
theory DataWipe
  imports Config
begin

text \<open>
  The destructive part of an unlock (\<open>internal/recovery/data_wipe.go\<close>): the checks that the
  configured directory really is the data volume of this installation, and the two passes that
  erase everything on it except the boot artefacts.
\<close>

section \<open>Validation\<close>

definition dataMarker :: string where
  "dataMarker = ''.atom-var''"

definition installIDMarker :: string where
  "installIDMarker = ''.atom-install-id''"

definition readInstallID :: "string \<Rightarrow> ('x, gerror + string) io" where
  "readInstallID path = do {
     st \<leftarrow> os_Lstat path;
     case st of
       Inl err \<Rightarrow> return (Inl err)
     | Inr info \<Rightarrow>
         if \<not> isRegular info then return (Inl (ErrText ''not a regular file''))
         else do {
           rd \<leftarrow> os_ReadFile path;
           case rd of
             Inl err \<Rightarrow> return (Inl err)
           | Inr b \<Rightarrow>
               let id = trimSpace b in
               if length id \<noteq> 32 \<or> trim id ''0123456789abcdef'' \<noteq> []
               then return (Inl (ErrText ''invalid install ID''))
               else return (Inr id)
         }
   }"

definition requireRealDir :: "string \<Rightarrow> string \<Rightarrow> bool \<Rightarrow> ('x, gerror option) io" where
  "requireRealDir path label opt = do {
     st \<leftarrow> os_Lstat path;
     case st of
       Inl err \<Rightarrow>
         if opt \<and> isNotExist err then return None
         else return (Some (Wrap (label @ '': '') err))
     | Inr info \<Rightarrow>
         if \<not> isDir info \<or> isSymlink info
         then return (Some (ErrText (label @ '' is not a real directory'')))
         else return None
   }"

text \<open>The loop over the artefacts that every installed root file system has.\<close>

fun checkArtifacts :: "string \<Rightarrow> string list \<Rightarrow> ('x, gerror option) io" where
  "checkArtifacts rootfs [] = return None"
| "checkArtifacts rootfs (name # names) = do {
     st \<leftarrow> os_Lstat (joinPath [rootfs, name]);
     case st of
       Inl err \<Rightarrow> return (Some (ErrText (''atom-data rootfs artifact '' @ name @ '' missing'')))
     | Inr info \<Rightarrow>
         if \<not> isRegular info
         then return (Some (ErrText (''atom-data rootfs artifact '' @ name @ '' missing'')))
         else checkArtifacts rootfs names
   }"

definition checkMount :: "config \<Rightarrow> fileinfo \<Rightarrow> ('x, gerror option) io" where
  "checkMount cfg info = do {
     st \<leftarrow> os_Stat (dirPath (DataDir cfg));
     case st of
       Inl err \<Rightarrow> return (Some (Wrap ''stat atom-data parent: '' err))
     | Inr parentInfo \<Rightarrow>
         if st_dev info = st_dev parentInfo
         then return (Some (ErrText ''atom-data is not a distinct mounted filesystem''))
         else return None
   }"

text \<open>The second half of the validation, from the boot directory on.\<close>

definition validateLayout :: "config \<Rightarrow> fileinfo \<Rightarrow> ('x, gerror option) io" where
  "validateLayout cfg info = do {
     let boot = joinPath [DataDir cfg, ''boot''];
     e1 \<leftarrow> requireRealDir boot ''atom-data boot directory'' False;
     case e1 of Some err \<Rightarrow> return (Some err) | None \<Rightarrow> do {
     let rootfs = joinPath [boot, ''rootfs''];
     e2 \<leftarrow> requireRealDir rootfs ''atom-data rootfs slots'' False;
     case e2 of Some err \<Rightarrow> return (Some err) | None \<Rightarrow> do {
     let lib = joinPath [DataDir cfg, ''lib''];
     e3 \<leftarrow> requireRealDir lib ''atom-data lib directory'' True;
     case e3 of Some err \<Rightarrow> return (Some err) | None \<Rightarrow> do {
     e4 \<leftarrow> requireRealDir (joinPath [lib, ''sinty'']) ''key-custody directory'' True;
     case e4 of Some err \<Rightarrow> return (Some err) | None \<Rightarrow> do {
     e5 \<leftarrow> checkArtifacts rootfs
             [''deployment.json'', ''rootfs-active.erofs'', ''rootfs-active.hash''];
     case e5 of Some err \<Rightarrow> return (Some err) | None \<Rightarrow>
       if RequireMount cfg then checkMount cfg info else return None }}}}
   }"

definition validateDataDir :: "config \<Rightarrow> ('x, gerror option) io" where
  "validateDataDir cfg =
     (if DataDir cfg = [] \<or> \<not> isAbs (DataDir cfg) \<or> clean (DataDir cfg) = ''/''
      then return (Some (ErrText ''unsafe or missing atom-data path''))
      else do {
        st \<leftarrow> os_Lstat (DataDir cfg);
        case st of Inl err \<Rightarrow> return (Some (Wrap ''open atom-data: '' err)) | Inr info \<Rightarrow>
        if \<not> isDir info \<or> isSymlink info
        then return (Some (ErrText ''atom-data path is not a directory mountpoint''))
        else do {
        ms \<leftarrow> os_Lstat (joinPath [DataDir cfg, dataMarker]);
        case ms of Inl err \<Rightarrow> return (Some (Wrap ''atom-data marker missing: '' err))
        | Inr markerInfo \<Rightarrow>
        if \<not> isRegular markerInfo
        then return (Some (ErrText ''atom-data marker is not a regular file''))
        else do {
        ds \<leftarrow> readInstallID (joinPath [DataDir cfg, installIDMarker]);
        case ds of Inl err \<Rightarrow> return (Some (Wrap ''read atom-data install ID: '' err))
        | Inr dataID \<Rightarrow> do {
        es \<leftarrow> readInstallID (joinPath [ESP (Dirs cfg), ''state'', ''install-id'']);
        case es of Inl err \<Rightarrow> return (Some (Wrap ''read system partition install ID: '' err))
        | Inr espID \<Rightarrow>
        if dataID \<noteq> espID then return (Some (ErrText ''installed volume IDs do not match''))
        else validateLayout cfg info }}}})"

section \<open>Erasing\<close>

definition syncDir :: "string \<Rightarrow> ('x, gerror option) io" where
  "syncDir path = do {
     op \<leftarrow> os_Open path;
     case op of
       Inl err \<Rightarrow> return (Some err)
     | Inr dir \<Rightarrow> do { e \<leftarrow> file_Sync dir; _ \<leftarrow> file_Close dir; return e }
   }"

text \<open>The loop of \<open>removeChildrenExcept\<close>; it stops at the first entry that cannot be removed.\<close>

fun removeEntries :: "string \<Rightarrow> string list \<Rightarrow> string list \<Rightarrow> ('x, gerror option) io" where
  "removeEntries dir keep [] = return None"
| "removeEntries dir keep (name # names) =
     (if List.member keep name then removeEntries dir keep names
      else do {
        e \<leftarrow> os_RemoveAll (joinPath [dir, name]);
        case e of
          Some err \<Rightarrow> return (Some (Wrap (''remove '' @ name @ '': '') err))
        | None \<Rightarrow> removeEntries dir keep names
      })"

definition removeChildrenExcept :: "string \<Rightarrow> string list \<Rightarrow> ('x, gerror option) io" where
  "removeChildrenExcept dir keep = do {
     rd \<leftarrow> os_ReadDir dir;
     case rd of
       Inl err \<Rightarrow> return (Some err)
     | Inr entries \<Rightarrow> do {
         e \<leftarrow> removeEntries dir keep entries;
         case e of Some err \<Rightarrow> return (Some err) | None \<Rightarrow> syncDir dir
       }
   }"

definition bootKeep :: "string list" where
  "bootKeep = [''efi'', ''rootfs'']"

definition rootfsKeep :: "string list" where
  "rootfsKeep =
     [''deployment.json'', ''deployment.json.bak'', ''rootfs-active.erofs'', ''rootfs-active.hash'',
      ''rootfs-next.erofs'', ''rootfs-next.hash'', ''rootfs-prev.erofs'', ''rootfs-prev.hash'']"

definition scrubBootArtifacts :: "config \<Rightarrow> ('x, gerror option) io" where
  "scrubBootArtifacts cfg = do {
     let boot = joinPath [DataDir cfg, ''boot''];
     e1 \<leftarrow> removeChildrenExcept boot bootKeep;
     case e1 of
       Some err \<Rightarrow> return (Some (Wrap ''scrub boot directory: '' err))
     | None \<Rightarrow> do {
         let rootfs = joinPath [boot, ''rootfs''];
         e2 \<leftarrow> removeChildrenExcept rootfs rootfsKeep;
         case e2 of
           Some err \<Rightarrow> return (Some (Wrap ''scrub rootfs slots: '' err))
         | None \<Rightarrow> return None
       }
   }"

definition prepareDataWipe :: "config \<Rightarrow> ('x, gerror option) io" where
  "prepareDataWipe cfg = do {
     e1 \<leftarrow> validateDataDir cfg;
     case e1 of Some err \<Rightarrow> return (Some err) | None \<Rightarrow> do {
     e2 \<leftarrow> scrubBootArtifacts cfg;
     case e2 of Some err \<Rightarrow> return (Some err) | None \<Rightarrow> do {
     e3 \<leftarrow> removeChildrenExcept (DataDir cfg) [''boot'', dataMarker, installIDMarker, ''lib''];
     case e3 of Some err \<Rightarrow> return (Some err) | None \<Rightarrow> do {
     let libDir = joinPath [DataDir cfg, ''lib''];
     e4 \<leftarrow> os_MkdirAll (joinPath [libDir, ''sinty'']);
     case e4 of
       Some err \<Rightarrow> return (Some (Wrap ''preserve key custody: '' err))
     | None \<Rightarrow> removeChildrenExcept libDir [''sinty''] }}}
   }"

definition finishDataWipe :: "config \<Rightarrow> ('x, gerror option) io" where
  "finishDataWipe cfg = do {
     e1 \<leftarrow> validateDataDir cfg;
     case e1 of
       Some err \<Rightarrow> return (Some err)
     | None \<Rightarrow> removeChildrenExcept (DataDir cfg) [''boot'', dataMarker, installIDMarker]
   }"

section \<open>What validation establishes\<close>

text \<open>
  The configured paths are absolute and clean: the data directory is \<open>D\<close> below the root, the
  system partition's directory is \<open>E\<close>.  Both are reached without symbolic links.
\<close>

definition volume_paths :: "config \<Rightarrow> string list \<Rightarrow> string list \<Rightarrow> bool" where
  "volume_paths cfg D E \<longleftrightarrow>
     DataDir cfg = mk_path D \<and> D \<noteq> [] \<and> list_all proper D \<and>
     ESP (Dirs cfg) = mk_path E \<and> list_all proper E"

definition present :: "string list \<Rightarrow> string list \<Rightarrow> inode \<Rightarrow> bool" where
  "present D E r \<longleftrightarrow> is_dir (lookup r D) \<and> is_dir (lookup r (E @ [''state'']))"

definition install_id :: "inode option \<Rightarrow> string option" where
  "install_id n =
     (case n of
        Some (Reg d s) \<Rightarrow>
          if length (trimSpace s) = 32 \<and> set (trimSpace s) \<subseteq> set ''0123456789abcdef''
          then Some (trimSpace s) else None
      | _ \<Rightarrow> None)"

definition artifacts :: "string list" where
  "artifacts = [''deployment.json'', ''rootfs-active.erofs'', ''rootfs-active.hash'']"

text \<open>A data volume of this installation, laid out as the code expects it.\<close>

definition valid_volume :: "config \<Rightarrow> string list \<Rightarrow> string list \<Rightarrow> inode \<Rightarrow> bool" where
  "valid_volume cfg D E r \<longleftrightarrow>
     is_reg (lookup r (D @ [dataMarker]))
     \<and> install_id (lookup r (D @ [installIDMarker])) \<noteq> None
     \<and> install_id (lookup r (E @ [''state'', ''install-id''])) = install_id (lookup r (D @ [installIDMarker]))
     \<and> is_dir (lookup r (D @ [''boot'']))
     \<and> is_dir (lookup r (D @ [''boot'', ''rootfs'']))
     \<and> (lookup r (D @ [''lib'']) = None \<or> is_dir (lookup r (D @ [''lib''])))
     \<and> (lookup r (D @ [''lib'', ''sinty'']) = None \<or> is_dir (lookup r (D @ [''lib'', ''sinty''])))
     \<and> list_all (\<lambda>a. is_reg (lookup r (D @ [''boot'', ''rootfs'', a]))) artifacts
     \<and> (RequireMount cfg \<longrightarrow>
          map_option dev_of (lookup r D) \<noteq> map_option dev_of (lookup r (butlast D)))"

lemma proper_names [simp]:
  "proper ''boot''" "proper ''rootfs''" "proper ''lib''" "proper ''sinty''" "proper ''state''"
  "proper ''install-id''" "proper dataMarker" "proper installIDMarker" "proper ''unlock-armed''"
  "proper ''deployment.json''" "proper ''rootfs-active.erofs''" "proper ''rootfs-active.hash''"
  by (simp_all add: proper_def dataMarker_def installIDMarker_def)

lemma yields_readInstallID:
  assumes D: "is_dir (lookup r D)" and p: "list_all proper (D @ [c])"
  shows "yields r (readInstallID (mk_path (D @ [c])) :: ('x, gerror + string) io)
           (install_id (lookup r (D @ [c])))"
proof (cases "is_reg (lookup r (D @ [c]))")
  case True
  then obtain d s where l: "lookup r (D @ [c]) = Some (Reg d s)"
    by (auto simp: is_reg_def split: option.splits inode.splits)
  have "yields r (readInstallID (mk_path (D @ [c])) :: ('x, gerror + string) io)
     (case map_option info_of (lookup r (D @ [c])) of None \<Rightarrow> None
      | Some a \<Rightarrow> if \<not> isRegular a then None
          else case Some s of None \<Rightarrow> None
            | Some b \<Rightarrow> if length (trimSpace b) \<noteq> 32 \<or> trim (trimSpace b) ''0123456789abcdef'' \<noteq> []
                then None else Some (trimSpace b))"
    unfolding readInstallID_def Let_def by (intro looks yields_read_reg [OF l] D p)
  then show ?thesis
    by (rule yields_cong) (simp add: l install_id_def is_reg_def trim_cutset_Nil_iff)
next
  case False
  have "yields r (readInstallID (mk_path (D @ [c])) :: ('x, gerror + string) io)
     (case map_option info_of (lookup r (D @ [c])) of None \<Rightarrow> None
      | Some a \<Rightarrow> if \<not> isRegular a then None else undefined)"
    unfolding readInstallID_def Let_def
    by (intro yields_bind yields_lstat yields_guard D p) (use False in auto)
  then show ?thesis
    by (rule yields_cong)
      (use False in \<open>auto simp: install_id_def is_reg_def split: option.splits inode.splits\<close>)
qed

lemma checks_requireRealDir:
  assumes s: "stat_at False p r = (case n of None \<Rightarrow> Inl ENOENT | Some m \<Rightarrow> Inr (info_of m))"
  shows "checks r (requireRealDir p label opt) (is_dir n \<or> opt \<and> n = None)"
  unfolding checks_def requireRealDir_def os_Lstat_def query_def
  by (auto simp: wp_simps s quiet_def is_dir_iff split: option.splits)

lemma checks_artifacts:
  assumes D: "is_dir (lookup r D)" and p: "list_all proper D" and ns: "list_all proper ns"
  shows "checks r (checkArtifacts (mk_path D) ns :: ('x, gerror option) io) (list_all (\<lambda>a. is_reg (lookup r (D @ [a]))) ns)"
  using ns
proof (induction ns)
  case Nil
  then show ?case by (simp add: checks_return [of r None, simplified])
next
  case (Cons c ns)
  from Cons.prems have pc: "list_all proper (D @ [c])" and j: "joinPath [mk_path D, c] = mk_path (D @ [c])"
    using p by (simp_all add: joinPath_name)
  have "checks r (checkArtifacts (mk_path D) (c # ns) :: ('x, gerror option) io)
     (\<exists>a. map_option info_of (lookup r (D @ [c])) = Some a
        \<and> \<not> \<not> isRegular a \<and> list_all (\<lambda>a. is_reg (lookup r (D @ [a]))) ns)"
    unfolding checkArtifacts.simps j
    by (intro looks D pc) (use Cons in simp)
  then show ?case
    by (rule checks_cong) (cases "lookup r (D @ [c])", auto simp: is_reg_def)
qed

lemma checks_mount:
  assumes D: "is_dir (lookup r D)" and p: "list_all proper D" and n: "D \<noteq> []"
    and c: "DataDir cfg = mk_path D" and m: "lookup r D = Some m"
  shows "checks r (checkMount cfg (info_of m) :: ('x, gerror option) io)
           (map_option dev_of (lookup r D) \<noteq> map_option dev_of (lookup r (butlast D)))"
proof -
  obtain D' x where D': "D = D' @ [x]" using n by (metis rev_exhaust)
  with p have p': "list_all proper D'" and x: "proper x" by simp_all
  have dp: "dirPath (DataDir cfg) = mk_path D'"
    using p' x by (simp add: c D' dirPath_mk_path)
  have dir: "is_dir (lookup r D')" using D by (simp add: D' is_dir_prefix)
  have "checks r (checkMount cfg (info_of m) :: ('x, gerror option) io)
     (\<exists>a. map_option info_of (lookup r D') = Some a
        \<and> \<not> st_dev (info_of m) = st_dev a \<and> (None :: gerror option) = None)"
    unfolding checkMount_def dp by (intro looks dir p')
  then show ?thesis
    using dir m by (elim checks_cong) (auto simp: D' is_dir_iff)
qed

lemma checks_validateLayout:
  assumes vp: "volume_paths cfg D E" and D: "is_dir (lookup r D)" and m: "lookup r D = Some m"
  shows "checks r (validateLayout cfg (info_of m) :: ('x, gerror option) io)
     (is_dir (lookup r (D @ [''boot'']))
     \<and> is_dir (lookup r (D @ [''boot'', ''rootfs'']))
     \<and> (lookup r (D @ [''lib'']) = None \<or> is_dir (lookup r (D @ [''lib''])))
     \<and> (lookup r (D @ [''lib'', ''sinty'']) = None \<or> is_dir (lookup r (D @ [''lib'', ''sinty''])))
     \<and> list_all (\<lambda>a. is_reg (lookup r (D @ [''boot'', ''rootfs'', a]))) artifacts
     \<and> (RequireMount cfg \<longrightarrow>
          map_option dev_of (lookup r D) \<noteq> map_option dev_of (lookup r (butlast D))))"
proof -
  from vp have p: "list_all proper D" and ne: "D \<noteq> []" and c: "DataDir cfg = mk_path D"
    by (simp_all add: volume_paths_def)
  have s1: "stat_at False (mk_path (D @ [x])) r =
      (case lookup r (D @ [x]) of None \<Rightarrow> Inl ENOENT | Some n \<Rightarrow> Inr (info_of n))"
    if "proper x" for x
    using stat_at_entry [OF D] p that by simp
  have s2: "stat_at False (mk_path (D @ [x, y])) r =
      (case lookup r (D @ [x, y]) of None \<Rightarrow> Inl ENOENT | Some n \<Rightarrow> Inr (info_of n))"
    if "proper x" "proper y" "lookup r (D @ [x]) = None \<or> is_dir (lookup r (D @ [x]))" for x y
  proof (cases "is_dir (lookup r (D @ [x]))")
    case True
    then show ?thesis using stat_at_entry [of r "D @ [x]" y] p that by simp
  next
    case False
    then have n: "lookup r (D @ [x]) = None" using that by simp
    then have "lookup r (D @ [x, y]) = None"
      using lookup_append [of r "D @ [x]" "[y]"] by simp
    then show ?thesis using stat_at_missing [OF D _ n, of y] p that by simp
  qed
  have j: "joinPath [DataDir cfg, ''boot''] = mk_path (D @ [''boot''])"
    "joinPath [mk_path (D @ [''boot'']), ''rootfs''] = mk_path (D @ [''boot'', ''rootfs''])"
    "joinPath [DataDir cfg, ''lib''] = mk_path (D @ [''lib''])"
    "joinPath [mk_path (D @ [''lib'']), ''sinty''] = mk_path (D @ [''lib'', ''sinty''])"
    using p joinPath_name [of "D @ [''boot'']" "''rootfs''"] joinPath_name [of "D @ [''lib'']" "''sinty''"]
    by (simp_all add: c joinPath_name)
  let ?is = "\<lambda>q. is_dir (lookup r q)"
  let ?arts = "list_all (\<lambda>a. is_reg (lookup r ((D @ [''boot'', ''rootfs'']) @ [a]))) artifacts"
  have "checks r (validateLayout cfg (info_of m) :: ('x, gerror option) io)
     ((?is (D @ [''boot'']) \<or> False \<and> lookup r (D @ [''boot'']) = None)
     \<and> (?is (D @ [''boot'', ''rootfs'']) \<or> False \<and> lookup r (D @ [''boot'', ''rootfs'']) = None)
     \<and> (?is (D @ [''lib'']) \<or> True \<and> lookup r (D @ [''lib'']) = None)
     \<and> (?is (D @ [''lib'', ''sinty'']) \<or> True \<and> lookup r (D @ [''lib'', ''sinty'']) = None)
     \<and> ?arts
     \<and> (RequireMount cfg \<longrightarrow>
          map_option dev_of (lookup r D) \<noteq> map_option dev_of (lookup r (butlast D))))"
    unfolding validateLayout_def Let_def j artifacts_def
    by (intro checks_bind checks_requireRealDir checks_when checks_mount [OF D p ne c m]
          checks_artifacts s1 s2)
      (use p in \<open>auto\<close>)
  then show ?thesis by (rule checks_cong) auto
qed

text \<open>
  Validation succeeds only on a valid volume, whatever fails on the way, and without faults it
  does succeed there.
\<close>

lemma checks_validateDataDir:
  assumes vp: "volume_paths cfg D E" and pr: "present D E r"
  shows "checks r (validateDataDir cfg :: ('x, gerror option) io) (valid_volume cfg D E r)"
proof -
  from vp have p: "list_all proper D" and ne: "D \<noteq> []" and c: "DataDir cfg = mk_path D"
      and pe: "list_all proper E" and ce: "ESP (Dirs cfg) = mk_path E"
    by (simp_all add: volume_paths_def)
  from pr have D: "is_dir (lookup r D)" and E: "is_dir (lookup r (E @ [''state'']))"
    by (simp_all add: present_def)
  from D obtain d es where m: "lookup r D = Some (Dir d es)" by (rule is_dirE)
  have safe: "\<not> (DataDir cfg = [] \<or> \<not> isAbs (DataDir cfg) \<or> clean (DataDir cfg) = ''/'')"
    using ne p mk_path_inj [of D "[]"] by (simp add: c clean_mk_path) (simp add: mk_path_def)
  have j: "joinPath [DataDir cfg, dataMarker] = mk_path (D @ [dataMarker])"
    "joinPath [DataDir cfg, installIDMarker] = mk_path (D @ [installIDMarker])"
    "joinPath [ESP (Dirs cfg), ''state'', ''install-id''] = mk_path ((E @ [''state'']) @ [''install-id''])"
    using p pe by (simp_all add: c ce joinPath_name joinPath_name2)
  let ?lay = "is_dir (lookup r (D @ [''boot'']))
     \<and> is_dir (lookup r (D @ [''boot'', ''rootfs'']))
     \<and> (lookup r (D @ [''lib'']) = None \<or> is_dir (lookup r (D @ [''lib''])))
     \<and> (lookup r (D @ [''lib'', ''sinty'']) = None \<or> is_dir (lookup r (D @ [''lib'', ''sinty''])))
     \<and> list_all (\<lambda>a. is_reg (lookup r (D @ [''boot'', ''rootfs'', a]))) artifacts
     \<and> (RequireMount cfg \<longrightarrow>
          map_option dev_of (lookup r D) \<noteq> map_option dev_of (lookup r (butlast D)))"
  have lay: "checks r (validateLayout cfg a :: ('x, gerror option) io) ?lay"
    if "map_option info_of (lookup r D) = Some a" for a
    using checks_validateLayout [OF vp D m] that m by simp
  have "checks r (validateDataDir cfg :: ('x, gerror option) io)
     (\<exists>a. map_option info_of (lookup r D) = Some a \<and> \<not> (\<not> isDir a \<or> isSymlink a)
       \<and> (\<exists>b. map_option info_of (lookup r (D @ [dataMarker])) = Some b \<and> \<not> \<not> isRegular b
       \<and> (\<exists>i. install_id (lookup r (D @ [installIDMarker])) = Some i
       \<and> (\<exists>k. install_id (lookup r ((E @ [''state'']) @ [''install-id''])) = Some k \<and> \<not> i \<noteq> k \<and> ?lay))))"
    unfolding validateDataDir_def if_not_P [OF safe] j
    unfolding c
    by (intro checks_yields checks_guard yields_readInstallID yields_lstat yields_lstat_dir lay)
      (use D E p pe in \<open>auto\<close>)
  then show ?thesis
    by (rule checks_cong)
      (auto simp: valid_volume_def m is_reg_def is_dir_def split: option.splits)
qed

section \<open>What erasing does\<close>

lemma removal_root:
  assumes "removal Q d es gone w e w'" and "lookup (root w) Q = Some n"
  obtains es' where "lookup (root w') Q = Some (Dir d es')"
    and "root w' = put Q (Some (Dir d es')) (root w)"
    and "\<And>c. \<not> gone c \<Longrightarrow> map_of es' c = map_of es c"
    and "e = None \<Longrightarrow> es' = filter (\<lambda>x. \<not> gone (fst x)) es"
proof -
  from assms(1) obtain es' t where
      w': "w' = w\<lparr>root := put Q (Some (Dir d es')) (root w), tick := t\<rparr>"
      and k: "\<And>c. \<not> gone c \<Longrightarrow> map_of es' c = map_of es c"
      and f: "e = None \<Longrightarrow> es' = filter (\<lambda>x. \<not> gone (fst x)) es"
    unfolding removal_def by blast
  show thesis
    by (rule that [of es']) (use assms(2) k f in \<open>simp_all add: w' lookup_put_same\<close>)
qed

lemma removal_seq:
  assumes r1: "removal Q d es g1 w None w1"
    and r2: "removal Q d (filter (\<lambda>x. \<not> g1 (fst x)) es) g2 w1 e w2"
    and Q: "lookup (root w) Q = Some n"
  shows "removal Q d es (\<lambda>c. g1 c \<or> g2 c) w e w2"
proof -
  from r1 obtain t where w1: "w1 = w\<lparr>root := put Q (Some (Dir d (filter (\<lambda>x. \<not> g1 (fst x)) es))) (root w), tick := t\<rparr>"
    by (auto simp: removal_def)
  from r2 obtain es' t' where w2: "w2 = w1\<lparr>root := put Q (Some (Dir d es')) (root w1), tick := t'\<rparr>"
      and k: "\<And>c. \<not> g2 c \<Longrightarrow> map_of es' c = map_of (filter (\<lambda>x. \<not> g1 (fst x)) es) c"
      and s: "e = None \<Longrightarrow> es' = filter (\<lambda>x. \<not> g2 (fst x)) (filter (\<lambda>x. \<not> g1 (fst x)) es)"
      and l: "quiet w1 \<Longrightarrow> \<forall>c n. g2 c \<longrightarrow> map_of (filter (\<lambda>x. \<not> g1 (fst x)) es) c = Some n \<longrightarrow> one_dev d n
          \<Longrightarrow> e = None"
    by (auto simp: removal_def)
  have w2': "w2 = w\<lparr>root := put Q (Some (Dir d es')) (root w), tick := t'\<rparr>"
    by (simp add: w2 w1 put_put [OF Q])
  have q: "quiet w1 = quiet w" by (simp add: w1 quiet_def)
  have m: "map_of (filter (\<lambda>x. \<not> g1 (fst x)) es) c = (if g1 c then None else map_of es c)" for c
    using map_of_filter_fst [of "\<lambda>c. \<not> g1 c" es c] by simp
  show ?thesis
    by (rule removal_change [OF w2']) (use k s l q in \<open>auto simp: m conj_commute\<close>)
qed

lemma removal_weaken:
  assumes "removal Q d es g w e w'" and "\<And>c. c \<in> fst ` set es \<Longrightarrow> g c = g' c" and "\<And>c. g c \<Longrightarrow> g' c"
  shows "removal Q d es g' w e w'"
proof -
  have f: "filter (\<lambda>x. \<not> g (fst x)) es = filter (\<lambda>x. \<not> g' (fst x)) es"
    using assms(2) by (intro filter_cong) auto
  have q: "\<forall>c n. g c \<longrightarrow> map_of es c = Some n \<longrightarrow> one_dev d n"
    if "\<forall>c n. g' c \<longrightarrow> map_of es c = Some n \<longrightarrow> one_dev d n"
    using that assms(3) by blast
  show ?thesis
    using assms(1,3) f q unfolding removal_def by metis
qed

lemma wp_removeEntries:
  assumes "lookup (root w) Q = Some (Dir d es)" and "list_all proper Q" and "list_all proper ns"
  shows "wp (removeEntries (mk_path Q) K ns) (removal Q d es (\<lambda>c. c \<in> set ns \<and> c \<notin> set K) w) w"
  using assms
proof (induction ns arbitrary: w es)
  case Nil
  then show ?case by (auto simp: wp_simps intro!: removal_same)
next
  case (Cons c ns)
  show ?case
  proof (cases "c \<in> set K")
    case True
    from Cons.prems have "list_all proper ns" by simp
    with Cons.IH [OF Cons.prems(1,2)]
    have "wp (removeEntries (mk_path Q) K ns) (removal Q d es (\<lambda>c. c \<in> set ns \<and> c \<notin> set K) w) w" .
    moreover have "(\<lambda>x. x \<in> set ns \<and> x \<notin> set K) = (\<lambda>x. x \<in> set (c # ns) \<and> x \<notin> set K)"
      using True by auto
    ultimately show ?thesis using True by simp
  next
    case False
    have j: "joinPath [mk_path Q, c] = mk_path (Q @ [c])"
      using Cons.prems by (simp add: joinPath_name)
    have pc: "list_all proper (Q @ [c])" using Cons.prems by simp
    let ?goal = "removal Q d es (\<lambda>x. x \<in> set (c # ns) \<and> x \<notin> set K) w"
    have step: "wp (case e of Some err \<Rightarrow> return (Some (g err)) | None \<Rightarrow> removeEntries (mk_path Q) K ns)
        ?goal w'"
      if r: "removal Q d es (\<lambda>x. x = c) w e w'" for e w' and g :: "gerror \<Rightarrow> gerror"
    proof (cases e)
      case (Some err)
      from r have "removal Q d es (\<lambda>x. x = c) w (Some (g err)) w'"
        by (simp add: removal_def Some)
      then have "?goal (Some (g err)) w'" using False by (auto simp: removal_def)
      then show ?thesis by (simp add: Some wp_simps)
    next
      case None
      let ?es = "filter (\<lambda>x. fst x \<noteq> c) es"
      from r None Cons.prems(1) have l: "lookup (root w') Q = Some (Dir d ?es)"
        by (elim removal_root) auto
      have eq: "(\<lambda>x. x = c \<or> (x \<in> set ns \<and> x \<notin> set K)) = (\<lambda>x. x \<in> set (c # ns) \<and> x \<notin> set K)"
        using False by auto
      have fin: "?goal e2 w2" if "removal Q d ?es (\<lambda>x. x \<in> set ns \<and> x \<notin> set K) w' e2 w2" for e2 w2
        using removal_seq [OF r [unfolded None] that Cons.prems(1)] unfolding eq .
      from Cons.prems have ns: "list_all proper ns" by simp
      show ?thesis
        unfolding None option.case by (rule wp_mono [OF Cons.IH [OF l Cons.prems(2) ns] fin])
    qed
    show ?thesis
      using False wp_mono [OF wp_RemoveAll [OF Cons.prems(1) pc] step]
      by (simp add: wp_bind j)
  qed
qed

lemma wp_perform_same: "wp (perform op p Inr) (\<lambda>e w'. ticked w w' \<and> (quiet w \<longrightarrow> e = None)) w"
  by (auto simp: perform_def wp_simps quiet_def)

lemma wp_syncDir:
  assumes "is_dir (lookup (root w) Q)" and "list_all proper Q"
  shows "wp (syncDir (mk_path Q)) (\<lambda>e w'. ticked w w' \<and> (quiet w \<longrightarrow> e = None)) w"
proof -
  have "wp (os_Open (mk_path Q)) (\<lambda>x w'. ticked w w' \<and> (quiet w \<longrightarrow> (\<exists>f. x = Inr f))) w"
    using assms by (auto simp: os_Open_def query_def wp_simps quiet_def resolve_dir is_dir_iff)
  then show ?thesis
    unfolding syncDir_def wp_bind
  proof (rule wp_mono, goal_cases)
    case (1 x w1)
    show ?case
    proof (cases x)
      case (Inl e)
      with 1 show ?thesis by (auto simp: wp_simps)
    next
      case (Inr f)
      have "wp (file_Sync f) (\<lambda>e w2. wp (file_Close f) (\<lambda>_ w3. ticked w w3 \<and> (quiet w \<longrightarrow> e = None)) w2) w1"
        unfolding file_Sync_def file_Close_def
        by (rule wp_mono [OF wp_perform_same], rule wp_mono [OF wp_perform_same])
          (use 1 in \<open>auto dest: tickedD(4) intro: ticked_trans [OF ticked_trans]\<close>)
      then show ?thesis by (simp add: Inr wp_simps)
    qed
  qed
qed

lemma removal_ticked:
  assumes "removal Q d es g w e w'" and "ticked w0 w"
  shows "removal Q d es g w0 e w'"
proof -
  from assms(2) obtain t where "w = w0\<lparr>tick := t\<rparr>" by (auto simp: ticked_def)
  with assms(1) show ?thesis by (simp add: removal_def)
qed

lemma removal_then_ticked:
  assumes r: "removal Q d es g w None w'" and t: "ticked w' w''" and q: "quiet w \<longrightarrow> e = None"
  shows "removal Q d es g w e w''"
proof -
  from r obtain t1 where
      "w' = w\<lparr>root := put Q (Some (Dir d (filter (\<lambda>x. \<not> g (fst x)) es))) (root w), tick := t1\<rparr>"
      and k: "\<And>c. \<not> g c \<Longrightarrow> map_of (filter (\<lambda>x. \<not> g (fst x)) es) c = map_of es c"
    by (auto simp: removal_def)
  with t obtain t2 where
      "w'' = w\<lparr>root := put Q (Some (Dir d (filter (\<lambda>x. \<not> g (fst x)) es))) (root w), tick := t2\<rparr>"
    by (auto simp: ticked_def)
  then show ?thesis by (rule removal_change) (use k q in auto)
qed

text \<open>\<open>removeChildrenExcept\<close> on a real directory: the kept entries stay as they are.\<close>

lemma wp_removeChildrenExcept:
  assumes Q: "lookup (root w) Q = Some (Dir d es)" and p: "list_all proper Q"
    and n: "list_all proper (map fst es)"
  shows "wp (removeChildrenExcept (mk_path Q) K) (removal Q d es (\<lambda>c. c \<notin> set K) w) w"
proof -
  define ns where "ns = sort (remdups (map fst es))"
  have y: "yields (root w) (os_ReadDir (mk_path Q) :: ('a, gerror + string list) io) (Some ns)"
    unfolding os_ReadDir_def
    by (rule yields_cong [OF yields_query]) (simp add: names_at_dir [OF Q p] ns_def)
  have pn: "list_all proper ns" using n by (auto simp: ns_def list_all_iff)
  show ?thesis
    unfolding removeChildrenExcept_def wp_bind
  proof (rule wp_mono [OF yields_wp [OF y refl]], goal_cases)
    case (1 x w1)
    then have t: "ticked w w1" by simp
    show ?case
    proof (cases x)
      case (Inl err)
      with 1 show ?thesis by (auto simp: wp_simps intro!: removal_same [OF Q])
    next
      case (Inr xs)
      with 1 have xs: "xs = ns" by simp
      have Q1: "lookup (root w1) Q = Some (Dir d es)" using Q t by (simp add: tickedD)
      have "removal Q d es (\<lambda>c. c \<notin> set K) w e w2"
        if "removal Q d es (\<lambda>c. c \<in> set ns \<and> c \<notin> set K) w1 e w2" for e w2
        using removal_ticked [OF that t] by (rule removal_weaken) (auto simp: ns_def)
      note conv = this
      have fin: "wp (case e of Some err \<Rightarrow> return (Some err) | None \<Rightarrow> syncDir (mk_path Q))
           (removal Q d es (\<lambda>c. c \<notin> set K) w) w2"
        if r: "removal Q d es (\<lambda>c. c \<in> set ns \<and> c \<notin> set K) w1 e w2" for e w2
      proof (cases e)
        case (Some err)
        with conv [OF r] show ?thesis by (simp add: wp_simps)
      next
        case None
        from conv [OF r] None have r': "removal Q d es (\<lambda>c. c \<notin> set K) w None w2" by simp
        then have "is_dir (lookup (root w2) Q)" using Q by (elim removal_root) (auto simp: is_dir_def)
        moreover have "quiet w2 = quiet w" using r' by (auto simp: removal_def quiet_def)
        ultimately show ?thesis
          unfolding None option.case
          by (intro wp_mono [OF wp_syncDir [OF _ p]]) (auto intro: removal_then_ticked [OF r'])
      qed
      show ?thesis
        unfolding Inr sum.case xs wp_bind
        by (rule wp_mono [OF wp_removeEntries [OF Q1 p pn] fin])
    qed
  qed
qed

section \<open>The wipe as a function on the volume\<close>

text \<open>
  What the two passes are meant to compute on the node \<open>n\<close> of the data directory: keep the
  listed entries of a directory, make a missing directory.
\<close>

definition keep_in :: "string list \<Rightarrow> string list \<Rightarrow> inode \<Rightarrow> inode" where
  "keep_in q K n =
     (case lookup n q of
        Some (Dir d es) \<Rightarrow> put q (Some (Dir d (filter (\<lambda>x. fst x \<in> set K) es))) n
      | _ \<Rightarrow> n)"

definition ensure_dir :: "string list \<Rightarrow> inode \<Rightarrow> inode" where
  "ensure_dir q n =
     (case lookup n (butlast q) of
        Some (Dir d es) \<Rightarrow> if lookup n q = None then put q (Some (Dir d [])) n else n
      | _ \<Rightarrow> n)"

definition prepared :: "inode \<Rightarrow> inode" where
  "prepared n =
     keep_in [''lib''] [''sinty'']
       (ensure_dir [''lib'', ''sinty'']
         (ensure_dir [''lib'']
           (keep_in [] [''boot'', dataMarker, installIDMarker, ''lib'']
             (keep_in [''boot'', ''rootfs''] rootfsKeep
               (keep_in [''boot''] bootKeep n)))))"

definition finished :: "inode \<Rightarrow> inode" where
  "finished n = keep_in [] [''boot'', dataMarker, installIDMarker] n"

text \<open>The shape of a volume that passed validation.\<close>

definition volume_node :: "inode \<Rightarrow> bool" where
  "volume_node n \<longleftrightarrow>
     wf_tree n \<and> is_dir (Some n)
     \<and> is_dir (lookup n [''boot'']) \<and> is_dir (lookup n [''boot'', ''rootfs''])
     \<and> (lookup n [''lib''] = None \<or> is_dir (lookup n [''lib'']))
     \<and> (lookup n [''lib'', ''sinty''] = None \<or> is_dir (lookup n [''lib'', ''sinty'']))"

text \<open>
  What no run of the first pass may damage, wherever it stops: the markers, the mounted system
  partition, the root file system slots, and the key-custody directory.
\<close>

definition kept_paths :: "string list list" where
  "kept_paths =
     [[dataMarker], [installIDMarker], [''boot'', ''efi'']]
       @ map (\<lambda>a. [''boot'', ''rootfs'', a]) rootfsKeep"

definition boot_safe :: "inode \<Rightarrow> inode \<Rightarrow> bool" where
  "boot_safe n n' \<longleftrightarrow>
     list_all (\<lambda>q. lookup n' q = lookup n q) kept_paths
     \<and> is_dir (lookup n' [''boot'']) = is_dir (lookup n [''boot''])
     \<and> is_dir (lookup n' [''boot'', ''rootfs'']) = is_dir (lookup n [''boot'', ''rootfs''])
     \<and> dev_of n' = dev_of n \<and> is_dir (Some n') = is_dir (Some n)"

definition custody_safe :: "inode \<Rightarrow> inode \<Rightarrow> bool" where
  "custody_safe n n' \<longleftrightarrow>
     (lookup n [''lib'', ''sinty''] \<noteq> None \<longrightarrow>
        lookup n' [''lib'', ''sinty''] = lookup n [''lib'', ''sinty''])
     \<and> (lookup n' [''lib'', ''sinty''] = None \<or> lookup n [''lib'', ''sinty''] \<noteq> None \<or>
          is_dir (lookup n' [''lib'', ''sinty'']))
     \<and> (lookup n [''lib''] = None \<or> is_dir (lookup n [''lib'']) \<longrightarrow>
          lookup n' [''lib''] = None \<or> is_dir (lookup n' [''lib'']))"

lemma boot_safe_refl [simp]: "boot_safe n n"
  by (simp add: boot_safe_def list_all_iff)

lemma boot_safe_trans: "boot_safe n n1 \<Longrightarrow> boot_safe n1 n2 \<Longrightarrow> boot_safe n n2"
  by (simp add: boot_safe_def list_all_iff)

lemma custody_safe_refl [simp]: "custody_safe n n"
  by (auto simp: custody_safe_def)

lemma custody_safe_trans: "custody_safe n n1 \<Longrightarrow> custody_safe n1 n2 \<Longrightarrow> custody_safe n n2"
  unfolding custody_safe_def by (elim conjE) (intro conjI; metis)

subsection \<open>Programs that work on the volume\<close>

text \<open>
  \<open>refines D P m f R\<close>: on a volume with \<open>P\<close>, the program \<open>m\<close> changes nothing outside the data
  directory \<open>D\<close>; whatever it leaves of the volume is related to it by \<open>R\<close>; and when it reports
  success it has computed the function \<open>f\<close>.
\<close>

definition at_volume :: "string list \<Rightarrow> inode \<Rightarrow> 'x world \<Rightarrow> 'x world \<Rightarrow> bool" where
  "at_volume D n w w' \<longleftrightarrow> (\<exists>t. w' = w\<lparr>root := put D (Some n) (root w), tick := t\<rparr>)"

definition refines ::
    "string list \<Rightarrow> (inode \<Rightarrow> bool) \<Rightarrow> ('x, gerror option) io \<Rightarrow> (inode \<Rightarrow> inode) \<Rightarrow>
     (inode \<Rightarrow> inode \<Rightarrow> bool) \<Rightarrow> bool" where
  "refines D P m f R \<longleftrightarrow>
     (\<forall>w n. lookup (root w) D = Some n \<longrightarrow> P n \<longrightarrow>
        wp m (\<lambda>e w'. \<exists>n'. at_volume D n' w w' \<and> R n n' \<and> (e = None \<longrightarrow> n' = f n)) w)"

lemma at_volume_ticked: "lookup (root w) D = Some n \<Longrightarrow> ticked w w' \<Longrightarrow> at_volume D n w w'"
  by (auto simp: at_volume_def ticked_def put_id)

lemma at_volume_lookup:
  "lookup (root w) D = Some n \<Longrightarrow> at_volume D n' w w' \<Longrightarrow> lookup (root w') (D @ q) = lookup n' q"
  by (auto simp: at_volume_def lookup_put_under)

lemma at_volume_trans:
  "lookup (root w) D = Some n \<Longrightarrow> at_volume D n1 w w1 \<Longrightarrow> at_volume D n2 w1 w2 \<Longrightarrow> at_volume D n2 w w2"
  by (auto simp: at_volume_def put_put)

lemma put_append_Some:
  "lookup r p = Some n \<Longrightarrow> put (p @ q) (Some m) r = put p (Some (put q (Some m) n)) r"
  by (cases "q = []") (simp_all add: put_append)

lemma refines_wp:
  assumes "refines D P m f R" and "lookup (root w) D = Some n" and "P n"
  shows "wp m (\<lambda>e w'. \<exists>n'. at_volume D n' w w' \<and> R n n' \<and> (e = None \<longrightarrow> n' = f n)) w"
  using assms by (simp add: refines_def)

lemma refines_seq:
  assumes m: "refines D P m f R" and m': "refines D P' m' f' R"
    and P: "\<And>n. P n \<Longrightarrow> P' (f n)" and R: "\<And>a b c. R a b \<Longrightarrow> R b c \<Longrightarrow> R a c"
  shows "refines D P (do { e \<leftarrow> m; case e of Some err \<Rightarrow> return (Some (g err)) | None \<Rightarrow> m' })
           (\<lambda>n. f' (f n)) R"
  unfolding refines_def wp_bind
proof (intro allI impI)
  fix w :: "'a world" and n
  assume D: "lookup (root w) D = Some n" and Pn: "P n"
  show "wp m (\<lambda>e. wp (case e of None \<Rightarrow> m' | Some err \<Rightarrow> return (Some (g err)))
       (\<lambda>e w'. \<exists>n'. at_volume D n' w w' \<and> R n n' \<and> (e = None \<longrightarrow> n' = f' (f n)))) w"
  proof (rule wp_mono [OF refines_wp [OF m D Pn]], elim exE conjE)
    fix e :: "gerror option" and w1 n1
    assume 1: "at_volume D n1 w w1" "R n n1" "e = None \<longrightarrow> n1 = f n"
    show "wp (case e of None \<Rightarrow> m' | Some err \<Rightarrow> return (Some (g err)))
       (\<lambda>e w'. \<exists>n'. at_volume D n' w w' \<and> R n n' \<and> (e = None \<longrightarrow> n' = f' (f n))) w1"
    proof (cases e)
      case (Some err)
      with 1 show ?thesis by (auto simp: wp_simps)
    next
      case None
      with 1 have n1: "n1 = f n" by simp
      have D1: "lookup (root w1) D = Some n1" using at_volume_lookup [OF D 1(1), of "[]"] by simp
      show ?thesis
        unfolding None option.case
        by (rule wp_mono [OF refines_wp [OF m' D1]])
          (use P [OF Pn] n1 1 D in \<open>auto intro: R at_volume_trans\<close>)
    qed
  qed
qed

lemma refines_cong: "refines D P m f R \<Longrightarrow> (\<And>n. P n \<Longrightarrow> f n = g n) \<Longrightarrow> refines D P m g R"
  unfolding refines_def by auto

lemma refines_wrap:
  assumes "refines D P m f R"
  shows "refines D P (do { e \<leftarrow> m; case e of Some err \<Rightarrow> return (Some (g err)) | None \<Rightarrow> return None }) f R"
  unfolding refines_def wp_bind
  by (intro allI impI, rule wp_mono [OF refines_wp [OF assms]])
    (auto simp: wp_simps split: option.splits)

lemma map_of_keep [simp]:
  "map_of (filter (\<lambda>x. fst x \<in> S) es) c = (if c \<in> S then map_of es c else None)"
  using map_of_filter_fst [of "\<lambda>c. c \<in> S" es c] by simp

lemma refines_remove:
  assumes p: "list_all proper (D @ q)"
    and R: "\<And>n d es es'. lookup n q = Some (Dir d es) \<Longrightarrow>
              (\<And>c. c \<in> set K \<Longrightarrow> map_of es' c = map_of es c) \<Longrightarrow> R n (put q (Some (Dir d es')) n)"
  shows "refines D (\<lambda>n. wf_tree n \<and> is_dir (lookup n q))
           (removeChildrenExcept (mk_path (D @ q)) K) (keep_in q K) R"
  unfolding refines_def
proof (intro allI impI, elim conjE)
  fix w :: "'a world" and n
  assume D: "lookup (root w) D = Some n" and wf: "wf_tree n" and q: "is_dir (lookup n q)"
  from q obtain d es where l: "lookup n q = Some (Dir d es)" by (rule is_dirE)
  have Q: "lookup (root w) (D @ q) = Some (Dir d es)" by (simp add: lookup_append D l)
  have n: "list_all proper (map fst es)" using wf_tree_lookup [OF wf l] by (rule wf_tree_names)
  show "wp (removeChildrenExcept (mk_path (D @ q)) K)
      (\<lambda>e w'. \<exists>n'. at_volume D n' w w' \<and> R n n' \<and> (e = None \<longrightarrow> n' = keep_in q K n)) w"
  proof (rule wp_mono [OF wp_removeChildrenExcept [OF Q p n]])
    fix e w'
    assume "removal (D @ q) d es (\<lambda>c. c \<notin> set K) w e w'"
    then obtain es' t where w': "w' = w\<lparr>root := put (D @ q) (Some (Dir d es')) (root w), tick := t\<rparr>"
        and k: "\<And>c. c \<in> set K \<Longrightarrow> map_of es' c = map_of es c"
        and f: "e = None \<Longrightarrow> es' = filter (\<lambda>x. fst x \<in> set K) es"
      unfolding removal_def by auto
    have "at_volume D (put q (Some (Dir d es')) n) w w'"
      by (auto simp: at_volume_def w' put_append_Some [OF D])
    moreover have "e = None \<Longrightarrow> put q (Some (Dir d es')) n = keep_in q K n"
      using f by (simp add: keep_in_def l)
    ultimately show "\<exists>n'. at_volume D n' w w' \<and> R n n' \<and> (e = None \<longrightarrow> n' = keep_in q K n)"
      using R [OF l k] by blast
  qed
qed

lemma list_all_update: "list_all P es \<Longrightarrow> P (c, m) \<Longrightarrow> list_all P (AList.update c m es)"
  by (induction es) auto

lemma wf_tree_update:
  "wf_tree (Dir d es) \<Longrightarrow> proper c \<Longrightarrow> wf_tree m \<Longrightarrow> wf_tree (Dir d (AList.update c m es))"
  by (simp add: distinct_update list_all_update)

lemma wf_tree_put:
  "wf_tree n \<Longrightarrow> wf_tree m \<Longrightarrow> list_all proper q \<Longrightarrow> wf_tree (put q (Some m) n)"
proof (induction q arbitrary: n)
  case (Cons c q)
  show ?case
  proof (cases n)
    case (Dir d es)
    have "wf_tree (put q (Some m) k)" if "map_of es c = Some k" for k
      using Cons that Dir map_of_SomeD [OF that] by (auto simp: list_all_iff)
    with Cons.prems Dir show ?thesis
      by (auto simp: put_Cons wf_tree_update simp del: wf_tree.simps split: option.split)
  qed (use Cons in simp_all)
qed simp

lemma wf_tree_filter: "wf_tree (Dir d es) \<Longrightarrow> wf_tree (Dir d (filter P es))"
  by (auto simp: distinct_map_filter list_all_iff)

lemma wf_tree_keep_in: "wf_tree n \<Longrightarrow> list_all proper q \<Longrightarrow> wf_tree (keep_in q K n)"
  by (auto simp: keep_in_def simp del: put.simps wf_tree.simps split: option.split inode.split
      dest: wf_tree_lookup intro!: wf_tree_put wf_tree_filter)

lemma wf_tree_ensure_dir: "wf_tree n \<Longrightarrow> list_all proper q \<Longrightarrow> wf_tree (ensure_dir q n)"
  by (auto simp: ensure_dir_def simp del: put.simps split: option.split inode.split intro!: wf_tree_put)

subsection \<open>The steps of the first pass\<close>

definition wipe_safe :: "inode \<Rightarrow> inode \<Rightarrow> bool" where
  "wipe_safe n n' \<longleftrightarrow> boot_safe n n' \<and> custody_safe n n'"

lemma wipe_safe_trans: "wipe_safe a b \<Longrightarrow> wipe_safe b c \<Longrightarrow> wipe_safe a c"
  unfolding wipe_safe_def by (blast intro: boot_safe_trans custody_safe_trans)

lemmas wipe_names = dataMarker_def installIDMarker_def bootKeep_def rootfsKeep_def
lemmas wipe_defs = boot_safe_def custody_safe_def kept_paths_def wipe_names

text \<open>A directory whose kept entries are the same finds the same things below them.\<close>

lemma lookup_entry: "map_of es' c = map_of es c \<Longrightarrow> lookup (Dir d' es') (c # q) = lookup (Dir d es) (c # q)"
  by simp

lemma wipe_safeI:
  assumes "\<And>q. q \<in> set kept_paths \<Longrightarrow> lookup n' q = lookup n q"
    and "is_dir (lookup n' [''boot'']) = is_dir (lookup n [''boot''])"
    and "is_dir (lookup n' [''boot'', ''rootfs'']) = is_dir (lookup n [''boot'', ''rootfs''])"
    and "dev_of n' = dev_of n" and "is_dir (Some n') = is_dir (Some n)"
    and "custody_safe n n'"
  shows "wipe_safe n n'"
  using assms by (simp add: wipe_safe_def boot_safe_def list_all_iff)

lemma put_node: "lookup n q = Some (Dir d es) \<Longrightarrow>
    dev_of (put q (Some (Dir d es')) n) = dev_of n
    \<and> is_dir (Some (put q (Some (Dir d es')) n)) = is_dir (Some n)"
  by (cases q; cases n) (auto simp: put_Cons is_dir_def split: option.split)

text \<open>Changing the directory at \<open>q\<close> keeps what lies elsewhere, and its entries that stay the same.\<close>

lemma lookup_put_entry:
  assumes "lookup n q = Some (Dir d es)" and "map_of es' c = map_of es c"
  shows "lookup (put q (Some (Dir d es')) n) (q @ c # p) = lookup n (q @ c # p)"
proof -
  have "lookup (put q (Some (Dir d es')) n) (q @ c # p) = lookup (Dir d es') (c # p)"
    by (rule lookup_put_under [OF assms(1)])
  also have "\<dots> = lookup (Dir d es) (c # p)" using assms(2) by simp
  also have "\<dots> = lookup n (q @ c # p)" using assms(1) by (simp add: lookup_append)
  finally show ?thesis .
qed

lemma custody_same:
  assumes "lookup n' [''lib'', ''sinty''] = lookup n [''lib'', ''sinty'']"
    and "lookup n' [''lib''] = lookup n [''lib''] \<or> is_dir (lookup n' [''lib''])"
  shows "custody_safe n n'"
  using assms by (auto simp: custody_safe_def)

lemma wipe_safe_boot:
  assumes l: "lookup n [''boot''] = Some (Dir d es)"
    and k: "\<And>c. c \<in> set bootKeep \<Longrightarrow> map_of es' c = map_of es c"
  shows "wipe_safe n (put [''boot''] (Some (Dir d es')) n)" (is "wipe_safe n ?n")
proof (rule wipe_safeI)
  have e: "lookup ?n (''boot'' # c # p) = lookup n (''boot'' # c # p)" if "c \<in> set bootKeep" for c p
    using lookup_put_entry [OF l k [OF that], of p] by simp
  have o: "lookup ?n (c # p) = lookup n (c # p)" if "c \<noteq> ''boot''" for c p
    using that by (intro lookup_put_fork) auto
  show "lookup ?n q = lookup n q" if "q \<in> set kept_paths" for q
    using that e o by (auto simp: kept_paths_def wipe_names)
  show "is_dir (lookup ?n [''boot'']) = is_dir (lookup n [''boot''])"
    using lookup_put_same [OF l] l by (simp add: is_dir_def)
  show "is_dir (lookup ?n [''boot'', ''rootfs'']) = is_dir (lookup n [''boot'', ''rootfs''])"
    using e [of "''rootfs''"] by (simp add: bootKeep_def)
  show "custody_safe n ?n" using o by (intro custody_same) auto
qed (use put_node [OF l] in auto)

lemma wipe_safe_rootfs:
  assumes l: "lookup n [''boot'', ''rootfs''] = Some (Dir d es)"
    and k: "\<And>c. c \<in> set rootfsKeep \<Longrightarrow> map_of es' c = map_of es c"
  shows "wipe_safe n (put [''boot'', ''rootfs''] (Some (Dir d es')) n)" (is "wipe_safe n ?n")
proof (rule wipe_safeI)
  have e: "lookup ?n (''boot'' # ''rootfs'' # c # p) = lookup n (''boot'' # ''rootfs'' # c # p)"
    if "c \<in> set rootfsKeep" for c p
    using lookup_put_entry [OF l k [OF that], of p] by simp
  have o: "lookup ?n (c # p) = lookup n (c # p)" if "c \<noteq> ''boot''" for c p
    using that by (intro lookup_put_fork) auto
  have o2: "lookup ?n (''boot'' # c # p) = lookup n (''boot'' # c # p)" if "c \<noteq> ''rootfs''" for c p
    using that by (intro lookup_put_fork) auto
  show "lookup ?n q = lookup n q" if "q \<in> set kept_paths" for q
    using that e o o2 by (auto simp: kept_paths_def dataMarker_def installIDMarker_def)
  show "is_dir (lookup ?n [''boot'', ''rootfs'']) = is_dir (lookup n [''boot'', ''rootfs''])"
    using lookup_put_same [OF l] l by (simp add: is_dir_def)
  have "map_option shallow (lookup ?n [''boot'']) = map_option shallow (lookup n [''boot''])"
    by (rule lookup_put_outside [OF l]) simp
  then show "is_dir (lookup ?n [''boot'']) = is_dir (lookup n [''boot''])" by (rule is_dir_shallow)
  show "custody_safe n ?n" using o by (intro custody_same) auto
qed (use put_node [OF l] in auto)

lemma wipe_safe_top:
  assumes l: "lookup n [] = Some (Dir d es)"
    and k: "\<And>c. c \<in> set [''boot'', dataMarker, installIDMarker, ''lib''] \<Longrightarrow> map_of es' c = map_of es c"
  shows "wipe_safe n (put [] (Some (Dir d es')) n)" (is "wipe_safe n ?n")
proof (rule wipe_safeI)
  have e: "lookup ?n (c # p) = lookup n (c # p)"
    if "c \<in> set [''boot'', dataMarker, installIDMarker, ''lib'']" for c p
    using lookup_put_entry [OF l k [OF that], of p] by simp
  show "lookup ?n q = lookup n q" if "q \<in> set kept_paths" for q
    using that e by (auto simp: kept_paths_def)
  show "custody_safe n ?n" using e by (intro custody_same) auto
  show "is_dir (lookup ?n [''boot'']) = is_dir (lookup n [''boot''])"
    "is_dir (lookup ?n [''boot'', ''rootfs'']) = is_dir (lookup n [''boot'', ''rootfs''])"
    using e by auto
qed (use put_node [OF l] in auto)

lemma wipe_safe_lib:
  assumes l: "lookup n [''lib''] = Some (Dir d es)"
    and k: "\<And>c. c \<in> set [''sinty''] \<Longrightarrow> map_of es' c = map_of es c"
  shows "wipe_safe n (put [''lib''] (Some (Dir d es')) n)" (is "wipe_safe n ?n")
proof (rule wipe_safeI)
  have e: "lookup ?n [''lib'', ''sinty''] = lookup n [''lib'', ''sinty'']"
    using lookup_put_entry [OF l k, of "''sinty''" "[]"] by simp
  have o: "lookup ?n (c # p) = lookup n (c # p)" if "c \<noteq> ''lib''" for c p
    using that by (intro lookup_put_fork) auto
  show "lookup ?n q = lookup n q" if "q \<in> set kept_paths" for q
    using that o by (auto simp: kept_paths_def dataMarker_def installIDMarker_def)
  show "custody_safe n ?n"
    using e lookup_put_same [OF l] by (intro custody_same) (auto simp: is_dir_def)
  show "is_dir (lookup ?n [''boot'']) = is_dir (lookup n [''boot''])"
    "is_dir (lookup ?n [''boot'', ''rootfs'']) = is_dir (lookup n [''boot'', ''rootfs''])"
    using o by auto
qed (use put_node [OF l] in auto)

lemma wipe_safe_refl [simp]: "wipe_safe n n"
  by (simp add: wipe_safe_def)

text \<open>Making the custody directory.\<close>

lemma lookup_put_new:
  "lookup r p = Some (Dir d es) \<Longrightarrow> lookup (put (p @ [c]) (Some m) r) (p @ [c]) = Some m"
  by (simp add: put_append_Some lookup_put_under [where q = "[c]"] update_conv')

lemma wipe_safe_new_lib:
  assumes l: "lookup n [''lib''] = None" and n: "is_dir (Some n)"
  shows "wipe_safe n (put [''lib''] (Some (Dir d [])) n)" (is "wipe_safe n ?n")
proof (rule wipe_safeI)
  from n obtain d' es where n': "n = Dir d' es" by (cases n) (auto simp: is_dir_def)
  have o: "lookup ?n (c # p) = lookup n (c # p)" if "c \<noteq> ''lib''" for c p
    using that by (intro lookup_put_fork) auto
  have s: "lookup n [''lib'', ''sinty''] = None"
    using l by (simp add: n' split: option.splits)
  have s': "lookup ?n [''lib'', ''sinty''] = None" and l': "lookup ?n [''lib''] = Some (Dir d [])"
    by (simp_all add: n' update_conv')
  show "lookup ?n q = lookup n q" if "q \<in> set kept_paths" for q
    using that o by (auto simp: kept_paths_def wipe_names)
  show "is_dir (lookup ?n [''boot'']) = is_dir (lookup n [''boot''])"
    "is_dir (lookup ?n [''boot'', ''rootfs'']) = is_dir (lookup n [''boot'', ''rootfs''])"
    using o by auto
  show "custody_safe n ?n" using s s' l' by (simp add: custody_safe_def is_dir_def)
  show "dev_of ?n = dev_of n" "is_dir (Some ?n) = is_dir (Some n)" by (simp_all add: n' is_dir_def)
qed

lemma wipe_safe_new_sinty:
  assumes l: "lookup n [''lib''] = Some (Dir d' es)" and s: "lookup n [''lib'', ''sinty''] = None"
  shows "wipe_safe n (put [''lib'', ''sinty''] (Some (Dir d [])) n)" (is "wipe_safe n ?n")
proof -
  have p: "?n = put [''lib''] (Some (Dir d' (AList.update ''sinty'' (Dir d []) es))) n"
    using put_append_Some [OF l, of "[''sinty'']"] by simp
  have o: "lookup ?n (c # p) = lookup n (c # p)" if "c \<noteq> ''lib''" for c p
    using that by (intro lookup_put_fork) auto
  have s': "lookup ?n [''lib'', ''sinty''] = Some (Dir d [])"
    using lookup_put_new [OF l, of "''sinty''"] by simp
  have l': "is_dir (lookup ?n [''lib''])"
    unfolding p using lookup_put_same [OF l] by (simp add: is_dir_def)
  have c: "custody_safe n ?n"
    using s s' l' by (simp add: custody_safe_def) (simp add: is_dir_def)
  show ?thesis
  proof (rule wipe_safeI [OF _ _ _ _ _ c])
    show "lookup ?n q = lookup n q" if "q \<in> set kept_paths" for q
      using that o by (auto simp: kept_paths_def wipe_names)
    show "is_dir (lookup ?n [''boot'']) = is_dir (lookup n [''boot''])"
      "is_dir (lookup ?n [''boot'', ''rootfs'']) = is_dir (lookup n [''boot'', ''rootfs''])"
      using o by auto
  qed (use put_node [OF l] in \<open>auto simp: p\<close>)
qed


lemma mkdirAll_mk_path: "list_all proper Q \<Longrightarrow> os_MkdirAll (mk_path Q) = mkdirAll_comps True (rev Q)"
  by (simp add: os_MkdirAll_def split_path_mk_path)

lemma mkdirAll_snoc:
  "mkdirAll_comps True (rev (Q @ [c])) = do {
     st \<leftarrow> os_Stat (mk_path (Q @ [c]));
     case st of
       Inl _ \<Rightarrow> do {
         e \<leftarrow> mkdirAll_comps True (rev Q);
         case e of Some err \<Rightarrow> return (Some err) | None \<Rightarrow> mkdir_or_dir (mk_path (Q @ [c]))
       }
     | Inr i \<Rightarrow> return (if isDir i then None else Some (PathError ''mkdir'' (mk_path (Q @ [c])) ENOTDIR))
   }"
  by (simp add: Let_def)

text \<open>Two missing directories, one below the other: a fault may leave the outer one.\<close>

lemma wp_mkdirAll_two:
  assumes Q: "lookup (root w) Q = Some (Dir d es)" and n: "lookup (root w) (Q @ [a]) = None"
    and p: "list_all proper (Q @ [a, b])"
  shows "wp (mkdirAll_comps True (rev (Q @ [a, b]))) (\<lambda>e w'.
     if e = None then \<exists>t. w' = w\<lparr>root := put (Q @ [a]) (Some (Dir d [(b, Dir d [])])) (root w), tick := t\<rparr>
     else ticked w w' \<or> (\<exists>t. w' = w\<lparr>root := put (Q @ [a]) (Some (Dir d [])) (root w), tick := t\<rparr>)) w"
    (is "wp _ ?P w")
proof -
  have dQ: "is_dir (lookup (root w) Q)" using Q by (simp add: is_dir_def)
  have pa: "list_all proper (Q @ [a])" and pab: "list_all proper ((Q @ [a]) @ [b])" using p by simp_all
  have st: "wp (os_Stat (mk_path (Q @ [a, b]))) (\<lambda>x w1. ticked w w1 \<and> (\<exists>e. x = Inl e)) w"
    unfolding os_Stat_def by (rule wp_queryI) (use stat_at_missing [OF dQ p n] in auto)
  have mk: "wp (mkdir_or_dir (mk_path ((Q @ [a]) @ [b]))) ?P w2"
    if w2: "w2 = w\<lparr>root := put (Q @ [a]) (Some (Dir d [])) (root w), tick := t\<rparr>" for w2 t
  proof -
    let ?r = "put (Q @ [a]) (Some (Dir d [])) (root w)"
    have l: "lookup (root w2) (Q @ [a]) = Some (Dir d [])"
      using lookup_put_new [OF Q] by (simp add: w2)
    have nb: "lookup (root w2) ((Q @ [a]) @ [b]) = None"
      by (rule trans [OF lookup_snoc [OF l]]) simp
    have e: "put ((Q @ [a]) @ [b]) (Some (Dir d [])) ?r = put (Q @ [a]) (Some (Dir d [(b, Dir d [])])) (root w)"
    proof -
      have "put ((Q @ [a]) @ [b]) (Some (Dir d [])) ?r = put (Q @ [a]) (Some (Dir d [(b, Dir d [])])) ?r"
        using put_append_Some [of ?r "Q @ [a]" "Dir d []" "[b]"] l by (simp add: w2)
      also have "\<dots> = put (Q @ [a]) (Some (Dir d [(b, Dir d [])])) (root w)"
        unfolding put_append_Some [OF Q] put_append_Some [OF lookup_put_same [OF Q]] put_put [OF Q]
        by (simp add: update_Some_unfold)
      finally show ?thesis .
    qed
    from wp_mkdir_or_dir_new [OF l nb pab] show ?thesis
      by (rule wp_mono) (auto simp: w2 e [simplified] ticked_def split: if_splits)
  qed
  show ?thesis
    unfolding mkdirAll_snoc [of "Q @ [a]" b, unfolded append_assoc append.simps] wp_bind
  proof (rule wp_mono [OF st], goal_cases)
    case (1 x w1)
    then obtain err where x: "x = Inl err" and t1: "ticked w w1" by auto
    have Q1: "lookup (root w1) Q = Some (Dir d es)" "lookup (root w1) (Q @ [a]) = None"
      using Q n t1 by (simp_all add: tickedD)
    show ?case
      unfolding x sum.case wp_bind
    proof (rule wp_mono [OF wp_mkdirAll_new [OF Q1 pa]], goal_cases)
      case (1 e w2)
      show ?case
      proof (cases e)
        case None
        with 1 t1 obtain t where "w2 = w\<lparr>root := put (Q @ [a]) (Some (Dir d [])) (root w), tick := t\<rparr>"
          by (auto simp: ticked_def)
        from mk [OF this] show ?thesis by (simp add: None)
      next
        case (Some err)
        with 1 t1 show ?thesis by (auto simp: wp_simps intro: ticked_trans [OF t1])
      qed
    qed
  qed
qed


lemma refines_mkdirAll:
  assumes p: "list_all proper D"
  shows "refines D volume_node (os_MkdirAll (mk_path (D @ [''lib'', ''sinty''])))
           (\<lambda>n. ensure_dir [''lib'', ''sinty''] (ensure_dir [''lib''] n)) wipe_safe"
  unfolding refines_def
proof (intro allI impI)
  fix w :: "'a world" and n
  assume D: "lookup (root w) D = Some n" and v: "volume_node n"
  let ?f = "\<lambda>n. ensure_dir [''lib'', ''sinty''] (ensure_dir [''lib''] n)"
  let ?Q = "\<lambda>e w'. \<exists>n'. at_volume D n' w w' \<and> wipe_safe n n' \<and> (e = None \<longrightarrow> n' = ?f n)"
  from v obtain d es where n: "n = Dir d es" by (cases n) (auto simp: volume_node_def is_dir_def)
  have p1: "list_all proper (D @ [''lib''])" and p2: "list_all proper (D @ [''lib'', ''sinty''])"
    using p by simp_all
  have lk: "lookup (root w) (D @ q) = lookup n q" for q using D by (simp add: lookup_append)
  have pt: "at_volume D (put q (Some m) n) w (w\<lparr>root := put (D @ q) (Some m) (root w), tick := t\<rparr>)" for q m t
    by (auto simp: at_volume_def put_append_Some [OF D])
  have same: "\<exists>n'. at_volume D n' w w' \<and> wipe_safe n n'" if "ticked w w'" for w'
    using at_volume_ticked [OF D that] by (intro exI [of _ n]) simp
  consider (both) "is_dir (lookup n [''lib'', ''sinty''])" | (none) "lookup n [''lib''] = None"
    | (lib) d' es' where "lookup n [''lib''] = Some (Dir d' es')" "lookup n [''lib'', ''sinty''] = None"
    using v by (auto simp: volume_node_def elim: is_dirE)
  then have "wp (mkdirAll_comps True (rev (D @ [''lib'', ''sinty'']))) ?Q w"
  proof cases
    case both
    then obtain d' es' where l: "lookup n [''lib''] = Some (Dir d' es')"
      using lookup_snoc_dir [of n "[''lib'']" "''sinty''"] by (auto simp: is_dir_iff elim: is_dirE)
    have "?f n = n" using both l by (auto simp: ensure_dir_def n is_dir_iff simp del: lookup.simps(2))
    with both show ?thesis
      by (intro wp_mono [OF wp_mkdirAll_exists [OF _ p2]]) (auto simp: lk at_volume_ticked [OF D] intro: exI [of _ n])
  next
    case none
    have f: "?f n = put [''lib''] (Some (Dir d [(''sinty'', Dir d [])])) n"
      using none by (auto simp: ensure_dir_def n update_conv' split: option.splits)
    have l: "lookup (root w) (D @ [''lib'']) = None" using none by (simp add: lk)
    have s: "wipe_safe n (put [''lib''] (Some (Dir d [])) n)"
      by (rule wipe_safe_new_lib [OF none]) (simp add: n is_dir_def)
    have s': "wipe_safe n (put [''lib''] (Some (Dir d [(''sinty'', Dir d [])])) n)"
      using wipe_safe_trans [OF s wipe_safe_new_sinty [of _ d "[]" d]] none
      by (simp add: n update_conv')
    show ?thesis
      by (rule wp_mono [OF wp_mkdirAll_two [OF D [unfolded n] l p2]])
       (use pt s s' same in \<open>auto simp: f split: if_splits\<close>)
  next
    case lib
    have f: "?f n = put [''lib'', ''sinty''] (Some (Dir d' [])) n"
      using lib by (auto simp: ensure_dir_def n simp del: put.simps lookup.simps(2))
    have l: "lookup (root w) (D @ [''lib'']) = Some (Dir d' es')"
      "lookup (root w) ((D @ [''lib'']) @ [''sinty'']) = None" using lib by (simp_all add: lk)
    have p3: "list_all proper ((D @ [''lib'']) @ [''sinty''])" using p2 by simp
    have "wp (mkdirAll_comps True (rev ((D @ [''lib'']) @ [''sinty'']))) ?Q w"
      by (rule wp_mono [OF wp_mkdirAll_new [OF l p3]])
       (use pt wipe_safe_new_sinty [OF lib] same in \<open>auto simp: f split: if_splits\<close>)
    then show ?thesis by simp
  qed
  then show "wp (os_MkdirAll (mk_path (D @ [''lib'', ''sinty'']))) ?Q w"
    by (simp only: mkdirAll_mk_path [OF p2])
qed


lemma refines_weaken: "refines D P m f R \<Longrightarrow> (\<And>n. P' n \<Longrightarrow> P n) \<Longrightarrow> refines D P' m f R"
  unfolding refines_def by blast

text \<open>The steps keep the shape of the volume.\<close>

lemma volume_node_safe: "volume_node n \<Longrightarrow> wf_tree n' \<Longrightarrow> wipe_safe n n' \<Longrightarrow> volume_node n'"
  by (auto simp: volume_node_def wipe_safe_def boot_safe_def custody_safe_def)

lemma wipe_safe_keep_in:
  assumes "\<And>d es es'. lookup n q = Some (Dir d es) \<Longrightarrow>
             (\<And>c. c \<in> set K \<Longrightarrow> map_of es' c = map_of es c) \<Longrightarrow> wipe_safe n (put q (Some (Dir d es')) n)"
  shows "wipe_safe n (keep_in q K n)"
  unfolding keep_in_def using assms by (auto split: option.split inode.split)

lemma volume_node_step:
  assumes "volume_node n" and "list_all proper q"
    and "\<And>d es es'. lookup n q = Some (Dir d es) \<Longrightarrow>
             (\<And>c. c \<in> set K \<Longrightarrow> map_of es' c = map_of es c) \<Longrightarrow> wipe_safe n (put q (Some (Dir d es')) n)"
  shows "volume_node (keep_in q K n)"
proof (rule volume_node_safe [OF assms(1)])
  show "wf_tree (keep_in q K n)" using assms(1,2) by (intro wf_tree_keep_in) (simp_all add: volume_node_def)
  show "wipe_safe n (keep_in q K n)" by (rule wipe_safe_keep_in) (rule assms(3))
qed

lemma volume_node_keep_boot: "volume_node n \<Longrightarrow> volume_node (keep_in [''boot''] bootKeep n)"
  by (rule volume_node_step [OF _ _ wipe_safe_boot]) simp_all

lemma volume_node_keep_rootfs: "volume_node n \<Longrightarrow> volume_node (keep_in [''boot'', ''rootfs''] rootfsKeep n)"
  by (rule volume_node_step [OF _ _ wipe_safe_rootfs]) simp_all

lemma volume_node_keep_top:
  "volume_node n \<Longrightarrow> volume_node (keep_in [] [''boot'', dataMarker, installIDMarker, ''lib''] n)"
  by (rule volume_node_step [OF _ _ wipe_safe_top]) simp_all


lemma ensure_lib:
  assumes v: "volume_node n"
  shows "volume_node (ensure_dir [''lib''] n)" and "is_dir (lookup (ensure_dir [''lib''] n) [''lib''])"
proof -
  from v obtain d es where n: "n = Dir d es" by (cases n) (auto simp: volume_node_def is_dir_def)
  show "volume_node (ensure_dir [''lib''] n)"
  proof (rule volume_node_safe [OF v])
    show "wf_tree (ensure_dir [''lib''] n)" using v by (intro wf_tree_ensure_dir) (simp_all add: volume_node_def)
    show "wipe_safe n (ensure_dir [''lib''] n)"
      using wipe_safe_new_lib [of n d] by (simp add: ensure_dir_def n is_dir_def split: option.splits)
  qed
  show "is_dir (lookup (ensure_dir [''lib''] n) [''lib''])"
    using v by (auto simp: ensure_dir_def n volume_node_def update_conv' is_dir_def
        simp del: wf_tree.simps split: option.splits)
qed

lemma ensure_sinty:
  assumes v: "volume_node n" and l: "is_dir (lookup n [''lib''])"
  shows "volume_node (ensure_dir [''lib'', ''sinty''] n)"
    and "is_dir (lookup (ensure_dir [''lib'', ''sinty''] n) [''lib''])"
proof -
  from l obtain d es where l': "lookup n [''lib''] = Some (Dir d es)" by (rule is_dirE)
  let ?n = "ensure_dir [''lib'', ''sinty''] n"
  have e: "?n = (if lookup n [''lib'', ''sinty''] = None then put [''lib'', ''sinty''] (Some (Dir d [])) n else n)"
    by (simp add: ensure_dir_def l')
  have s: "wipe_safe n ?n" unfolding e by (simp add: wipe_safe_new_sinty [OF l'])
  have w: "wf_tree ?n" using v by (intro wf_tree_ensure_dir) (simp_all add: volume_node_def)
  show "volume_node ?n" by (rule volume_node_safe [OF v w s])
  have "put [''lib'', ''sinty''] (Some (Dir d [])) n
      = put [''lib''] (Some (Dir d (AList.update ''sinty'' (Dir d []) es))) n"
    using put_append_Some [OF l', of "[''sinty'']"] by simp
  then show "is_dir (lookup ?n [''lib''])"
    unfolding e using l lookup_put_same [OF l'] by (simp add: is_dir_def)
qed

text \<open>The programs on the volume.\<close>

lemma refines_scrub:
  assumes c: "DataDir cfg = mk_path D" and p: "list_all proper D"
  shows "refines D volume_node (scrubBootArtifacts cfg)
           (\<lambda>n. keep_in [''boot'', ''rootfs''] rootfsKeep (keep_in [''boot''] bootKeep n)) wipe_safe"
proof -
  have p1: "list_all proper (D @ [''boot''])" and p2: "list_all proper (D @ [''boot'', ''rootfs''])"
    using p by simp_all
  have j: "joinPath [DataDir cfg, ''boot''] = mk_path (D @ [''boot''])"
    "joinPath [mk_path (D @ [''boot'']), ''rootfs''] = mk_path (D @ [''boot'', ''rootfs''])"
    using p joinPath_name [OF p1] by (simp_all add: c joinPath_name)
  have 1: "refines D volume_node (removeChildrenExcept (mk_path (D @ [''boot''])) bootKeep)
      (keep_in [''boot''] bootKeep) wipe_safe"
    by (rule refines_weaken [OF refines_remove [where R = wipe_safe and D = D, OF p1 wipe_safe_boot]]) (simp_all add: volume_node_def)
  have 2: "refines D volume_node (removeChildrenExcept (mk_path (D @ [''boot'', ''rootfs''])) rootfsKeep)
      (keep_in [''boot'', ''rootfs''] rootfsKeep) wipe_safe"
    by (rule refines_weaken [OF refines_remove [where R = wipe_safe and D = D, OF p2 wipe_safe_rootfs]]) (simp_all add: volume_node_def)
  show ?thesis
    unfolding scrubBootArtifacts_def Let_def j
    by (rule refines_seq [OF 1 refines_wrap [OF 2] volume_node_keep_boot wipe_safe_trans])
qed


lemma refines_prepare:
  assumes c: "DataDir cfg = mk_path D" and p: "list_all proper D"
  shows "refines D volume_node
    (do {
     e2 \<leftarrow> scrubBootArtifacts cfg;
     case e2 of Some err \<Rightarrow> return (Some err) | None \<Rightarrow> do {
     e3 \<leftarrow> removeChildrenExcept (DataDir cfg) [''boot'', dataMarker, installIDMarker, ''lib''];
     case e3 of Some err \<Rightarrow> return (Some err) | None \<Rightarrow> do {
     let libDir = joinPath [DataDir cfg, ''lib''];
     e4 \<leftarrow> os_MkdirAll (joinPath [libDir, ''sinty'']);
     case e4 of
       Some err \<Rightarrow> return (Some (Wrap ''preserve key custody: '' err))
     | None \<Rightarrow> removeChildrenExcept libDir [''sinty''] }}}) prepared wipe_safe"
proof -
  have p1: "list_all proper (D @ [''lib''])" and p0: "list_all proper (D @ [])"
    using p by simp_all
  have j: "joinPath [DataDir cfg, ''lib''] = mk_path (D @ [''lib''])"
    "joinPath [mk_path (D @ [''lib'']), ''sinty''] = mk_path (D @ [''lib'', ''sinty''])"
    using p joinPath_name [OF p1] by (simp_all add: c joinPath_name)
  have 1: "refines D volume_node
      (removeChildrenExcept (DataDir cfg) [''boot'', dataMarker, installIDMarker, ''lib''])
      (keep_in [] [''boot'', dataMarker, installIDMarker, ''lib'']) wipe_safe"
    using refines_remove [where R = wipe_safe and D = D, OF p0 wipe_safe_top] unfolding c append_Nil2
    by (rule refines_weaken) (simp_all add: volume_node_def)
  have 2: "refines D (\<lambda>n. volume_node n \<and> is_dir (lookup n [''lib'']))
      (removeChildrenExcept (mk_path (D @ [''lib''])) [''sinty'']) (keep_in [''lib''] [''sinty'']) wipe_safe"
    by (rule refines_weaken [OF refines_remove [where R = wipe_safe and D = D, OF p1 wipe_safe_lib]])
      (simp_all add: volume_node_def)
  have 3: "refines D volume_node (do {
      e4 \<leftarrow> os_MkdirAll (mk_path (D @ [''lib'', ''sinty'']));
      case e4 of Some err \<Rightarrow> return (Some (Wrap ''preserve key custody: '' err))
      | None \<Rightarrow> removeChildrenExcept (mk_path (D @ [''lib''])) [''sinty''] })
     (\<lambda>n. keep_in [''lib''] [''sinty''] (ensure_dir [''lib'', ''sinty''] (ensure_dir [''lib''] n))) wipe_safe"
    by (rule refines_seq [OF refines_mkdirAll [OF p] 2 _ wipe_safe_trans])
      (simp add: ensure_lib ensure_sinty)
  have 4: "refines D volume_node (do {
      e3 \<leftarrow> removeChildrenExcept (DataDir cfg) [''boot'', dataMarker, installIDMarker, ''lib''];
      case e3 of Some err \<Rightarrow> return (Some err) | None \<Rightarrow> do {
      e4 \<leftarrow> os_MkdirAll (mk_path (D @ [''lib'', ''sinty'']));
      case e4 of Some err \<Rightarrow> return (Some (Wrap ''preserve key custody: '' err))
      | None \<Rightarrow> removeChildrenExcept (mk_path (D @ [''lib''])) [''sinty''] } })
     (\<lambda>n. keep_in [''lib''] [''sinty''] (ensure_dir [''lib'', ''sinty''] (ensure_dir [''lib'']
        (keep_in [] [''boot'', dataMarker, installIDMarker, ''lib''] n)))) wipe_safe"
    by (rule refines_seq [where g = "\<lambda>x. x", OF 1 3 volume_node_keep_top wipe_safe_trans])
  show ?thesis
    unfolding Let_def j prepared_def [abs_def]
    by (rule refines_seq [where g = "\<lambda>x. x", OF refines_scrub [OF c p] 4 _ wipe_safe_trans])
      (simp add: volume_node_keep_boot volume_node_keep_rootfs)
qed

lemma boot_safe_top:
  assumes l: "lookup n [] = Some (Dir d es)"
    and k: "\<And>c. c \<in> set [''boot'', dataMarker, installIDMarker] \<Longrightarrow> map_of es' c = map_of es c"
  shows "boot_safe n (put [] (Some (Dir d es')) n)"
proof -
  have "lookup (put [] (Some (Dir d es')) n) (c # p) = lookup n (c # p)"
    if "c \<in> set [''boot'', dataMarker, installIDMarker]" for c p
    using lookup_put_entry [OF l k [OF that], of p] by simp
  then show ?thesis using put_node [OF l] by (auto simp: boot_safe_def kept_paths_def list_all_iff)
qed

lemma refines_finish:
  assumes c: "DataDir cfg = mk_path D" and p: "list_all proper D"
  shows "refines D volume_node
     (removeChildrenExcept (DataDir cfg) [''boot'', dataMarker, installIDMarker]) finished boot_safe"
proof -
  have p0: "list_all proper (D @ [])" using p by simp
  have "refines D (\<lambda>n. wf_tree n \<and> is_dir (lookup n []))
      (removeChildrenExcept (mk_path (D @ [])) [''boot'', dataMarker, installIDMarker])
      (keep_in [] [''boot'', dataMarker, installIDMarker]) boot_safe"
    by (rule refines_remove [where R = boot_safe and D = D, OF p0 boot_safe_top])
  then show ?thesis
    unfolding finished_def [abs_def] c append_Nil2
    by (rule refines_weaken) (simp_all add: volume_node_def)
qed

subsection \<open>The two passes\<close>

lemma valid_volume_node:
  "valid_volume cfg D E r \<Longrightarrow> lookup r D = Some n \<Longrightarrow> wf_tree n \<Longrightarrow> is_dir (Some n) \<Longrightarrow> volume_node n"
  by (simp add: valid_volume_def volume_node_def lookup_append)

text \<open>A program that validates first and then works on the volume.\<close>

lemma wp_validated:
  assumes vp: "volume_paths cfg D E" and pr: "present D E (root w)" and D: "lookup (root w) D = Some n"
    and wf: "wf_tree n" and m: "refines D volume_node m f R" and R: "R n n"
  shows "wp (do { e \<leftarrow> validateDataDir cfg; case e of Some err \<Rightarrow> return (Some err) | None \<Rightarrow> m })
     (\<lambda>e w'. \<exists>n'. at_volume D n' w w' \<and> R n n'
        \<and> (e = None \<longrightarrow> valid_volume cfg D E (root w) \<and> n' = f n)
        \<and> (\<not> valid_volume cfg D E (root w) \<longrightarrow> n' = n)) w" (is "wp _ ?Q w")
  unfolding wp_bind
proof (rule wp_mono [OF checks_wp [OF checks_validateDataDir [OF vp pr] refl]], goal_cases)
  case (1 e w1)
  then have t: "ticked w w1" by simp
  show ?case
  proof (cases e)
    case (Some err)
    with R at_volume_ticked [OF D t] show ?thesis by (auto simp: wp_simps intro: exI [of _ n])
  next
    case None
    with 1 have v: "valid_volume cfg D E (root w)" by simp
    have "volume_node n"
      using valid_volume_node [OF v D wf] pr D by (simp add: present_def)
    moreover have "lookup (root w1) D = Some n" using D t by (simp add: tickedD)
    ultimately have "wp m (\<lambda>e w'. \<exists>n'. at_volume D n' w1 w' \<and> R n n' \<and> (e = None \<longrightarrow> n' = f n)) w1"
      by (intro refines_wp [OF m])
    then show ?thesis
      unfolding None option.case
      by (rule wp_mono) (use v at_volume_trans [OF D at_volume_ticked [OF D t]] in blast)
  qed
qed

text \<open>What a pass leaves: the volume \<open>n\<close> has become \<open>n'\<close>, nothing else has changed.\<close>

definition passed ::
    "config \<Rightarrow> string list \<Rightarrow> string list \<Rightarrow> (inode \<Rightarrow> inode \<Rightarrow> bool) \<Rightarrow> (inode \<Rightarrow> inode) \<Rightarrow>
     inode \<Rightarrow> inode \<Rightarrow> 'x world \<Rightarrow> gerror option \<Rightarrow> 'x world \<Rightarrow> bool" where
  "passed cfg D E R f n n' w e w' \<longleftrightarrow>
     lookup (root w) D = Some n \<and> wf_tree n \<and> is_dir (Some n) \<and> at_volume D n' w w' \<and> R n n'
     \<and> (e = None \<longrightarrow> valid_volume cfg D E (root w) \<and> n' = f n)
     \<and> (\<not> valid_volume cfg D E (root w) \<longrightarrow> n' = n)"

lemma wp_passed:
  assumes vp: "volume_paths cfg D E" and pr: "present D E (root w)" and wf: "wf_tree (root w)"
    and m: "refines D volume_node m f R" and R: "\<And>n. R n n"
  shows "wp (do { e \<leftarrow> validateDataDir cfg; case e of Some err \<Rightarrow> return (Some err) | None \<Rightarrow> m })
     (\<lambda>e w'. \<exists>n n'. passed cfg D E R f n n' w e w') w"
proof -
  from pr obtain d es where D: "lookup (root w) D = Some (Dir d es)"
    by (auto simp: present_def elim: is_dirE)
  have wfn: "wf_tree (Dir d es)" by (rule wf_tree_lookup [OF wf D])
  show ?thesis
    by (rule wp_mono [OF wp_validated [OF vp pr D wfn m R]])
      (use D wfn in \<open>auto simp: passed_def is_dir_def simp del: wf_tree.simps\<close>)
qed

lemma wp_prepareDataWipe:
  assumes "volume_paths cfg D E" and "present D E (root w)" and "wf_tree (root w)"
  shows "wp (prepareDataWipe cfg) (\<lambda>e w'. \<exists>n n'. passed cfg D E wipe_safe prepared n n' w e w') w"
  using assms unfolding prepareDataWipe_def
  by (intro wp_passed refines_prepare) (simp_all add: volume_paths_def)

lemma wp_finishDataWipe:
  assumes "volume_paths cfg D E" and "present D E (root w)" and "wf_tree (root w)"
  shows "wp (finishDataWipe cfg) (\<lambda>e w'. \<exists>n n'. passed cfg D E boot_safe finished n n' w e w') w"
  using assms unfolding finishDataWipe_def
  by (intro wp_passed refines_finish) (simp_all add: volume_paths_def)

lemma passed_lookup:
  assumes "passed cfg D E R f n n' w e w'"
  shows "lookup (root w') (D @ q) = lookup n' q" and "lookup (root w) (D @ q) = lookup n q"
proof -
  from assms have D: "lookup (root w) D = Some n" and a: "at_volume D n' w w'" by (simp_all add: passed_def)
  show "lookup (root w') (D @ q) = lookup n' q" by (rule at_volume_lookup [OF D a])
  show "lookup (root w) (D @ q) = lookup n q" by (simp add: lookup_append D)
qed

lemma passed_outside:
  "passed cfg D E R f n n' w e w' \<Longrightarrow> \<not> prefix D q \<Longrightarrow>
     map_option shallow (lookup (root w') q) = map_option shallow (lookup (root w) q)"
  by (auto simp: passed_def at_volume_def lookup_put_outside)

lemma passed_refused:
  "passed cfg D E R f n n' w e w' \<Longrightarrow> \<not> valid_volume cfg D E (root w) \<Longrightarrow> e \<noteq> None \<and> root w' = root w"
  by (auto simp: passed_def at_volume_def put_id)

text \<open>
  The system partition is mounted at \<open>boot/efi\<close> of the volume, or lies elsewhere: no pass reaches
  its install ID.
\<close>

definition esp_apart :: "string list \<Rightarrow> string list \<Rightarrow> bool" where
  "esp_apart D E \<longleftrightarrow>
     prefix (D @ [''boot'', ''efi'']) E \<or> \<not> prefix D (E @ [''state'', ''install-id''])"

lemma shallow_dev: "shallow n = shallow n' \<Longrightarrow> dev_of n = dev_of n'"
  by (cases n; cases n') auto

lemma install_id_shallow: "map_option shallow n = map_option shallow n' \<Longrightarrow> install_id n = install_id n'"
  by (cases n; cases n') (auto simp: install_id_def elim!: shallow.elims)

lemma boot_safe_efi: "boot_safe n n' \<Longrightarrow> lookup n' (''boot'' # ''efi'' # q) = lookup n (''boot'' # ''efi'' # q)"
proof -
  assume "boot_safe n n'"
  then have "lookup n' ([''boot'', ''efi''] @ []) = lookup n [''boot'', ''efi'']"
    by (simp add: boot_safe_def kept_paths_def)
  then show ?thesis
    using lookup_append [of n' "[''boot'', ''efi'']" q] lookup_append [of n "[''boot'', ''efi'']" q] by simp
qed

lemma lookup_esp:
  assumes a: "esp_apart D E" and D: "lookup (root w) D = Some n" and v: "at_volume D n' w w'"
    and b: "boot_safe n n'" and q: "prefix q [''state'', ''install-id'']"
  shows "map_option shallow (lookup (root w') (E @ q)) = map_option shallow (lookup (root w) (E @ q))"
proof (cases "prefix (D @ [''boot'', ''efi'']) E")
  case True
  then obtain x where E: "E = D @ [''boot'', ''efi''] @ x" by (auto simp: prefix_def)
  show ?thesis
    using at_volume_lookup [OF D v, of "[''boot'', ''efi''] @ x @ q"] boot_safe_efi [OF b, of "x @ q"]
    by (simp add: E lookup_append [of _ D] D)
next
  case False
  with a have "\<not> prefix D (E @ [''state'', ''install-id''])" by (simp add: esp_apart_def)
  moreover have "prefix (E @ q) (E @ [''state'', ''install-id''])" using q by simp
  ultimately have "\<not> prefix D (E @ q)" using prefix_order.trans by blast
  then show ?thesis using lookup_put_outside [OF D] v by (auto simp: at_volume_def)
qed

lemma valid_volume_kept:
  assumes vp: "volume_paths cfg D E" and a: "esp_apart D E" and D: "lookup (root w) D = Some n"
    and v: "at_volume D n' w w'" and b: "boot_safe n n'"
    and l: "lookup n' [''lib''] = None \<or> is_dir (lookup n' [''lib''])"
    and s: "lookup n' [''lib'', ''sinty''] = None \<or> is_dir (lookup n' [''lib'', ''sinty''])"
    and ok: "valid_volume cfg D E (root w)"
  shows "valid_volume cfg D E (root w')"
proof -
  have L: "lookup (root w') (D @ q) = lookup n' q" for q by (rule at_volume_lookup [OF D v])
  have L0: "lookup (root w) (D @ q) = lookup n q" for q using D by (simp add: lookup_append)
  have k: "lookup n' q = lookup n q" if "q \<in> set kept_paths" for q
    using b that by (simp add: boot_safe_def list_all_iff)
  have i: "install_id (lookup (root w') (E @ [''state'', ''install-id'']))
      = install_id (lookup (root w) (E @ [''state'', ''install-id'']))"
    by (rule install_id_shallow [OF lookup_esp [OF a D v b]]) simp
  have arts: "list_all (\<lambda>x. is_reg (lookup n' [''boot'', ''rootfs'', x])) artifacts
      = list_all (\<lambda>x. is_reg (lookup n [''boot'', ''rootfs'', x])) artifacts"
    using k by (simp add: artifacts_def kept_paths_def rootfsKeep_def)
  have "\<not> prefix D (butlast D)"
    using vp prefix_length_le [of D "butlast D"] by (cases D rule: rev_cases) (auto simp: volume_paths_def)
  then have "map_option shallow (lookup (root w') (butlast D)) = map_option shallow (lookup (root w) (butlast D))"
    using lookup_put_outside [OF D, of "butlast D"] v by (auto simp: at_volume_def)
  then have bl: "map_option dev_of (lookup (root w') (butlast D)) = map_option dev_of (lookup (root w) (butlast D))"
    by (cases "lookup (root w') (butlast D)"; cases "lookup (root w) (butlast D)") (auto dest: shallow_dev)
  have "dev_of n' = dev_of n" and bd: "is_dir (lookup n' [''boot''])  = is_dir (lookup n [''boot''])"
    "is_dir (lookup n' [''boot'', ''rootfs''])  = is_dir (lookup n [''boot'', ''rootfs''])"
    using b by (auto simp: boot_safe_def)
  with ok l s bl show ?thesis
    unfolding valid_volume_def L L0 i arts using k L [of "[]"] D
    by (simp add: kept_paths_def)
qed


subsection \<open>What is left after a pass\<close>

lemma lookup_put_None:
  "lookup r p = Some n \<Longrightarrow> \<not> prefix p q \<Longrightarrow> lookup (put p (Some m) r) q = None \<longleftrightarrow> lookup r q = None"
  using lookup_put_outside [of r p n q m]
  by (cases "lookup (put p (Some m) r) q"; cases "lookup r q") simp_all

lemma lookup_nondir: "\<not> is_dir (lookup n q) \<Longrightarrow> lookup n (q @ c # p) = None"
  by (auto simp: lookup_append is_dir_def split: option.splits inode.splits)

lemma lookup_keep_in:
  assumes "lookup (keep_in q K n) p \<noteq> None"
  shows "lookup n p \<noteq> None" and "p = q @ c # p' \<Longrightarrow> c \<in> set K"
proof -
  have "lookup n p \<noteq> None \<and> (\<forall>c p'. p = q @ c # p' \<longrightarrow> c \<in> set K)"
  proof (cases "is_dir (lookup n q)")
    case False
    then have "keep_in q K n = n" by (auto simp: keep_in_def is_dir_def split: option.splits inode.splits)
    with assms lookup_nondir [OF False] show ?thesis by auto
  next
    case True
    then obtain d es where l: "lookup n q = Some (Dir d es)" by (rule is_dirE)
    let ?es = "filter (\<lambda>x. fst x \<in> set K) es"
    have k: "keep_in q K n = put q (Some (Dir d ?es)) n" by (simp add: keep_in_def l)
    show ?thesis
    proof (cases "prefix q p")
      case True
      then obtain x where p: "p = q @ x" by (auto simp: prefix_def)
      have "lookup (Dir d ?es) x \<noteq> None" using assms lookup_put_under [OF l] by (simp add: k p)
      then show ?thesis
        using l by (cases x) (auto simp: p lookup_append split: if_splits option.splits)
    next
      case False
      with lookup_put_None [OF l False, of "Dir d ?es"] assms show ?thesis
        by (auto simp: k prefix_def)
    qed
  qed
  then show "lookup n p \<noteq> None" "p = q @ c # p' \<Longrightarrow> c \<in> set K" by auto
qed

lemma lookup_ensure_dir:
  assumes "lookup (ensure_dir (q @ [c]) n) p \<noteq> None"
  shows "lookup n p \<noteq> None \<or> p = q @ [c]"
proof (cases "is_dir (lookup n q) \<and> lookup n (q @ [c]) = None")
  case False
  then have "ensure_dir (q @ [c]) n = n" by (auto simp: ensure_dir_def is_dir_def split: option.splits inode.splits)
  with assms show ?thesis by simp
next
  case True
  then obtain d es where l: "lookup n q = Some (Dir d es)" by (auto elim: is_dirE)
  have e: "ensure_dir (q @ [c]) n = put q (Some (Dir d (AList.update c (Dir d []) es))) n"
    using True put_append_Some [OF l, of "[c]"] by (simp add: ensure_dir_def l)
  show ?thesis
  proof (cases "prefix q p")
    case True
    then obtain x where p: "p = q @ x" by (auto simp: prefix_def)
    have "lookup (Dir d (AList.update c (Dir d []) es)) x \<noteq> None"
      using assms lookup_put_under [OF l] by (simp add: e p)
    then show ?thesis
      using l by (cases x; cases "tl x") (auto simp: p lookup_append update_conv' split: if_splits option.splits)
  next
    case False
    from lookup_put_None [OF l False, of "Dir d (AList.update c (Dir d []) es)"] assms show ?thesis
      by (auto simp: e)
  qed
qed

text \<open>The paths of the volume that the first pass may leave, and those the second may.\<close>

definition boot_path :: "string list \<Rightarrow> bool" where
  "boot_path q \<longleftrightarrow>
     q = [] \<or> q = [''boot''] \<or> q = [''boot'', ''rootfs''] \<or> list_ex (\<lambda>k. prefix k q) kept_paths"

definition custody_path :: "string list \<Rightarrow> bool" where
  "custody_path q \<longleftrightarrow> q = [''lib''] \<or> prefix [''lib'', ''sinty''] q"

lemma prepared_paths:
  assumes "lookup (prepared n) q \<noteq> None"
  shows "boot_path q \<or> custody_path q"
proof -
  let ?n2 = "keep_in [''boot'', ''rootfs''] rootfsKeep (keep_in [''boot''] bootKeep n)"
  let ?n3 = "keep_in [] [''boot'', dataMarker, installIDMarker, ''lib''] ?n2"
  let ?n5 = "ensure_dir [''lib'', ''sinty''] (ensure_dir [''lib''] ?n3)"
  have lib: "q = ''lib'' # c # q' \<Longrightarrow> c = ''sinty''" for c q'
    using lookup_keep_in(2) [of "[''lib'']" "[''sinty'']" ?n5 q c q'] assms by (auto simp: prepared_def)
  have "lookup ?n5 q \<noteq> None"
    using lookup_keep_in(1) assms unfolding prepared_def by blast
  then have "lookup ?n3 q \<noteq> None \<or> q = [''lib''] \<or> q = [''lib'', ''sinty'']"
    using lookup_ensure_dir [of "[''lib'']" "''sinty''"] lookup_ensure_dir [of "[]" "''lib''"] by fastforce
  moreover have "boot_path q \<or> custody_path q" if "lookup ?n3 q \<noteq> None"
  proof (cases q)
    case (Cons c q1)
    from lookup_keep_in [OF that] Cons
    have c: "c \<in> set [''boot'', dataMarker, installIDMarker, ''lib'']" and 2: "lookup ?n2 q \<noteq> None" by auto
    have rf: "q = ''boot'' # ''rootfs'' # x # y \<Longrightarrow> x \<in> set rootfsKeep" for x y
      using lookup_keep_in(2) [OF 2, of x y] by simp
    have bt: "q = ''boot'' # x # y \<Longrightarrow> x \<in> set bootKeep" for x y
      using lookup_keep_in(2) [OF lookup_keep_in(1) [OF 2], of x y] by simp
    show ?thesis
    proof (cases "c = ''boot''")
      case True
      show ?thesis
        using rf bt Cons True
        by (cases q1; cases "tl q1") (auto simp: boot_path_def kept_paths_def bootKeep_def list_ex_iff)
    next
      case False
      with c lib Cons show ?thesis
        by (cases q1) (auto simp: boot_path_def custody_path_def kept_paths_def)
    qed
  qed (simp add: boot_path_def)
  ultimately show ?thesis by (auto simp: custody_path_def)
qed

lemma finished_paths:
  assumes "lookup (finished n) q \<noteq> None"
  shows "q = [] \<or> hd q \<in> {''boot'', dataMarker, installIDMarker}" and "lookup n q \<noteq> None"
  using lookup_keep_in [OF assms [unfolded finished_def]] by (cases q; auto)+

section \<open>The second pass only deletes\<close>

text \<open>\<open>pruned n n'\<close>: everything in \<open>n'\<close> was there before, and is what it was.\<close>

fun same_kind :: "inode \<Rightarrow> inode \<Rightarrow> bool" where
  "same_kind (Dir d es) (Dir d' es') \<longleftrightarrow> d = d'"
| "same_kind n n' \<longleftrightarrow> n = n'"

definition pruned :: "inode \<Rightarrow> inode \<Rightarrow> bool" where
  "pruned n n' \<longleftrightarrow>
     (\<forall>p m'. lookup n' p = Some m' \<longrightarrow> (\<exists>m. lookup n p = Some m \<and> same_kind m m'))"

lemma same_kind_refl [simp]: "same_kind n n"
  by (cases n) simp_all

lemma same_kind_trans: "same_kind a b \<Longrightarrow> same_kind b c \<Longrightarrow> same_kind a c"
  by (cases a; cases b; cases c) simp_all

lemma pruned_refl [simp]: "pruned n n"
  by (auto simp: pruned_def)

lemma pruned_trans: "pruned a b \<Longrightarrow> pruned b c \<Longrightarrow> pruned a c"
  unfolding pruned_def by (meson same_kind_trans)

lemma pruned_is_dir: "pruned n n' \<Longrightarrow> is_dir (lookup n q) \<or> lookup n q = None \<Longrightarrow>
    lookup n' q = None \<or> is_dir (lookup n' q)"
  unfolding pruned_def is_dir_def
  by (cases "lookup n' q") (fastforce elim!: same_kind.elims split: option.splits inode.splits)+

text \<open>For directories it is a statement about the entries.\<close>

lemma pruned_Dir:
  assumes "\<And>c m'. map_of es' c = Some m' \<Longrightarrow> \<exists>m. map_of es c = Some m \<and> pruned m m'"
  shows "pruned (Dir d es) (Dir d es')"
  unfolding pruned_def
proof (intro allI impI)
  fix p m' assume "lookup (Dir d es') p = Some m'"
  then show "\<exists>m. lookup (Dir d es) p = Some m \<and> same_kind m m'"
    using assms by (cases p) (fastforce simp: pruned_def split: option.splits)+
qed

lemma pruned_entry:
  assumes "map_of es c = Some m" and "pruned m m'"
  shows "pruned (Dir d es) (Dir d (AList.update c m' es))"
  using assms by (intro pruned_Dir) (auto simp: update_conv' split: if_splits)

lemma pruned_put:
  "lookup r p = Some n \<Longrightarrow> pruned n n' \<Longrightarrow> pruned r (put p (Some n') r)"
proof (induction p arbitrary: r)
  case (Cons c p)
  then show ?case
    by (cases r) (auto simp: put_Cons intro!: pruned_entry split: option.splits)
qed simp

lemma pruned_delete: "pruned (Dir d es) (Dir d (AList.delete c es))"
  by (intro pruned_Dir) (auto simp: delete_conv' split: if_splits)

lemma pruned_put_None:
  assumes "lookup r q = Some (Dir d es)"
  shows "pruned r (put (q @ [c]) None r)"
  using pruned_put [OF assms pruned_delete] by (simp add: put_snoc [OF assms])

lemma pruned_rm:
  "rm_node flt t pd n = (Some (n', e), t') \<Longrightarrow> wf_tree n \<Longrightarrow> pruned n n' \<and> wf_tree n'"
  "rm_entries flt t d es = ((es', err), t') \<Longrightarrow> wf_tree (Dir d es) \<Longrightarrow>
     (\<forall>c m'. map_of es' c = Some m' \<longrightarrow> (\<exists>m. map_of es c = Some m \<and> pruned m m')) \<and> wf_tree (Dir d es')"
proof (induction flt t pd n and flt t d es arbitrary: n' e t' and es' err t' rule: rm_node_rm_entries.induct)
  case (1 flt t pd d es)
  then show ?case
    by (auto split: prod.splits if_splits option.splits intro!: pruned_Dir simp del: wf_tree.simps)
next
  case (6 flt t d c n es)
  obtain res t1 where n: "rm_node flt t d n = (res, t1)" by fastforce
  obtain es1 err1 t2 where e: "rm_entries flt t1 d es = ((es1, err1), t2)" by (metis prod.exhaust)
  from 6(4) have wn: "wf_tree n" and we: "wf_tree (Dir d es)" and c: "proper c" "c \<notin> fst ` set es" by auto
  have IH: "\<And>c m'. map_of es1 c = Some m' \<Longrightarrow> \<exists>m. map_of es c = Some m \<and> pruned m m'" "wf_tree (Dir d es1)"
    using "6.IH"(2) [OF n [symmetric] e we] by blast+
  then have c1: "c \<notin> fst ` set es1"
    using c by (metis map_of_eq_None_iff not_Some_eq option.distinct(1))
  show ?case
  proof (cases res)
    case None
    with 6(3) n e have "es' = es1" by simp
    moreover have "map_of es1 c = None" using c1 by (simp add: map_of_eq_None_iff)
    ultimately show ?thesis using IH by (auto simp del: wf_tree.simps)
  next
    case (Some x)
    obtain n' e' where x: "x = (n', e')" by fastforce
    have "pruned n n'" "wf_tree n'" using "6.IH"(1) n Some x wn by auto
    moreover have "es' = (c, n') # es1" using 6(3) n e Some x by simp
    ultimately show ?thesis using IH c c1 by auto
  qed
qed (auto split: if_splits)


lemma wf_tree_path: "wf_tree r \<Longrightarrow> lookup r p = Some n \<Longrightarrow> list_all proper p"
proof (induction p arbitrary: r)
  case (Cons c p)
  from Cons.prems(2) obtain d es m where r: "r = Dir d es" and m: "map_of es c = Some m"
      and l: "lookup m p = Some n"
    by (auto simp: lookup_Cons split: inode.splits option.splits)
  from m have "(c, m) \<in> set es" by (rule map_of_SomeD)
  with Cons.prems(1) have "wf_tree m" "proper c" by (auto simp: r list_all_iff)
  with Cons.IH [OF _ l] show ?case by simp
qed simp

lemma wf_tree_delete:
  assumes r: "wf_tree r" and q: "lookup r q = Some (Dir d es)"
  shows "wf_tree (put (q @ [c]) None r)"
proof -
  have "wf_tree (Dir d (AList.delete c es))"
    unfolding delete_filter by (rule wf_tree_filter [OF wf_tree_lookup [OF r q]])
  then show ?thesis using wf_tree_put [OF r _ wf_tree_path [OF r q]] by (simp add: put_snoc [OF q])
qed

text \<open>Nothing but deletions happened to the tree \<open>r\<close>.\<close>

definition only_deletes :: "inode \<Rightarrow> 'x world \<Rightarrow> bool" where
  "only_deletes r w \<longleftrightarrow> wf_tree (root w) \<and> pruned r (root w)"

lemma tickless_only_deletes [simp]: "tickless (only_deletes r)"
  by (simp add: tickless_def only_deletes_def)

lemma only_deletes_put:
  assumes "only_deletes r w" and "lookup (root w) (q @ [c]) = Some n"
    and "rm_node flt t d n = (Some (n', e), t')"
  shows "only_deletes r (w\<lparr>root := put (q @ [c]) (Some n') (root w), tick := t''\<rparr>)"
proof -
  have w: "wf_tree (root w)" and r: "pruned r (root w)" using assms(1) by (simp_all add: only_deletes_def)
  have n: "pruned n n'" "wf_tree n'"
    using pruned_rm(1) [OF assms(3) wf_tree_lookup [OF w assms(2)]] by simp_all
  then show ?thesis
    using wf_tree_put [OF w n(2) wf_tree_path [OF w assms(2)]] pruned_trans [OF r pruned_put [OF assms(2) n(1)]]
    by (simp add: only_deletes_def)
qed

lemma only_deletes_remove:
  assumes "only_deletes r w" and "lookup (root w) q = Some (Dir d es)"
  shows "only_deletes r (w\<lparr>root := put (q @ [c]) None (root w), tick := t\<rparr>)"
  using assms wf_tree_delete pruned_put_None pruned_trans by (auto simp: only_deletes_def)

lemma keeps_RemoveAll [keeps_intros]: "keeps (only_deletes r) (os_RemoveAll p)"
proof (rule keepsI)
  fix w :: "'a world"
  assume w: "only_deletes r w"
  have t: "only_deletes r (w\<lparr>tick := t\<rparr>)" for t using w by (simp add: only_deletes_def)
  show "wp (os_RemoveAll p) (\<lambda>_. only_deletes r) w"
    using w t only_deletes_put [OF w] only_deletes_remove [OF w]
    by (auto simp: os_RemoveAll_def wp_simps tick_root split: sum.split option.split inode.split prod.split)
qed

lemma keeps_looking [keeps_intros]:
  "keeps (only_deletes r) (os_Lstat p)" "keeps (only_deletes r) (os_Stat p)"
  "keeps (only_deletes r) (os_ReadFile p)" "keeps (only_deletes r) (os_ReadDir p)"
  "keeps (only_deletes r) (os_Open p)" "keeps (only_deletes r) (file_Sync f)" "keeps (only_deletes r) (file_Close f)"
  unfolding os_Lstat_def os_Stat_def os_ReadFile_def os_ReadDir_def os_Open_def file_Sync_def file_Close_def
  by (auto intro!: keeps_query keeps_perform)

lemma keeps_removeEntries [keeps_intros]: "keeps (only_deletes r) (removeEntries dir K ns)"
  by (induction ns) (auto intro!: keeps_intros)

lemma keeps_removeChildrenExcept [keeps_intros]: "keeps (only_deletes r) (removeChildrenExcept dir K)"
  unfolding removeChildrenExcept_def syncDir_def by (intro keeps_intros)

lemma keeps_checkArtifacts [keeps_intros]: "keeps (only_deletes r) (checkArtifacts dir ns)"
  by (induction ns) (auto intro!: keeps_intros)

lemma keeps_finishDataWipe: "keeps (only_deletes r) (finishDataWipe cfg)"
  unfolding finishDataWipe_def validateDataDir_def validateLayout_def readInstallID_def requireRealDir_def
    checkMount_def Let_def
  by (intro keeps_intros)


section \<open>Properties\<close>

lemma custody_prepared:
  assumes "volume_node n"
  shows "is_dir (lookup (prepared n) [''lib'', ''sinty''])"
proof -
  define n3 where "n3 = keep_in [] [''boot'', dataMarker, installIDMarker, ''lib'']
      (keep_in [''boot'', ''rootfs''] rootfsKeep (keep_in [''boot''] bootKeep n))"
  have v: "volume_node n3"
    unfolding n3_def by (intro volume_node_keep_top volume_node_keep_rootfs volume_node_keep_boot assms)
  define n4 where "n4 = ensure_dir [''lib''] n3"
  have v4: "volume_node n4" and l4: "is_dir (lookup n4 [''lib''])"
    using ensure_lib [OF v] by (simp_all add: n4_def)
  then obtain d es where l: "lookup n4 [''lib''] = Some (Dir d es)" by (auto elim: is_dirE)
  let ?n5 = "ensure_dir [''lib'', ''sinty''] n4"
  have "is_dir (lookup ?n5 [''lib'', ''sinty''])"
    using v4 lookup_put_new [OF l, of "''sinty''" "Dir d []"]
    by (auto simp: ensure_dir_def l volume_node_def is_dir_def)
  moreover obtain d' es' where l5: "lookup ?n5 [''lib''] = Some (Dir d' es')"
    using ensure_sinty(2) [OF v4 l4] by (rule is_dirE)
  have "lookup (keep_in [''lib''] [''sinty''] ?n5) [''lib'', ''sinty''] = lookup ?n5 [''lib'', ''sinty'']"
    using lookup_put_entry [OF l5, of "filter (\<lambda>x. fst x \<in> set [''sinty'']) es'" "''sinty''" "[]"]
    by (simp add: keep_in_def l5 map_of_keep [of "{''sinty''}", simplified])
  ultimately show ?thesis by (simp add: prepared_def n4_def n3_def)
qed

lemma boot_safe_kept: "boot_safe n n' \<Longrightarrow> q \<in> set kept_paths \<Longrightarrow> lookup n' q = lookup n q"
  by (simp add: boot_safe_def list_all_iff)

text \<open>A pass leaves a valid volume valid.\<close>

lemma passed_wipe_valid:
  assumes vp: "volume_paths cfg D E" and ap: "esp_apart D E"
    and r: "passed cfg D E wipe_safe f n n' w e w'" and v: "valid_volume cfg D E (root w)"
  shows "valid_volume cfg D E (root w')"
proof -
  from r have s: "wipe_safe n n'" and D: "lookup (root w) D = Some n" and a: "at_volume D n' w w'"
    by (auto simp: passed_def)
  have "volume_node n" using r v valid_volume_node by (auto simp: passed_def)
  then show ?thesis
    using s by (intro valid_volume_kept [OF vp ap D a _ _ _ v])
      (auto simp: wipe_safe_def volume_node_def custody_safe_def)
qed

lemma passed_finish_valid:
  assumes vp: "volume_paths cfg D E" and ap: "esp_apart D E"
    and r: "passed cfg D E boot_safe f n n' w e w'" and v: "valid_volume cfg D E (root w)"
    and p: "pruned (root w) (root w')"
  shows "valid_volume cfg D E (root w')"
proof -
  from r have s: "boot_safe n n'" and D: "lookup (root w) D = Some n" and a: "at_volume D n' w w'"
    by (auto simp: passed_def)
  have pn: "pruned n n'" using p unfolding pruned_def using passed_lookup [OF r] by metis
  have "volume_node n" using r v valid_volume_node by (auto simp: passed_def)
  then show ?thesis
    using pruned_is_dir [OF pn] by (intro valid_volume_kept [OF vp ap D a s _ _ v]) (auto simp: volume_node_def)
qed

text \<open>C16. Validation changes nothing; it reports success only on a volume of this installation
  (matching install IDs, the expected layout, a mount point of its own if required), whatever
  call fails on the way, and without failing calls it accepts every such volume.\<close>

theorem validateDataDir_correct:
  assumes "volume_paths cfg D E" and "present D E (root w)"
    and "run_state (validateDataDir cfg) w = (e, w')"
  shows "root w' = root w \<and> ext w' = ext w \<and> events w' = events w
     \<and> (e = None \<longrightarrow> valid_volume cfg D E (root w))
     \<and> ((\<forall>t. \<not> fault w t) \<longrightarrow> valid_volume cfg D E (root w) \<longrightarrow> e = None)"
  using wp_runD [OF checks_wp [OF checks_validateDataDir [OF assms(1,2)] refl] assms(3)]
  by (auto simp: tickedD quiet_def)

text \<open>C13. The first pass, when it reports success, ran on a valid volume, has left nothing on it
  but the boot artefacts, the markers and the key custody, has left those as they were, and the
  key-custody directory exists.\<close>

theorem prepareDataWipe_success:
  assumes vp: "volume_paths cfg D E" and pr: "present D E (root w)" and wf: "wf_tree (root w)"
    and run: "run_state (prepareDataWipe cfg) w = (None, w')"
  shows "valid_volume cfg D E (root w)
     \<and> (\<forall>q. lookup (root w') (D @ q) \<noteq> None \<longrightarrow> boot_path q \<or> custody_path q)
     \<and> (\<forall>q \<in> set kept_paths. lookup (root w') (D @ q) = lookup (root w) (D @ q))
     \<and> is_dir (lookup (root w') (D @ [''lib'', ''sinty'']))
     \<and> (lookup (root w) (D @ [''lib'', ''sinty'']) \<noteq> None \<longrightarrow>
          lookup (root w') (D @ [''lib'', ''sinty'']) = lookup (root w) (D @ [''lib'', ''sinty'']))"
proof -
  obtain n where r: "passed cfg D E wipe_safe prepared n (prepared n) w None w'"
    using wp_runD [OF wp_prepareDataWipe [OF vp pr wf] run] by (auto simp: passed_def)
  then have v: "valid_volume cfg D E (root w)" and s: "wipe_safe n (prepared n)" by (auto simp: passed_def)
  have "volume_node n" using r v valid_volume_node by (auto simp: passed_def)
  then show ?thesis
    unfolding passed_lookup [OF r] using v s prepared_paths custody_prepared boot_safe_kept
    by (auto simp: wipe_safe_def custody_safe_def)
qed

text \<open>C14. Wherever the first pass stops, on any schedule of failing calls and so also at a power
  loss: outside the data directory nothing has changed; the boot artefacts and the markers are
  intact; key custody that existed is intact; a valid volume is still valid, so that the pass can
  be repeated; and on a volume that is not valid nothing has changed at all.\<close>

theorem prepareDataWipe_crash_safe:
  assumes vp: "volume_paths cfg D E" and ap: "esp_apart D E" and pr: "present D E (root w)"
    and wf: "wf_tree (root w)" and run: "run_state (prepareDataWipe cfg) w = (e, w')"
  shows "(\<forall>q. \<not> prefix D q \<longrightarrow>
          map_option shallow (lookup (root w') q) = map_option shallow (lookup (root w) q))
     \<and> (\<forall>q \<in> set kept_paths. lookup (root w') (D @ q) = lookup (root w) (D @ q))
     \<and> (lookup (root w) (D @ [''lib'', ''sinty'']) \<noteq> None \<longrightarrow>
          lookup (root w') (D @ [''lib'', ''sinty'']) = lookup (root w) (D @ [''lib'', ''sinty'']))
     \<and> (valid_volume cfg D E (root w) \<longrightarrow> valid_volume cfg D E (root w'))
     \<and> (\<not> valid_volume cfg D E (root w) \<longrightarrow> e \<noteq> None \<and> root w' = root w)"
proof -
  obtain n n' where r: "passed cfg D E wipe_safe prepared n n' w e w'"
    using wp_runD [OF wp_prepareDataWipe [OF vp pr wf] run] by auto
  then have s: "wipe_safe n n'" by (simp add: passed_def)
  then show ?thesis
    unfolding passed_lookup [OF r]
    using passed_outside [OF r] passed_refused [OF r] passed_wipe_valid [OF vp ap r] boot_safe_kept
    by (auto simp: wipe_safe_def custody_safe_def)
qed

text \<open>C15. The second pass, when it reports success, has left only the boot directory and the
  two markers at the top of a valid volume; wherever it stops it has only deleted, it has kept
  the boot artefacts and the markers, and a valid volume is still valid.\<close>

theorem finishDataWipe_correct:
  assumes vp: "volume_paths cfg D E" and ap: "esp_apart D E" and pr: "present D E (root w)"
    and wf: "wf_tree (root w)" and run: "run_state (finishDataWipe cfg) w = (e, w')"
  shows "(e = None \<longrightarrow> valid_volume cfg D E (root w) \<and>
          (\<forall>c q. lookup (root w') (D @ c # q) \<noteq> None \<longrightarrow> c \<in> {''boot'', dataMarker, installIDMarker}))
     \<and> pruned (root w) (root w')
     \<and> (\<forall>q. \<not> prefix D q \<longrightarrow>
          map_option shallow (lookup (root w') q) = map_option shallow (lookup (root w) q))
     \<and> (\<forall>q \<in> set kept_paths. lookup (root w') (D @ q) = lookup (root w) (D @ q))
     \<and> (valid_volume cfg D E (root w) \<longrightarrow> valid_volume cfg D E (root w'))
     \<and> (\<not> valid_volume cfg D E (root w) \<longrightarrow> e \<noteq> None \<and> root w' = root w)"
proof -
  obtain n n' where r: "passed cfg D E boot_safe finished n n' w e w'"
    using wp_runD [OF wp_finishDataWipe [OF vp pr wf] run] by auto
  then have s: "boot_safe n n'" by (simp add: passed_def)
  have pr': "pruned (root w) (root w')"
    using keeps_run [OF keeps_finishDataWipe _ run, of "root w"] wf by (simp add: only_deletes_def)
  have "c \<in> {''boot'', dataMarker, installIDMarker}" if "e = None" "lookup n' (c # q) \<noteq> None" for c q
    using that r finished_paths(1) [of n "c # q"] by (auto simp: passed_def)
  then show ?thesis
    unfolding passed_lookup [OF r]
    using pr' passed_outside [OF r] passed_refused [OF r] s passed_finish_valid [OF vp ap r _ pr'] boot_safe_kept r
    by (auto simp: passed_def)
qed

section \<open>An installed device\<close>

text \<open>
  A small installation on which the theorems are applied: the data volume is mounted at \<open>/var\<close>,
  the system partition at \<open>/efi\<close>; the volume holds user data, unknown files among the boot
  artefacts, and a key in custody.
\<close>

definition ex_id :: string where
  "ex_id = ''0123456789abcdef0123456789abcdef''"

definition ex_root :: "string \<Rightarrow> inode" where
  "ex_root flag = Dir 1
     [(''var'', Dir 2
        [(''.atom-var'', Reg 2 []),
         (''.atom-install-id'', Reg 2 (ex_id @ ''\<newline>'')),
         (''boot'', Dir 2
            [(''rootfs'', Dir 2
                [(''deployment.json'', Reg 2 ''d''), (''rootfs-active.erofs'', Reg 2 ''r''),
                 (''rootfs-active.hash'', Reg 2 ''h''), (''copy'', Reg 2 ''c'')]),
             (''notes'', Reg 2 ''n'')]),
         (''home'', Dir 2 [(''owner'', Dir 2 [(''letter'', Reg 2 ''secret'')])]),
         (''lib'', Dir 2 [(''sinty'', Dir 2 [(''1000.priv'', Reg 2 ''key'')]), (''apps'', Reg 2 ''a'')])]),
      (''efi'', Dir 3
        [(''state'', Dir 3 [(''install-id'', Reg 3 (ex_id @ ''\<newline>'')), (''unlock-armed'', Reg 3 flag)])])]"

definition ex_cfg :: config where
  "ex_cfg = \<lparr>Iface = ''wlan0'', WALPath = ''/var/boot/wal'', DataDir = ''/var'', RequireMount = True,
     ManifestURL = '''', RevocationURL = '''', RootPub = '''', LoaderImage = '''', LoaderSig = '''',
     Dirs = \<lparr>Rootfs = ''/var/boot/rootfs'', ESP = ''/efi''\<rparr>\<rparr>"

definition ex_world :: "'x \<Rightarrow> string \<Rightarrow> (nat \<Rightarrow> bool) \<Rightarrow> 'x world" where
  "ex_world x flag flt =
     \<lparr>root = ex_root flag, ext = x, tick = 0, fault = flt, rnd = (\<lambda>n. n), events = []\<rparr>"

lemma ex_paths: "volume_paths ex_cfg [''var''] [''efi'']"
  by code_simp

lemma ex_apart: "esp_apart [''var''] [''efi'']"
  by code_simp

lemma ex_present: "present [''var''] [''efi''] (root (ex_world x flag flt))"
  by (simp add: present_def ex_world_def ex_root_def is_dir_def)

lemma ex_wf: "wf_tree (root (ex_world x flag flt))"
  by code_simp

lemma ex_valid: "valid_volume ex_cfg [''var''] [''efi''] (root (ex_world () [] flt))"
  by code_simp

theorem validateDataDir_correct_witness:
  "fst (run_state (validateDataDir ex_cfg) (ex_world () [] (\<lambda>t. False))) = None
   \<and> root (snd (run_state (validateDataDir ex_cfg) (ex_world () [] (\<lambda>t. False)))) = ex_root []"
  using validateDataDir_correct [OF ex_paths ex_present prod.collapse [symmetric], of "()" "[]" "\<lambda>t. False"]
    ex_valid [of "\<lambda>t. False"]
  by (auto simp: ex_world_def)

lemma ex_prepare: "fst (run_state (prepareDataWipe ex_cfg) (ex_world () [] (\<lambda>t. False))) = None"
  by code_simp

theorem prepareDataWipe_success_witness:
  "let w' = snd (run_state (prepareDataWipe ex_cfg) (ex_world () [] (\<lambda>t. False))) in
   lookup (root w') [''var'', ''home''] = None
   \<and> lookup (root w') [''var'', ''lib'', ''sinty''] = Some (Dir 2 [(''1000.priv'', Reg 2 ''key'')])"
proof -
  let ?w = "ex_world () [] (\<lambda>t. False)"
  let ?w' = "snd (run_state (prepareDataWipe ex_cfg) ?w)"
  have "run_state (prepareDataWipe ex_cfg) ?w = (None, ?w')" using ex_prepare by (simp add: prod_eq_iff)
  note ok = prepareDataWipe_success [OF ex_paths ex_present ex_wf this]
  have "\<not> (boot_path [''home''] \<or> custody_path [''home''])" by code_simp
  with ok have "lookup (root ?w') ([''var''] @ [''home'']) = None" by blast
  moreover have "lookup (root ?w) [''var'', ''lib'', ''sinty''] = Some (Dir 2 [(''1000.priv'', Reg 2 ''key'')])"
    by (simp add: ex_world_def ex_root_def)
  ultimately show ?thesis using ok by (simp add: Let_def del: lookup.simps)
qed

text \<open>Call number 30 fails: the pass stops half way, and the volume is still valid.\<close>

lemma ex_prepare_fault: "fst (run_state (prepareDataWipe ex_cfg) (ex_world () [] (\<lambda>t. t = 30))) \<noteq> None"
  by code_simp

theorem prepareDataWipe_crash_safe_witness:
  "let (e, w') = run_state (prepareDataWipe ex_cfg) (ex_world () [] (\<lambda>t. t = 30)) in
   e \<noteq> None \<and> valid_volume ex_cfg [''var''] [''efi''] (root w')"
  using prepareDataWipe_crash_safe [OF ex_paths ex_apart ex_present ex_wf prod.collapse [symmetric],
      of "()" "[]" "\<lambda>t. t = 30"] ex_valid [of "\<lambda>t. t = 30"] ex_prepare_fault
  by (simp add: case_prod_beta)

lemma ex_finish: "fst (run_state (finishDataWipe ex_cfg) (ex_world () [] (\<lambda>t. False))) = None"
  by code_simp

theorem finishDataWipe_correct_witness:
  "lookup (root (snd (run_state (finishDataWipe ex_cfg) (ex_world () [] (\<lambda>t. False)))))
     [''var'', ''lib'', ''sinty''] = None"
proof -
  have n: "''lib'' \<notin> {''boot'', dataMarker, installIDMarker}" by (simp add: wipe_names)
  note ok = finishDataWipe_correct [OF ex_paths ex_apart ex_present ex_wf prod.collapse [symmetric],
      of "()" "[]" "\<lambda>t. False"]
  then have "lookup (root (snd (run_state (finishDataWipe ex_cfg) (ex_world () [] (\<lambda>t. False)))))
     ([''var''] @ [''lib'', ''sinty'']) = None"
    using ex_finish n by blast
  then show ?thesis by simp
qed

end
