(* ===== verification/CryptoSeam.thy ===== *)
theory CryptoSeam
  imports Os
begin

text \<open>
  The seam to the cryptographic agent (\<open>internal/recovery/crypto_seam.go\<close> and
  \<open>crypto_sintykey.go\<close>): six function values that the recovery logic calls, the stubs they start
  with, and the ones that run the program \<open>sintykey\<close>.

  \<open>sintykey\<close> itself is not part of the sources; the call of a program is the parameter
  \<open>exec\<close>, which may do anything to the world.
\<close>

section \<open>The function values\<close>

text \<open>Where Go returns a value and an error, no caller looks at the value when there is an error.\<close>

record 'x seam =
  cryptoReadLockBit :: "('x, gerror + bool) io"
  cryptoReadVerityOff :: "('x, gerror + bool) io"
  cryptoVerifyPIN :: "int \<Rightarrow> string \<Rightarrow> ('x, gerror + bool) io"
  cryptoWipeVar :: "('x, gerror option) io"
  cryptoSetUnlockBit :: "('x, gerror option) io"
  cryptoDisableVerity :: "('x, gerror option) io"

definition errCryptoNotImplemented :: gerror where
  "errCryptoNotImplemented = ErrText ''crypto primitive not implemented''"

text \<open>The values the package starts with.\<close>

definition crypto_stubs :: "'x seam" where
  "crypto_stubs =
     \<lparr>cryptoReadLockBit = return (Inl errCryptoNotImplemented),
      cryptoReadVerityOff = return (Inl errCryptoNotImplemented),
      cryptoVerifyPIN = (\<lambda>_ _. return (Inl errCryptoNotImplemented)),
      cryptoWipeVar = return (Some errCryptoNotImplemented),
      cryptoSetUnlockBit = return (Some errCryptoNotImplemented),
      cryptoDisableVerity = return (Some errCryptoNotImplemented)\<rparr>"

section \<open>The calls\<close>

text \<open>Every call through the seam is recorded with its result.\<close>

definition logged :: "('a \<Rightarrow> event) \<Rightarrow> ('x, 'a) io \<Rightarrow> ('x, 'a) io" where
  "logged ev m = do { a \<leftarrow> m; modify (events_update (\<lambda>es. ev a # es)); return a }"

definition readLockBit :: "'x seam \<Rightarrow> ('x, gerror + bool) io" where
  "readLockBit sm = logged ReadLockBit (cryptoReadLockBit sm)"

definition readVerityOff :: "'x seam \<Rightarrow> ('x, gerror + bool) io" where
  "readVerityOff sm = logged ReadVerityOff (cryptoReadVerityOff sm)"

definition verifyPIN :: "'x seam \<Rightarrow> int \<Rightarrow> string \<Rightarrow> ('x, gerror + bool) io" where
  "verifyPIN sm uid pin = logged (VerifyPIN uid pin) (cryptoVerifyPIN sm uid pin)"

definition wipeVar :: "'x seam \<Rightarrow> ('x, gerror option) io" where
  "wipeVar sm = logged WipeVar (cryptoWipeVar sm)"

definition setUnlockBit :: "'x seam \<Rightarrow> ('x, gerror option) io" where
  "setUnlockBit sm = logged SetUnlockBit (cryptoSetUnlockBit sm)"

definition disableVerity :: "'x seam \<Rightarrow> ('x, gerror option) io" where
  "disableVerity sm = logged DisableVerity (cryptoDisableVerity sm)"

section \<open>sintykey\<close>

text \<open>What running a program gives: its standard output, both outputs together, and the error.\<close>

record proc_result =
  proc_stdout :: string
  proc_combined :: string
  proc_err :: "gerror option"

type_synonym 'x exec = "string list \<Rightarrow> string \<Rightarrow> ('x, proc_result) io"

definition sintykeyReadVerityOff :: "'x exec \<Rightarrow> string \<Rightarrow> ('x, gerror + bool) io" where
  "sintykeyReadVerityOff exec sintykeyBin = do {
     out \<leftarrow> exec [sintykeyBin, ''verity-state''] [];
     case proc_err out of
       Some err \<Rightarrow> return (Inl (Wrap ''sintykey verity-state: '' err))
     | None \<Rightarrow>
         let s = trimSpace (proc_stdout out) in
         if s = ''verity=off'' then return (Inr True)
         else if s = ''verity=on'' then return (Inr False)
         else return (Inl (ErrText ''sintykey verity-state: invalid output''))
   }"

definition sintykeyVerifyPIN :: "'x exec \<Rightarrow> string \<Rightarrow> int \<Rightarrow> string \<Rightarrow> ('x, gerror + bool) io" where
  "sintykeyVerifyPIN exec sintykeyBin uid pin = do {
     out \<leftarrow> exec [sintykeyBin, ''verify-pin'', ''--uid'', itoa uid] (pin @ [CHR 0x0A]);
     case proc_err out of
       None \<Rightarrow> return (Inr True)
     | Some err \<Rightarrow> return (case err of ExitError _ \<Rightarrow> Inr False | _ \<Rightarrow> Inl err)
   }"

definition runSintykey :: "'x exec \<Rightarrow> string \<Rightarrow> string list \<Rightarrow> ('x, gerror option) io" where
  "runSintykey exec sintykeyBin args = do {
     out \<leftarrow> exec (sintykeyBin # args) [];
     return (case proc_err out of
       None \<Rightarrow> None
     | Some err \<Rightarrow> Some (ErrText (''sintykey '' @ join '' '' args @ '': '' @ error_text err @ '': ''
                        @ trimSpace (proc_combined out))))
   }"

text \<open>The loop over the lines of \<open>sintykey lock-state\<close>.\<close>

lemma scan_line_shorter: "scan_line s = Some (l, r) \<Longrightarrow> length r < length s"
  by (auto simp: scan_line_def cut_Some_iff split: option.splits if_splits)

function lockedLine :: "string \<Rightarrow> bool option" where
  "lockedLine inp =
     (case scan_line inp of
        None \<Rightarrow> None
      | Some (text, rest) \<Rightarrow>
          let line = trimSpace text in
          if hasPrefix line ''locked='' then Some (trimPrefix line ''locked='' = ''true'')
          else lockedLine rest)"
  by pat_completeness auto
termination by (relation "measure length") (auto dest: scan_line_shorter)

declare lockedLine.simps [simp del]

definition sintykeyReadLockBit :: "'x exec \<Rightarrow> string \<Rightarrow> ('x, gerror + bool) io" where
  "sintykeyReadLockBit exec sintykeyBin = do {
     out \<leftarrow> exec [sintykeyBin, ''lock-state''] [];
     case proc_err out of
       Some err \<Rightarrow> return (Inl (Wrap ''sintykey lock-state: '' err))
     | None \<Rightarrow>
         return (case lockedLine (proc_stdout out) of
           Some locked \<Rightarrow> Inr locked
         | None \<Rightarrow> Inl (ErrText ''sintykey lock-state: no locked= line in output''))
   }"

definition EnableSintykeyCrypto :: "'x exec \<Rightarrow> string \<Rightarrow> 'x seam" where
  "EnableSintykeyCrypto exec path =
     (let sintykeyBin = (if path \<noteq> [] then path else ''sintykey'') in
      \<lparr>cryptoReadLockBit = sintykeyReadLockBit exec sintykeyBin,
       cryptoReadVerityOff = sintykeyReadVerityOff exec sintykeyBin,
       cryptoVerifyPIN = sintykeyVerifyPIN exec sintykeyBin,
       cryptoWipeVar = runSintykey exec sintykeyBin [''wipe-var''],
       cryptoSetUnlockBit = runSintykey exec sintykeyBin [''set-unlock''],
       cryptoDisableVerity = runSintykey exec sintykeyBin [''disable-verity'']\<rparr>)"

section \<open>What the recovery logic expects of the agent\<close>

text \<open>
  Only \<open>wipe-var\<close> touches files, and only the key-custody directory of the data volume at \<open>D\<close>:
  it may empty or remove it.  The other primitives change the agent's own state only (the TPM).
  None of them knows the call record.
\<close>

definition confined :: "('x, 'a) io \<Rightarrow> bool" where
  "confined m \<longleftrightarrow> (\<forall>w. wp m (\<lambda>_ w'. \<exists>x. w' = w\<lparr>ext := x\<rparr>) w)"

definition custody_dir :: "string list" where
  "custody_dir = [''lib'', ''sinty'']"

definition custody_change :: "string list \<Rightarrow> inode \<Rightarrow> inode \<Rightarrow> bool" where
  "custody_change D r r' \<longleftrightarrow>
     r' = r \<or>
     (\<exists>n v. lookup r (D @ custody_dir) = Some n \<and> r' = put (D @ custody_dir) v r
        \<and> (case v of None \<Rightarrow> True | Some m \<Rightarrow> is_dir (Some m) \<and> wf_tree m))"

lemma events_push:
  "events_update f (w\<lparr>ext := x\<rparr>) = w\<lparr>ext := x, events := f (events w)\<rparr>"
  "events_update f (w\<lparr>ext := x, root := r\<rparr>) = w\<lparr>ext := x, root := r, events := f (events w)\<rparr>"
  by (cases w; simp)+

lemma wp_logged:
  assumes "confined m"
  shows "wp (logged ev m) (\<lambda>a w'. \<exists>x. w' = w\<lparr>ext := x, events := ev a # events w\<rparr>) w"
proof -
  from assms have "wp m (\<lambda>_ w'. \<exists>x. w' = w\<lparr>ext := x\<rparr>) w" by (simp add: confined_def)
  then show ?thesis
    unfolding logged_def wp_bind by (rule wp_mono) (auto simp: wp_simps, blast intro: events_push)
qed

locale crypto_seam =
  fixes D :: "string list" and sm :: "'x seam"
  assumes confined_lock: "confined (cryptoReadLockBit sm)"
    and confined_verity: "confined (cryptoReadVerityOff sm)"
    and confined_pin: "confined (cryptoVerifyPIN sm uid pin)"
    and confined_set: "confined (cryptoSetUnlockBit sm)"
    and confined_disable: "confined (cryptoDisableVerity sm)"
    and wipe_custody:
      "wp (cryptoWipeVar sm) (\<lambda>_ w'. \<exists>x r. w' = w\<lparr>ext := x, root := r\<rparr> \<and> custody_change D (root w) r) w"
begin

lemmas wp_readLockBit = wp_logged [OF confined_lock, of ReadLockBit, folded readLockBit_def]
lemmas wp_readVerityOff = wp_logged [OF confined_verity, of ReadVerityOff, folded readVerityOff_def]
lemmas wp_verifyPIN = wp_logged [OF confined_pin, of "VerifyPIN uid pin" uid pin for uid pin, folded verifyPIN_def]
lemmas wp_setUnlockBit = wp_logged [OF confined_set, of SetUnlockBit, folded setUnlockBit_def]
lemmas wp_disableVerity = wp_logged [OF confined_disable, of DisableVerity, folded disableVerity_def]

lemma wp_wipeVar:
  "wp (wipeVar sm) (\<lambda>a w'. \<exists>x r. w' = w\<lparr>ext := x, root := r, events := WipeVar a # events w\<rparr>
     \<and> custody_change D (root w) r) w"
  unfolding wipeVar_def logged_def wp_bind
  by (rule wp_mono [OF wipe_custody [of w]]) (auto simp: wp_simps, blast intro: events_push)

end

text \<open>The stubs meet the contract.\<close>

lemma ext_same: "w = w\<lparr>ext := ext w\<rparr>" "w = w\<lparr>ext := ext w, root := root w\<rparr>"
  by (cases w; simp)+

lemma confined_return [simp]: "confined (return a)"
  unfolding confined_def wp_return using ext_same(1) by blast

interpretation stubs: crypto_seam D crypto_stubs
proof unfold_locales
  fix w :: "'b world"
  show "wp (cryptoWipeVar crypto_stubs)
      (\<lambda>_ w'. \<exists>x r. w' = w\<lparr>ext := x, root := r\<rparr> \<and> custody_change D (root w) r) w"
    unfolding crypto_stubs_def seam.simps wp_return custody_change_def using ext_same(2) [of w] by blast
qed (simp_all add: crypto_stubs_def)

text \<open>
  \<open>sintykey\<close> as documented: of the subcommands the seam runs, five work on the agent's own state (the
  lock bit, the verity switch, the check of a PIN), and \<open>wipe-var\<close> erases key custody.  Nothing is
  assumed of other subcommands, such as the \<open>change-pin\<close> of the PIN service.  The seam then meets the
  contract.
\<close>

locale sintykey_program =
  fixes D :: "string list" and exec :: "'x exec" and path :: string
  assumes exec_confined:
      "sub \<in> {''lock-state'', ''verity-state'', ''verify-pin'', ''set-unlock'', ''disable-verity''} \<Longrightarrow>
        confined (exec (bin # sub # args) inp)"
    and exec_wipe:
      "wp (exec [bin, ''wipe-var''] []) (\<lambda>_ w'. \<exists>x r. w' = w\<lparr>ext := x, root := r\<rparr> \<and> custody_change D (root w) r) w"

lemma confined_bind: "confined m \<Longrightarrow> (\<And>a. confined (f a)) \<Longrightarrow> confined (m \<bind> f)"
  unfolding confined_def wp_bind by (fastforce elim!: wp_mono)

lemma confined_case_option: "confined m \<Longrightarrow> (\<And>a. confined (f a)) \<Longrightarrow> confined (case x of None \<Rightarrow> m | Some a \<Rightarrow> f a)"
  by (cases x) auto

sublocale sintykey_program \<subseteq> enabled: crypto_seam D "EnableSintykeyCrypto exec path"
proof unfold_locales
  let ?sm = "EnableSintykeyCrypto exec path"
  note defs = EnableSintykeyCrypto_def Let_def sintykeyReadLockBit_def sintykeyReadVerityOff_def
    sintykeyVerifyPIN_def runSintykey_def
  show "confined (cryptoReadLockBit ?sm)" "confined (cryptoReadVerityOff ?sm)"
    "confined (cryptoVerifyPIN ?sm uid pin)" "confined (cryptoSetUnlockBit ?sm)"
    "confined (cryptoDisableVerity ?sm)" for uid pin
    by (simp_all add: defs confined_bind confined_case_option exec_confined)
  fix w
  show "wp (cryptoWipeVar ?sm) (\<lambda>_ w'. \<exists>x r. w' = w\<lparr>ext := x, root := r\<rparr> \<and> custody_change D (root w) r) w"
    using exec_wipe by (simp add: defs wp_bind wp_return)
qed

context sintykey_program
begin

lemmas enabled_seam = enabled.crypto_seam_axioms

end

section \<open>What the agent prints\<close>

text \<open>The lines a scanner delivers.\<close>

function scan_lines :: "string \<Rightarrow> string list" where
  "scan_lines inp = (case scan_line inp of None \<Rightarrow> [] | Some (l, rest) \<Rightarrow> l # scan_lines rest)"
  by pat_completeness auto
termination by (relation "measure length") (auto dest: scan_line_shorter)

declare scan_lines.simps [simp del]

lemma lockedLine_find:
  "lockedLine out = map_option (\<lambda>l. l = ''locked=true'')
     (List.find (\<lambda>l. hasPrefix l ''locked='') (map trimSpace (scan_lines out)))"
proof (induction out rule: lockedLine.induct)
  case (1 inp)
  show ?case
  proof (cases "scan_line inp")
    case None
    then show ?thesis by (subst lockedLine.simps, subst scan_lines.simps) simp
  next
    case (Some p)
    obtain line rest where p: "p = (line, rest)" by (cases p)
    have eq: "(trimPrefix (trimSpace line) ''locked='' = ''true'') = (trimSpace line = ''locked=true'')"
      if h: "hasPrefix (trimSpace line) ''locked=''"
    proof -
      have "trimSpace line = ''locked='' @ drop (length ''locked='') (trimSpace line)"
        using h append_take_drop_id [of "length ''locked=''" "trimSpace line"] unfolding hasPrefix_def by simp
      moreover have "''locked=true'' = ''locked='' @ ''true''" by simp
      ultimately have "(trimSpace line = ''locked=true'') = (drop (length ''locked='') (trimSpace line) = ''true'')"
        by (metis same_append_eq)
      then show ?thesis using h by (simp add: trimPrefix_def)
    qed
    have IH: "lockedLine rest = map_option (\<lambda>l. l = ''locked=true'')
        (List.find (\<lambda>l. hasPrefix l ''locked='') (map trimSpace (scan_lines rest)))"
      if "\<not> hasPrefix (trimSpace line) ''locked=''"
      by (rule 1 [OF Some p [symmetric] refl that])
    show ?thesis
      unfolding lockedLine.simps [of inp] scan_lines.simps [of inp] Some p option.case prod.case Let_def list.map find.simps
      using eq IH by (cases "hasPrefix (trimSpace line) ''locked=''") simp_all
  qed
qed

text \<open>C24. The answer of \<open>sintykey lock-state\<close>: the first line of the output that begins with
  \<open>locked=\<close>, ignoring space around it, decides; the device counts as locked if it is exactly
  \<open>locked=true\<close>.  A failing program and an output without such a line are errors.\<close>

theorem sintykeyReadLockBit_correct:
  "run_state (sintykeyReadLockBit exec bin) w =
     (let (out, w') = run_state (exec [bin, ''lock-state''] []) w in
      (case proc_err out of
         Some err \<Rightarrow> Inl (Wrap ''sintykey lock-state: '' err)
       | None \<Rightarrow> (case List.find (\<lambda>l. hasPrefix l ''locked='') (map trimSpace (scan_lines (proc_stdout out))) of
           None \<Rightarrow> Inl (ErrText ''sintykey lock-state: no locked= line in output'')
         | Some l \<Rightarrow> Inr (l = ''locked=true'')), w'))"
  by (simp add: sintykeyReadLockBit_def lockedLine_find split: prod.split option.split)

text \<open>Verity is off and a PIN accepted exactly on the documented answers; the PIN goes to standard input.\<close>

lemma sintykey_answers:
  "(fst (run_state (sintykeyReadVerityOff exec bin) w) = Inr True \<longleftrightarrow>
      (let out = fst (run_state (exec [bin, ''verity-state''] []) w) in
       proc_err out = None \<and> trimSpace (proc_stdout out) = ''verity=off''))
   \<and> (fst (run_state (sintykeyVerifyPIN exec bin uid pin) w) = Inr True \<longleftrightarrow>
      proc_err (fst (run_state (exec [bin, ''verify-pin'', ''--uid'', itoa uid] (pin @ ''\<newline>'')) w)) = None)"
  by (simp add: sintykeyReadVerityOff_def sintykeyVerifyPIN_def Let_def case_prod_beta
      split: option.split gerror.split)

end
