(* ===== verification/Json.thy ===== *)
theory Json
  imports GoStrings
begin

text \<open>
  The part of Go's \<open>encoding/json\<close> that the program uses: \<open>json.Unmarshal\<close> and
  \<open>json.NewDecoder(..).Decode\<close> into structs of booleans, integers and strings, and
  \<open>json.Marshal\<close> of such structs.  A string is its bytes.

  As in the library, a value is first scanned and only then stored: the scanner knows the
  grammar (including the limit of 10000 on nesting), and string literals are unquoted later.  The
  recursion of the parser is bounded by fuel that every input leaves unused
  (\<open>json_value\<close> passes twice the length of the input).
\<close>

section \<open>Bytes and runes\<close>

abbreviation code :: "char \<Rightarrow> nat" where
  "code c \<equiv> of_char c"

definition in_range :: "nat \<Rightarrow> nat \<Rightarrow> char \<Rightarrow> bool" where
  "in_range lo hi c \<longleftrightarrow> lo \<le> code c \<and> code c \<le> hi"

abbreviation cont :: "char \<Rightarrow> bool" where
  "cont \<equiv> in_range 128 191"

text \<open>
  The length of the UTF-8 encoding at the front of a byte string; 0 when there is none
  (\<open>utf8.DecodeRune\<close> then reports \<open>RuneError\<close> with width 1).
\<close>

fun rune_len :: "string \<Rightarrow> nat" where
  "rune_len [] = 0"
| "rune_len (a # s) =
     (if code a < 128 then 1
      else if in_range 194 223 a then (case s of b # _ \<Rightarrow> if cont b then 2 else 0 | _ \<Rightarrow> 0)
      else if in_range 224 239 a then
        (case s of b # c # _ \<Rightarrow>
           if in_range (if code a = 224 then 160 else 128) (if code a = 237 then 159 else 191) b \<and> cont c
           then 3 else 0
         | _ \<Rightarrow> 0)
      else if in_range 240 244 a then
        (case s of b # c # d # _ \<Rightarrow>
           if in_range (if code a = 240 then 144 else 128) (if code a = 244 then 143 else 191) b
              \<and> cont c \<and> cont d
           then 4 else 0
         | _ \<Rightarrow> 0)
      else 0)"

text \<open>\<open>utf8.AppendRune\<close> for a valid code point.\<close>

definition encode_rune :: "nat \<Rightarrow> string" where
  "encode_rune r =
     (if r < 128 then [char_of r]
      else if r < 2048 then [char_of (192 + r div 64), char_of (128 + r mod 64)]
      else if r < 65536 then
        [char_of (224 + r div 4096), char_of (128 + r div 64 mod 64), char_of (128 + r mod 64)]
      else [char_of (240 + r div 262144), char_of (128 + r div 4096 mod 64),
            char_of (128 + r div 64 mod 64), char_of (128 + r mod 64)])"

text \<open>The replacement character U+FFFD.\<close>

definition rune_error :: string where
  "rune_error = [CHR 0xEF, CHR 0xBF, CHR 0xBD]"

definition hex_val :: "char \<Rightarrow> nat option" where
  "hex_val c =
     (if in_range 48 57 c then Some (code c - 48)
      else if in_range 97 102 c then Some (code c - 87)
      else if in_range 65 70 c then Some (code c - 55)
      else None)"

definition is_hex :: "char \<Rightarrow> bool" where
  "is_hex c \<longleftrightarrow> hex_val c \<noteq> None"

text \<open>\<open>getu4\<close>: the value of a \<open>\uXXXX\<close> escape at the front of the string.\<close>

fun getu4 :: "string \<Rightarrow> nat option" where
  "getu4 (x # y # a # b # c # d # s) =
     (if x = CHR 0x5C \<and> y = CHR ''u'' then
        (case (hex_val a, hex_val b, hex_val c, hex_val d) of
           (Some i, Some j, Some k, Some l) \<Rightarrow> Some (4096 * i + 256 * j + 16 * k + l)
         | _ \<Rightarrow> None)
      else None)"
| "getu4 _ = None"

section \<open>Scanning\<close>

datatype json =
    JNull
  | JBool bool
  | JNum string
  | JStr string
  | JArr "json list"
  | JObj "(string \<times> json) list"

definition skip_ws :: "string \<Rightarrow> string" where
  "skip_ws s = dropWhile (\<lambda>c. c = CHR '' '' \<or> c = CHR 0x09 \<or> c = CHR 0x0A \<or> c = CHR 0x0D) s"

text \<open>The raw contents of a string literal, from behind the opening quote to the closing one.\<close>

fun scan_string :: "string \<Rightarrow> (string \<times> string) option" where
  "scan_string [] = None"
| "scan_string (c # s) =
     (if c = CHR 0x22 then Some ([], s)
      else if c = CHR 0x5C then
        (case s of
           [] \<Rightarrow> None
         | e # s1 \<Rightarrow>
             if e = CHR ''u'' then
               (case s1 of
                  h1 # h2 # h3 # h4 # s2 \<Rightarrow>
                    if is_hex h1 \<and> is_hex h2 \<and> is_hex h3 \<and> is_hex h4
                    then map_option (\<lambda>(l, r). (c # e # h1 # h2 # h3 # h4 # l, r)) (scan_string s2)
                    else None
                | _ \<Rightarrow> None)
             else if List.member (CHR 0x22 # CHR 0x5C # ''/bfnrt'') e
             then map_option (\<lambda>(l, r). (c # e # l, r)) (scan_string s1)
             else None)
      else if code c < 32 then None
      else map_option (\<lambda>(l, r). (c # l, r)) (scan_string s))"

definition digits :: "string \<Rightarrow> string \<times> string" where
  "digits s = (takeWhile is_digit s, dropWhile is_digit s)"

text \<open>A number literal: the scanner takes the fraction and the exponent when they are there.\<close>

definition scan_int :: "string \<Rightarrow> (string \<times> string) option" where
  "scan_int s =
     (case s of
        [] \<Rightarrow> None
      | c # r \<Rightarrow>
          if c = CHR ''0'' then Some ([c], r)
          else if is_digit c then Some (digits s)
          else None)"

definition scan_frac :: "string \<Rightarrow> (string \<times> string) option" where
  "scan_frac s =
     (if hasPrefix s ''.'' then
        (case digits (tl s) of (d, r) \<Rightarrow> if d = [] then None else Some (CHR ''.'' # d, r))
      else Some ([], s))"

definition scan_exp :: "string \<Rightarrow> (string \<times> string) option" where
  "scan_exp s =
     (if hasPrefix s ''e'' \<or> hasPrefix s ''E'' then
        (let s1 = tl s;
             sg = (if hasPrefix s1 ''+'' \<or> hasPrefix s1 ''-'' then take 1 s1 else [])
         in case digits (drop (length sg) s1) of
              (d, r) \<Rightarrow> if d = [] then None else Some (hd s # sg @ d, r))
      else Some ([], s))"

definition scan_number :: "string \<Rightarrow> (string \<times> string) option" where
  "scan_number s =
     (let sg = (if hasPrefix s ''-'' then ''-'' else []) in
      case scan_int (drop (length sg) s) of
        None \<Rightarrow> None
      | Some (i, r1) \<Rightarrow> (case scan_frac r1 of
           None \<Rightarrow> None
         | Some (f, r2) \<Rightarrow> (case scan_exp r2 of
              None \<Rightarrow> None
            | Some (e, r3) \<Rightarrow> Some (sg @ i @ f @ e, r3))))"

section \<open>Unquoting\<close>

text \<open>A byte sequence that is not UTF-8 becomes U+FFFD, byte by byte; so does half a surrogate pair.\<close>

function unquote :: "string \<Rightarrow> string" where
  "unquote [] = []"
| "unquote (c # s) =
     (if c = CHR 0x5C then
        (case s of
           [] \<Rightarrow> []
         | e # s1 \<Rightarrow>
             if e = CHR ''u'' then
               (case getu4 (c # s) of
                  None \<Rightarrow> unquote s1
                | Some r \<Rightarrow>
                    if 55296 \<le> r \<and> r < 57344 then
                      (case getu4 (drop 5 s) of
                         Some r2 \<Rightarrow>
                           if r < 56320 \<and> 56320 \<le> r2 \<and> r2 < 57344
                           then encode_rune (65536 + (r - 55296) * 1024 + (r2 - 56320)) @ unquote (drop 11 s)
                           else rune_error @ unquote (drop 5 s)
                       | None \<Rightarrow> rune_error @ unquote (drop 5 s))
                    else encode_rune r @ unquote (drop 5 s))
             else (if e = CHR ''b'' then CHR 0x08 else if e = CHR ''f'' then CHR 0x0C
                   else if e = CHR ''n'' then CHR 0x0A else if e = CHR ''r'' then CHR 0x0D
                   else if e = CHR ''t'' then CHR 0x09 else e) # unquote s1)
      else if code c < 128 then c # unquote s
      else (case rune_len (c # s) of
              0 \<Rightarrow> rune_error @ unquote s
            | Suc k \<Rightarrow> c # take k s @ unquote (drop k s)))"
  by pat_completeness auto
termination by (relation "measure length") auto

section \<open>Values\<close>

definition max_depth :: nat where
  "max_depth = 10000"

text \<open>
  \<open>json_val\<close> takes a value from the front of its input; \<open>json_members\<close> and \<open>json_elems\<close> take the
  rest of an object or array up to its closing bracket.  \<open>d\<close> is the number of brackets open.
\<close>

fun json_val :: "nat \<Rightarrow> nat \<Rightarrow> string \<Rightarrow> (json \<times> string) option"
  and json_members :: "nat \<Rightarrow> nat \<Rightarrow> string \<Rightarrow> ((string \<times> json) list \<times> string) option"
  and json_elems :: "nat \<Rightarrow> nat \<Rightarrow> string \<Rightarrow> (json list \<times> string) option" where
  "json_val 0 d inp = None"
| "json_val (Suc n) d inp =
     (case skip_ws inp of
        [] \<Rightarrow> None
      | c # s \<Rightarrow>
          if c = CHR ''{'' then
            (if max_depth \<le> d then None
             else if hasPrefix (skip_ws s) ''}'' then Some (JObj [], tl (skip_ws s))
             else map_option (\<lambda>(ms, r). (JObj ms, r)) (json_members n (Suc d) s))
          else if c = CHR ''['' then
            (if max_depth \<le> d then None
             else if hasPrefix (skip_ws s) '']'' then Some (JArr [], tl (skip_ws s))
             else map_option (\<lambda>(vs, r). (JArr vs, r)) (json_elems n (Suc d) s))
          else if c = CHR 0x22 then map_option (\<lambda>(l, r). (JStr (unquote l), r)) (scan_string s)
          else if hasPrefix (c # s) ''true'' then Some (JBool True, drop 4 (c # s))
          else if hasPrefix (c # s) ''false'' then Some (JBool False, drop 5 (c # s))
          else if hasPrefix (c # s) ''null'' then Some (JNull, drop 4 (c # s))
          else map_option (\<lambda>(l, r). (JNum l, r)) (scan_number (c # s)))"
| "json_members 0 d inp = None"
| "json_members (Suc n) d inp =
     (case skip_ws inp of
        [] \<Rightarrow> None
      | c # s \<Rightarrow>
          if c \<noteq> CHR 0x22 then None
          else (case scan_string s of
             None \<Rightarrow> None
           | Some (l, s1) \<Rightarrow>
               if \<not> hasPrefix (skip_ws s1) '':'' then None
               else (case json_val n d (tl (skip_ws s1)) of
                  None \<Rightarrow> None
                | Some (v, s2) \<Rightarrow>
                    (case skip_ws s2 of
                       [] \<Rightarrow> None
                     | e # s3 \<Rightarrow>
                         if e = CHR ''}'' then Some ([(unquote l, v)], s3)
                         else if e = CHR '','' then
                           map_option (\<lambda>(ms, r). ((unquote l, v) # ms, r)) (json_members n d s3)
                         else None))))"
| "json_elems 0 d inp = None"
| "json_elems (Suc n) d inp =
     (case json_val n d inp of
        None \<Rightarrow> None
      | Some (v, s2) \<Rightarrow>
          (case skip_ws s2 of
             [] \<Rightarrow> None
           | e # s3 \<Rightarrow>
               if e = CHR '']'' then Some ([v], s3)
               else if e = CHR '','' then map_option (\<lambda>(vs, r). (v # vs, r)) (json_elems n d s3)
               else None))"

definition json_value :: "string \<Rightarrow> (json \<times> string) option" where
  "json_value s = json_val (2 * length s + 2) 0 s"

text \<open>\<open>json.Unmarshal\<close> reads one value with nothing but blanks behind it.\<close>

definition json_parse :: "string \<Rightarrow> json option" where
  "json_parse s =
     (case json_value s of
        None \<Rightarrow> None
      | Some (v, r) \<Rightarrow> if skip_ws r = [] then Some v else None)"

text \<open>
  A \<open>Decoder\<close> on a request body cut off after \<open>lim\<close> bytes (\<open>http.MaxBytesReader\<close>): it stops
  behind the first value and ignores what follows.  A value that is not an object or array is
  complete only when the next byte, or the end of the body, has been seen.
\<close>

definition json_decode_body :: "nat \<Rightarrow> string \<Rightarrow> json option" where
  "json_decode_body lim s =
     (case json_value (take lim s) of
        None \<Rightarrow> None
      | Some (v, r) \<Rightarrow>
          (case v of
             JObj _ \<Rightarrow> Some v
           | JArr _ \<Rightarrow> Some v
           | _ \<Rightarrow> if r = [] \<and> lim < length s then None else Some v))"

section \<open>Storing into a struct\<close>

text \<open>
  A struct is described by its fields: the name of the tag and how a value is stored.  A value of
  the wrong type is an error, \<open>null\<close> leaves the field alone, an unknown key is skipped, and of
  several equal keys the last one counts.
\<close>

type_synonym 'a field = "string \<times> ('a \<Rightarrow> json \<Rightarrow> 'a option)"

text \<open>
  Keys are compared without case.  Besides the ASCII letters only two runes fold to ASCII: the
  long s (U+017F) and the Kelvin sign (U+212A).
\<close>

fun fold_name :: "string \<Rightarrow> string" where
  "fold_name [] = []"
| "fold_name (c # s) =
     (if hasPrefix (c # s) [CHR 0xC5, CHR 0xBF] then CHR ''S'' # fold_name (drop 1 s)
      else if hasPrefix (c # s) [CHR 0xE2, CHR 0x84, CHR 0xAA] then CHR ''K'' # fold_name (drop 2 s)
      else (if in_range 97 122 c then char_of (code c - 32) else c) # fold_name s)"

definition find_field :: "'a field list \<Rightarrow> string \<Rightarrow> ('a \<Rightarrow> json \<Rightarrow> 'a option) option" where
  "find_field fs k =
     (case map_of fs k of
        Some st \<Rightarrow> Some st
      | None \<Rightarrow> map_option snd (find (\<lambda>f. fold_name (fst f) = fold_name k) fs))"

fun store_members :: "'a field list \<Rightarrow> 'a \<Rightarrow> (string \<times> json) list \<Rightarrow> 'a option" where
  "store_members fs x [] = Some x"
| "store_members fs x ((k, v) # ms) =
     (case find_field fs k of
        None \<Rightarrow> store_members fs x ms
      | Some st \<Rightarrow> (case st x v of None \<Rightarrow> None | Some y \<Rightarrow> store_members fs y ms))"

definition store_struct :: "'a field list \<Rightarrow> 'a \<Rightarrow> json \<Rightarrow> 'a option" where
  "store_struct fs x v =
     (case v of
        JNull \<Rightarrow> Some x
      | JObj ms \<Rightarrow> store_members fs x ms
      | _ \<Rightarrow> None)"

definition store_bool :: "(bool \<Rightarrow> 'a \<Rightarrow> 'a) \<Rightarrow> 'a \<Rightarrow> json \<Rightarrow> 'a option" where
  "store_bool upd x v = (case v of JNull \<Rightarrow> Some x | JBool b \<Rightarrow> Some (upd b x) | _ \<Rightarrow> None)"

definition store_string :: "(string \<Rightarrow> 'a \<Rightarrow> 'a) \<Rightarrow> 'a \<Rightarrow> json \<Rightarrow> 'a option" where
  "store_string upd x v = (case v of JNull \<Rightarrow> Some x | JStr s \<Rightarrow> Some (upd s x) | _ \<Rightarrow> None)"

definition store_int :: "(int \<Rightarrow> 'a \<Rightarrow> 'a) \<Rightarrow> 'a \<Rightarrow> json \<Rightarrow> 'a option" where
  "store_int upd x v =
     (case v of
        JNull \<Rightarrow> Some x
      | JNum l \<Rightarrow> (case atoi l of (i, None) \<Rightarrow> Some (upd i x) | (i, Some e) \<Rightarrow> None)
      | _ \<Rightarrow> None)"

section \<open>Printing\<close>

definition hex_digit :: "nat \<Rightarrow> char" where
  "hex_digit n = (''0123456789abcdef'' ! n)"

text \<open>\<open>appendString\<close> with HTML escaping, as \<open>json.Marshal\<close> uses it.\<close>

function quote_body :: "string \<Rightarrow> string" where
  "quote_body [] = []"
| "quote_body (c # s) =
     (if code c < 128 then
        (if c = CHR 0x22 \<or> c = CHR 0x5C then [CHR 0x5C, c]
         else if c = CHR 0x08 then [CHR 0x5C, CHR ''b''] else if c = CHR 0x0C then [CHR 0x5C, CHR ''f'']
         else if c = CHR 0x0A then [CHR 0x5C, CHR ''n''] else if c = CHR 0x0D then [CHR 0x5C, CHR ''r'']
         else if c = CHR 0x09 then [CHR 0x5C, CHR ''t'']
         else if code c < 32 \<or> c = CHR ''<'' \<or> c = CHR ''>'' \<or> c = CHR ''&'' then
           CHR 0x5C # ''u00'' @ [hex_digit (code c div 16), hex_digit (code c mod 16)]
         else [c]) @ quote_body s
      else (case rune_len (c # s) of
              0 \<Rightarrow> CHR 0x5C # ''ufffd'' @ quote_body s
            | Suc k \<Rightarrow>
                if c # take k s = [CHR 0xE2, CHR 0x80, CHR 0xA8] then CHR 0x5C # ''u2028'' @ quote_body (drop k s)
                else if c # take k s = [CHR 0xE2, CHR 0x80, CHR 0xA9] then CHR 0x5C # ''u2029'' @ quote_body (drop k s)
                else c # take k s @ quote_body (drop k s)))"
  by pat_completeness auto
termination by (relation "measure length") auto

definition quote :: "string \<Rightarrow> string" where
  "quote s = CHR 0x22 # quote_body s @ [CHR 0x22]"

definition print_bool :: "bool \<Rightarrow> string" where
  "print_bool b = (if b then ''true'' else ''false'')"

text \<open>The members of an object, with their keys, joined by commas.\<close>

definition print_object :: "(string \<times> string) list \<Rightarrow> string" where
  "print_object ms = ''{'' @ join '','' (map (\<lambda>(k, v). quote k @ '':'' @ v) ms) @ ''}''"

section \<open>The fuel suffices\<close>

lemma length_skip_ws: "length (skip_ws s) \<le> length s"
  by (simp add: skip_ws_def length_dropWhile_le)

lemma skip_ws_Cons: "skip_ws s = c # r \<Longrightarrow> length r < length s"
  using length_skip_ws [of s] by simp

lemma length_scan_string: "scan_string s = Some (l, r) \<Longrightarrow> length r < length s"
  by (induction s arbitrary: l r rule: scan_string.induct)
    (fastforce split: if_splits list.splits)+

lemma length_digits: "digits s = (d, r) \<Longrightarrow> length d + length r = length s"
  by (auto simp: digits_def) (metis length_append takeWhile_dropWhile_id)

lemma length_scan_int: "scan_int s = Some (i, r) \<Longrightarrow> length r < length s"
  by (auto simp: scan_int_def digits_def length_dropWhile_le less_Suc_eq_le split: list.splits if_splits)

lemma length_scan_frac: "scan_frac s = Some (i, r) \<Longrightarrow> length r \<le> length s"
  by (cases s) (auto simp: scan_frac_def digits_def le_SucI length_dropWhile_le split: if_splits)

lemma length_scan_exp: "scan_exp s = Some (i, r) \<Longrightarrow> length r \<le> length s"
  by (auto simp: scan_exp_def Let_def split: if_splits prod.splits dest!: length_digits)

lemma length_scan_number: "scan_number s = Some (l, r) \<Longrightarrow> length r < length s"
  by (auto simp: scan_number_def Let_def split: option.splits if_splits
      dest!: length_scan_int length_scan_frac length_scan_exp) linarith

lemma json_rest:
  "json_val n d s = Some (v, r) \<Longrightarrow> length r < length s"
  "json_members n d s = Some (ms, r) \<Longrightarrow> length r < length s"
  "json_elems n d s = Some (vs, r) \<Longrightarrow> length r < length s"
proof (induction n d s and n d s and n d s arbitrary: v r and ms r and vs r
    rule: json_val_json_members_json_elems.induct)
  case (2 n d inp)
  obtain c s where ws: "skip_ws inp = c # s" using "2.prems" by (auto split: list.splits)
  note l = skip_ws_Cons [OF ws] 
  have t: "length (tl (skip_ws s)) \<le> length s" using length_skip_ws [of s] by simp
  show ?case
    using "2.prems" ws l t "2.IH" [OF ws]
    by (auto split: if_splits dest!: length_scan_string length_scan_number)
next
  case (4 n d inp)
  obtain c s where ws: "skip_ws inp = c # s" using "4.prems" by (auto split: list.splits)
  obtain l s1 where sc: "scan_string s = Some (l, s1)" and col: "hasPrefix (skip_ws s1) '':''"
      and c: "\<not> c \<noteq> CHR 0x22"
    using "4.prems" ws by (auto split: if_splits option.splits)
  let ?s = "tl (skip_ws s1)"
  obtain v s2 where v: "json_val n d ?s = Some (v, s2)"
    using "4.prems" ws sc col c by (auto split: option.splits)
  obtain e s3 where ws2: "skip_ws s2 = e # s3" using "4.prems" ws sc col c v by (auto split: list.splits)
  have "length s3 < length inp"
    using skip_ws_Cons [OF ws] length_scan_string [OF sc] length_skip_ws [of s1] skip_ws_Cons [OF ws2]
      "4.IH"(1) [OF ws c sc refl _ v] col
    by (simp)
  then show ?case
    using "4.prems" ws sc col c v ws2 "4.IH"(2) [OF ws c sc refl _ v refl ws2]
    by (fastforce split: if_splits)
next
  case (6 n d inp)
  obtain v s2 where v: "json_val n d inp = Some (v, s2)" using "6.prems" by (auto split: option.splits)
  obtain e s3 where ws2: "skip_ws s2 = e # s3" using "6.prems" v by (auto split: list.splits)
  have "length s3 < length inp" using skip_ws_Cons [OF ws2] "6.IH"(1) [OF v] by simp
  then show ?case
    using "6.prems" v ws2 "6.IH"(2) [OF v refl ws2] by (fastforce split: if_splits)
qed auto

lemma json_fuel:
  "2 * length s + 1 \<le> n \<Longrightarrow> 2 * length s + 1 \<le> m \<Longrightarrow> json_val n d s = json_val m d s"
  "2 * length s + 2 \<le> n \<Longrightarrow> 2 * length s + 2 \<le> m \<Longrightarrow> json_members n d s = json_members m d s"
  "2 * length s + 2 \<le> n \<Longrightarrow> 2 * length s + 2 \<le> m \<Longrightarrow> json_elems n d s = json_elems m d s"
proof (induction n d s and n d s and n d s arbitrary: m and m and m
    rule: json_val_json_members_json_elems.induct)
  case (2 n d inp)
  from "2.prems" obtain k where m: "m = Suc k" by (cases m) auto
  show ?case
  proof (cases "skip_ws inp")
    case (Cons c s)
    have b: "2 * length s + 2 \<le> n" "2 * length s + 2 \<le> k"
      using skip_ws_Cons [OF Cons] "2.prems" m by simp_all
    have "json_members n (Suc d) s = json_members k (Suc d) s"
      if "c = CHR ''{''" "\<not> max_depth \<le> d" "\<not> hasPrefix (skip_ws s) ''}''"
      by (rule "2.IH"(1) [OF Cons that b])
    moreover have "json_elems n (Suc d) s = json_elems k (Suc d) s"
      if "c \<noteq> CHR ''{''" "c = CHR ''[''" "\<not> max_depth \<le> d" "\<not> hasPrefix (skip_ws s) '']''"
      by (rule "2.IH"(2) [OF Cons that b])
    ultimately show ?thesis by (simp add: m Cons)
  qed (simp add: m)
next
  case (4 n d inp)
  from "4.prems" obtain k where m: "m = Suc k" by (cases m) auto
  show ?case
  proof (cases "skip_ws inp")
    case (Cons c s)
    show ?thesis
    proof (cases "\<not> c \<noteq> CHR 0x22 \<and> (\<exists>l s1. scan_string s = Some (l, s1) \<and> hasPrefix (skip_ws s1) '':'')")
      case True
      then obtain l s1 where c: "\<not> c \<noteq> CHR 0x22" and sc: "scan_string s = Some (l, s1)"
          and col: "\<not> \<not> hasPrefix (skip_ws s1) '':''" by auto
      have b: "2 * length (tl (skip_ws s1)) + 1 \<le> n" "2 * length (tl (skip_ws s1)) + 1 \<le> k"
          "length (tl (skip_ws s1)) < length inp"
        using skip_ws_Cons [OF Cons] length_scan_string [OF sc] length_skip_ws [of s1] "4.prems" m by simp_all
      note v = "4.IH"(1) [OF Cons c sc refl col b(1,2)]
      have "json_members n d s3 = json_members k d s3"
        if x: "json_val n d (tl (skip_ws s1)) = Some (x, s2)" and e: "skip_ws s2 = e # s3"
          and e': "e \<noteq> CHR ''}''" "e = CHR '',''" for x s2 e s3
        using skip_ws_Cons [OF e] json_rest(1) [OF x] b "4.prems" m
        by (intro "4.IH"(2) [OF Cons c sc refl col x refl e e']) simp_all
      note rest = this
      have l: "json_members (Suc j) d inp = (case json_val j d (tl (skip_ws s1)) of None \<Rightarrow> None
          | Some (x, s2) \<Rightarrow> (case skip_ws s2 of [] \<Rightarrow> None | e # s3 \<Rightarrow>
              if e = CHR ''}'' then Some ([(unquote l, x)], s3)
              else if e = CHR '','' then map_option (\<lambda>(ms, r). ((unquote l, x) # ms, r)) (json_members j d s3)
              else None))" for j
        using Cons c sc col by simp
      show ?thesis
      proof (cases "json_val n d (tl (skip_ws s1))")
        case None
        then show ?thesis unfolding m l v [symmetric] by simp
      next
        case (Some a)
        obtain x s2 where a: "a = (x, s2)" by fastforce
        show ?thesis
          unfolding m l v [symmetric] Some a option.case prod.case
          using rest [OF Some [unfolded a]] by (cases "skip_ws s2") simp_all
      qed
    qed (auto simp: m Cons split: option.splits)
  qed (simp add: m)
next
  case (6 n d inp)
  from "6.prems" obtain k where m: "m = Suc k" by (cases m) auto
  have b: "2 * length inp + 1 \<le> n" "2 * length inp + 1 \<le> k" using "6.prems" m by simp_all
  note v = "6.IH"(1) [OF b]
  have "json_elems n d s3 = json_elems k d s3"
    if x: "json_val n d inp = Some (x, s2)" and e: "skip_ws s2 = e # s3"
      and e': "e \<noteq> CHR '']''" "e = CHR '',''" for x s2 e s3
    using skip_ws_Cons [OF e] json_rest(1) [OF x] b "6.prems" m
    by (intro "6.IH"(2) [OF x refl e e']) simp_all
  note rest = this
  show ?case
  proof (cases "json_val n d inp")
    case None
    then show ?thesis unfolding m json_elems.simps v [symmetric] by simp
  next
    case (Some a)
    obtain x s2 where a: "a = (x, s2)" by fastforce
    show ?thesis
      unfolding m json_elems.simps v [symmetric] Some a option.case prod.case
      using rest [OF Some [unfolded a]] by (cases "skip_ws s2") simp_all
  qed
qed simp_all

text \<open>More fuel than \<open>json_value\<close> passes changes nothing.\<close>

lemma json_value_fuel: "2 * length s + 2 \<le> n \<Longrightarrow> json_val n 0 s = json_value s"
  unfolding json_value_def by (rule json_fuel) simp_all

section \<open>Printing and reading\<close>

text \<open>Characters that are printed as they are.\<close>

definition json_plain :: "char \<Rightarrow> bool" where
  "json_plain c \<longleftrightarrow> 32 \<le> code c \<and> code c < 128 \<and> \<not> List.member (CHR 0x22 # CHR 0x5C # ''<>&'') c"

lemma json_plain_neq:
  "json_plain c \<Longrightarrow> c \<noteq> CHR 0x22 \<and> c \<noteq> CHR 0x5C \<and> c \<noteq> CHR ''<'' \<and> c \<noteq> CHR ''>'' \<and> c \<noteq> CHR ''&''
    \<and> 32 \<le> code c \<and> code c < 128"
  by (auto simp: json_plain_def)

lemma scan_plain: "list_all json_plain k \<Longrightarrow> scan_string (k @ CHR 0x22 # s) = Some (k, s)"
  by (induction k) (auto dest: json_plain_neq)

lemma unquote_plain: "list_all json_plain k \<Longrightarrow> unquote k = k"
  by (induction k) (auto dest: json_plain_neq)

lemma quote_body_plain: "json_plain c \<Longrightarrow> quote_body (c # k) = c # quote_body k"
proof -
  assume c: "json_plain c"
  have "c \<noteq> CHR 0x08" "c \<noteq> CHR 0x09" "c \<noteq> CHR 0x0A" "c \<noteq> CHR 0x0C" "c \<noteq> CHR 0x0D"
    using c unfolding json_plain_def by fastforce+
  then show ?thesis using json_plain_neq [OF c] unfolding quote_body.simps by simp
qed

lemma quote_plain: "list_all json_plain k \<Longrightarrow> quote k = CHR 0x22 # k @ [CHR 0x22]"
proof -
  have "list_all json_plain k \<Longrightarrow> quote_body k = k"
    by (induction k) (simp_all add: quote_body_plain del: quote_body.simps(2))
  then show "list_all json_plain k \<Longrightarrow> ?thesis" by (simp add: quote_def)
qed

text \<open>
  \<open>prints t v\<close>: the text \<open>t\<close> is read back as the value \<open>v\<close>, in front of anything that may
  follow a member of an object.
\<close>

definition prints :: "string \<Rightarrow> json \<Rightarrow> bool" where
  "prints t v \<longleftrightarrow>
     (\<forall>n d r. r \<noteq> [] \<and> (hd r = CHR '','' \<or> hd r = CHR ''}'') \<longrightarrow> json_val (Suc n) d (t @ r) = Some (v, r))"

lemma skip_ws_id: "s = [] \<or> \<not> List.member (CHR '' '' # [CHR 0x09, CHR 0x0A, CHR 0x0D]) (hd s) \<Longrightarrow> skip_ws s = s"
  by (cases s) (auto simp: skip_ws_def)

lemma prints_bool: "prints (print_bool b) (JBool b)"
  by (cases b) (simp_all add: prints_def print_bool_def skip_ws_id)

lemma prints_string: "list_all json_plain s \<Longrightarrow> prints (quote s) (JStr s)"
  by (simp add: prints_def quote_plain skip_ws_id scan_plain unquote_plain)

lemma digits_stop:
  "list_all is_digit t \<Longrightarrow> r = [] \<or> \<not> is_digit (hd r) \<Longrightarrow> digits (t @ r) = (t, r)"
  by (cases r) (auto simp: digits_def list_all_iff takeWhile_append)

lemma utoa_0: "hd (utoa n) = CHR ''0'' \<Longrightarrow> n = 0"
proof (induction n rule: utoa.induct)
  case (1 n)
  show ?case
  proof (cases "n < 10")
    case True
    with "1.prems" have "char_of (48 + n) = CHR ''0''" by (simp add: utoa.simps [of n])
    then have "of_char (char_of (48 + n) :: char) = (48 :: nat)" by simp
    with True show ?thesis by simp
  next
    case False
    with 1 have "n div 10 = 0" by (simp add: utoa.simps [of n])
    with False show ?thesis by simp
  qed
qed

lemma scan_int_utoa:
  assumes "r \<noteq> []" and "\<not> is_digit (hd r)"
  shows "scan_int (utoa n @ r) = Some (utoa n, r)"
proof (cases "n = 0")
  case True
  have "char_of (48 :: nat) = CHR ''0''" by code_simp
  with True show ?thesis by (simp add: scan_int_def utoa.simps [of 0])
next
  case False
  obtain c t where u: "utoa n = c # t" by (cases "utoa n") auto
  have d: "list_all is_digit (utoa n)" by (auto simp: list_all_iff intro: utoa_digits)
  with False show ?thesis
    using utoa_0 [of n] digits_stop [OF d, of r] assms u by (auto simp: scan_int_def)
qed

lemma scan_number_itoa:
  assumes "r \<noteq> []" and "hd r = CHR '','' \<or> hd r = CHR ''}''"
  shows "scan_number (itoa i @ r) = Some (itoa i, r)"
proof -
  have nd: "\<not> is_digit (hd r)" using assms(2) by (auto simp: is_digit_def)
  have "scan_frac r = Some ([], r)" "scan_exp r = Some ([], r)"
    using assms by (cases r; auto simp: scan_frac_def scan_exp_def)+
  moreover have "\<not> hasPrefix (utoa n @ r) ''-''" for n
    using utoa_hd [of n] by (cases "utoa n") (auto simp: is_digit_def)
  ultimately show ?thesis
    using scan_int_utoa [OF assms(1) nd] by (auto simp: scan_number_def itoa_def Let_def)
qed

lemma itoa_first: "itoa i \<noteq> [] \<and> (hd (itoa i) = CHR ''-'' \<or> is_digit (hd (itoa i)))"
  using utoa_hd by (simp add: itoa_def)

lemma prints_int: "prints (itoa i) (JNum (itoa i))"
  unfolding prints_def
proof (intro allI impI, elim conjE)
  fix n d and r :: string
  assume r: "r \<noteq> []" "hd r = CHR '','' \<or> hd r = CHR ''}''"
  obtain c t where u: "itoa i = c # t" using itoa_first [of i] by (cases "itoa i") auto
  then have c: "c = CHR ''-'' \<or> is_digit c" using itoa_first [of i] by simp
  then have o: "c \<notin> {CHR '' '', CHR 0x09, CHR 0x0A, CHR 0x0D, CHR ''{'', CHR ''['', CHR 0x22, CHR ''t'', CHR ''f'', CHR ''n''}"
    by (auto simp: is_digit_def)
  have "skip_ws (itoa i @ r) = itoa i @ r" using o by (intro skip_ws_id) (auto simp: u)
  moreover have "scan_number (c # t @ r) = Some (c # t, r)" using scan_number_itoa [OF r, of i] by (simp add: u)
  ultimately show "json_val (Suc n) d (itoa i @ r) = Some (JNum (itoa i), r)"
    using o by (simp add: u)
qed

lemma json_members_print:
  assumes "ms \<noteq> []" and "list_all (\<lambda>(k, t, v). list_all json_plain k \<and> prints t v) ms" and "length ms < n"
  shows "json_members n d (join '','' (map (\<lambda>(k, t, v). quote k @ '':'' @ t) ms) @ CHR ''}'' # r)
           = Some (map (\<lambda>(k, t, v). (k, v)) ms, r)"
  using assms
proof (induction ms arbitrary: n)
  case (Cons m ms)
  obtain k t v where m: "m = (k, t, v)" by (cases m) auto
  obtain j where n: "n = Suc j" and j: "length ms < j" using Cons.prems by (cases n) auto
  have k: "list_all json_plain k" and t: "prints t v" using Cons.prems m by auto
  have v: "json_val j d (t @ c # x) = Some (v, c # x)" if "c = CHR '','' \<or> c = CHR ''}''" for c x
    using t that j unfolding prints_def by (cases j) auto
  note simps = quote_plain [OF k] scan_plain [OF k] unquote_plain [OF k] skip_ws_id
  show ?case
  proof (cases "ms = []")
    case True
    with v show ?thesis by (simp add: m n simps)
  next
    case False
    with Cons j have "json_members j d (join '','' (map (\<lambda>(k, t, v). quote k @ '':'' @ t) ms) @ CHR ''}'' # r)
        = Some (map (\<lambda>(k, t, v). (k, v)) ms, r)" by auto
    with v False show ?thesis by (simp add: m n join_Cons simps)
  qed
qed simp


lemma json_parse_object:
  assumes "ms \<noteq> []" and "list_all (\<lambda>(k, t, v). list_all json_plain k \<and> prints t v) ms"
  shows "json_parse (print_object (map (\<lambda>(k, t, v). (k, t)) ms)) = Some (JObj (map (\<lambda>(k, t, v). (k, v)) ms))"
proof -
  let ?j = "join '','' (map (\<lambda>(k, t, v). quote k @ '':'' @ t) ms)"
  let ?s = "CHR ''{'' # ?j @ ''}''"
  have s: "print_object (map (\<lambda>(k, t, v). (k, t)) ms) = ?s"
    by (simp add: print_object_def comp_def case_prod_unfold)
  have q: "hd (?j @ ''}'') = CHR 0x22"
    using assms(1) by (cases ms) (auto simp: join_Cons quote_def)
  then have nb: "\<not> hasPrefix (skip_ws (?j @ ''}'')) ''}''"
    by (cases ?j) (simp_all add: skip_ws_id)
  have "json_value ?s = json_val (Suc (2 * length ?s + 2 + length ms)) 0 ?s"
    by (rule json_value_fuel [symmetric]) simp
  also have "\<dots> = Some (JObj (map (\<lambda>(k, t, v). (k, v)) ms), [])"
    using json_members_print [OF assms, of "2 * length ?s + 2 + length ms" "Suc 0" "[]"] nb
    by (simp add: skip_ws_id max_depth_def)
  finally show ?thesis by (simp add: json_parse_def s skip_ws_def)
qed

end
