(* ===== verification/Lock.thy ===== *)
theory Lock
  imports DataWipe CryptoSeam Json
begin

text \<open>
  The bootloader lock (\<open>internal/recovery/lock.go\<close>): the owner's consent flag on the system
  partition, how it is armed and cleared, and the irreversible unlock.

  Every exported method takes the mutex \<open>lockMu\<close> first and holds it until it returns, so each of
  them is one step of the program; the mutex itself does not appear.
\<close>

section \<open>The consent flag\<close>

record unlockFlag =
  Armed :: bool
  Count :: int
  OwnerUID :: int
  Phase :: string

definition zeroFlag :: unlockFlag where
  "zeroFlag = \<lparr>Armed = False, Count = 0, OwnerUID = 0, Phase = []\<rparr>"

definition unlockPhaseVerityOff :: string where
  "unlockPhaseVerityOff = ''verity-off''"

text \<open>The struct tags of \<open>unlockFlag\<close>.\<close>

definition flag_fields :: "unlockFlag field list" where
  "flag_fields =
     [(''armed'', store_bool (\<lambda>b f. f\<lparr>Armed := b\<rparr>)),
      (''count'', store_int (\<lambda>i f. f\<lparr>Count := i\<rparr>)),
      (''owner_uid'', store_int (\<lambda>i f. f\<lparr>OwnerUID := i\<rparr>)),
      (''phase'', store_string (\<lambda>s f. f\<lparr>Phase := s\<rparr>))]"

definition unmarshalFlag :: "string \<Rightarrow> unlockFlag option" where
  "unmarshalFlag b =
     (case json_parse b of None \<Rightarrow> None | Some v \<Rightarrow> store_struct flag_fields zeroFlag v)"

definition marshalFlag :: "unlockFlag \<Rightarrow> string" where
  "marshalFlag f = print_object
     ([(''armed'', print_bool (Armed f)), (''count'', itoa (Count f))]
      @ (if OwnerUID f = 0 then [] else [(''owner_uid'', itoa (OwnerUID f))])
      @ (if Phase f = [] then [] else [(''phase'', quote (Phase f))]))"

definition unlockFlagPath :: "config \<Rightarrow> string" where
  "unlockFlagPath cfg = joinPath [ESP (Dirs cfg), ''state'', ''unlock-armed'']"

definition readUnlockFlag :: "config \<Rightarrow> ('x, unlockFlag) io" where
  "readUnlockFlag cfg = do {
     rd \<leftarrow> os_ReadFile (unlockFlagPath cfg);
     case rd of
       Inl err \<Rightarrow> return zeroFlag
     | Inr b \<Rightarrow> return (case unmarshalFlag b of None \<Rightarrow> zeroFlag | Some f \<Rightarrow> f)
   }"

text \<open>
  Writing goes through a temporary file in the same directory.  \<open>fillTemp\<close> is the body between
  \<open>os.CreateTemp\<close> and the return; the deferred \<open>os.Remove\<close> follows it on every path.
\<close>

definition fillTemp :: "config \<Rightarrow> string \<Rightarrow> string \<Rightarrow> gofile \<Rightarrow> ('x, gerror option) io" where
  "fillTemp cfg dir b tmp = do {
     e1 \<leftarrow> file_Chmod tmp;
     case e1 of Some err \<Rightarrow> do { _ \<leftarrow> file_Close tmp; return (Some err) } | None \<Rightarrow> do {
     e2 \<leftarrow> file_Write tmp b;
     case e2 of Some err \<Rightarrow> do { _ \<leftarrow> file_Close tmp; return (Some err) } | None \<Rightarrow> do {
     e3 \<leftarrow> file_Sync tmp;
     case e3 of Some err \<Rightarrow> do { _ \<leftarrow> file_Close tmp; return (Some err) } | None \<Rightarrow> do {
     e4 \<leftarrow> file_Close tmp;
     case e4 of Some err \<Rightarrow> return (Some err) | None \<Rightarrow> do {
     e5 \<leftarrow> os_Rename (file_name tmp) (unlockFlagPath cfg);
     case e5 of Some err \<Rightarrow> return (Some err) | None \<Rightarrow> syncDir dir }}}}
   }"

definition writeUnlockFlag :: "config \<Rightarrow> unlockFlag \<Rightarrow> ('x, gerror option) io" where
  "writeUnlockFlag cfg f = do {
     let dir = dirPath (unlockFlagPath cfg);
     e1 \<leftarrow> os_MkdirAll dir;
     case e1 of Some err \<Rightarrow> return (Some (Wrap ''prepare ESP state dir: '' err)) | None \<Rightarrow> do {
     let b = marshalFlag f;
     tp \<leftarrow> os_CreateTemp dir ''.unlock-armed-'';
     case tp of
       Inl err \<Rightarrow> return (Some err)
     | Inr tmp \<Rightarrow> do {
         e \<leftarrow> fillTemp cfg dir b tmp;
         _ \<leftarrow> os_Remove (file_name tmp);
         return e
       } }
   }"

definition finalizeUnlockFlag :: "config \<Rightarrow> unlockFlag \<Rightarrow> ('x, gerror option) io" where
  "finalizeUnlockFlag cfg f =
     (let f1 = (if Phase f \<noteq> [] then f\<lparr>Count := go_int (Count f + 1)\<rparr> else f)
      in writeUnlockFlag cfg (f1\<lparr>Armed := False, OwnerUID := 0, Phase := []\<rparr>))"

section \<open>Reading the lock\<close>

record lockStateInfo =
  Locked :: bool
  UnlockArmed :: bool
  UnlockCount :: int

definition LockState :: "'x seam \<Rightarrow> config \<Rightarrow> ('x, lockStateInfo) io" where
  "LockState sm cfg = do {
     v \<leftarrow> readLockBit sm;
     let locked = (case v of Inl _ \<Rightarrow> True | Inr v \<Rightarrow> v);
     f \<leftarrow> readUnlockFlag cfg;
     f' \<leftarrow> (if \<not> locked \<and> Armed f \<and> Phase f = unlockPhaseVerityOff
          then do { _ \<leftarrow> finalizeUnlockFlag cfg f; readUnlockFlag cfg }
          else return f);
     return \<lparr>Locked = locked, UnlockArmed = Armed f' \<and> OwnerUID f' \<ge> 1000, UnlockCount = Count f'\<rparr>
   }"

section \<open>Consent\<close>

definition ArmUnlockForOwner :: "'x seam \<Rightarrow> config \<Rightarrow> bool \<Rightarrow> int \<Rightarrow> ('x, bool \<times> string) io" where
  "ArmUnlockForOwner sm cfg armed ownerUID = do {
     f \<leftarrow> readUnlockFlag cfg;
     if armed then
       if ownerUID < 1000
       then return (False, ''The owner account could not be recorded. Nothing was changed.'')
       else if Armed f \<and> Phase f \<noteq> []
       then return (False, ''The existing unlock transaction must finish in recovery.'')
       else do {
         e \<leftarrow> writeUnlockFlag cfg (f\<lparr>Armed := True, OwnerUID := ownerUID, Phase := []\<rparr>);
         case e of
           Some err \<Rightarrow> return (False, ''cannot write consent flag: '' @ error_text err)
         | None \<Rightarrow> return (True, ''Bootloader unlock is armed. Reboot into recovery to confirm.'')
       }
     else if Phase f \<noteq> [] then do {
       v \<leftarrow> readLockBit sm;
       if v = Inr False then do {
         e \<leftarrow> finalizeUnlockFlag cfg f;
         case e of
           Some err \<Rightarrow> return (False, ''cannot finalize unlock consent: '' @ error_text err)
         | None \<Rightarrow> return (True, ''Bootloader unlock transaction finalized.'')
       }
       else return (False, ''The unlock transaction has started and must finish in recovery.'')
     }
     else do {
       e \<leftarrow> writeUnlockFlag cfg (f\<lparr>Armed := False, OwnerUID := 0, Phase := []\<rparr>);
       case e of
         Some err \<Rightarrow> return (False, ''cannot write consent flag: '' @ error_text err)
       | None \<Rightarrow> return (True, ''Bootloader unlock consent cleared.'')
     }
   }"

definition ArmUnlock :: "'x seam \<Rightarrow> config \<Rightarrow> bool \<Rightarrow> ('x, bool \<times> string) io" where
  "ArmUnlock sm cfg armed = ArmUnlockForOwner sm cfg armed 0"

section \<open>The unlock\<close>

definition consentHolds :: "unlockFlag \<Rightarrow> unlockFlag \<Rightarrow> bool" where
  "consentHolds f current \<longleftrightarrow> Armed current \<and> OwnerUID current = OwnerUID f \<and> Phase current = []"

text \<open>Turning verity off, and the durable record that this has been done.  \<open>None\<close> is success.\<close>

definition recordTransaction :: "'x seam \<Rightarrow> config \<Rightarrow> unlockFlag \<Rightarrow> ('x, string option) io" where
  "recordTransaction sm cfg f = do {
     e2 \<leftarrow> disableVerity sm;
     case e2 of
       Some err \<Rightarrow> return (Some (''unlock: disable verity: '' @ error_text err))
     | None \<Rightarrow> do {
     vo \<leftarrow> readVerityOff sm;
     if vo \<noteq> Inr True
     then return (Some ''The TPM did not confirm the unlock transaction. User data was not erased.'')
     else do {
     current \<leftarrow> readUnlockFlag cfg;
     if \<not> consentHolds f current
     then return (Some ''The unlock consent changed before the transaction was recorded. User data was not erased.'')
     else do {
     e3 \<leftarrow> writeUnlockFlag cfg (current\<lparr>Phase := unlockPhaseVerityOff\<rparr>);
     case e3 of
       Some err \<Rightarrow> return (Some (''unlock: record transaction: '' @ error_text err))
     | None \<Rightarrow> return None }}}
   }"

text \<open>The start of a transaction, up to the durable record of its phase.  \<open>None\<close> is success.\<close>

definition beginUnlock :: "'x seam \<Rightarrow> config \<Rightarrow> unlockFlag \<Rightarrow> string \<Rightarrow> ('x, string option) io" where
  "beginUnlock sm cfg f pin =
     (if length pin < 4 \<or> length pin > 256 \<or> containsAny pin [CHR 0x0D, CHR 0x0A]
      then return (Some ''Enter the owner's PIN. Nothing was changed.'')
      else do {
        v \<leftarrow> verifyPIN sm (OwnerUID f) pin;
        case v of
          Inl err \<Rightarrow> return (Some ''The owner's PIN could not be checked. Nothing was changed.'')
        | Inr valid \<Rightarrow> if \<not> valid then return (Some ''Incorrect PIN. Nothing was changed.'') else do {
        current \<leftarrow> readUnlockFlag cfg;
        if \<not> consentHolds f current then return (Some ''The unlock consent changed. Nothing was changed.'')
        else do {
        e1 \<leftarrow> validateDataDir cfg;
        case e1 of
          Some err \<Rightarrow> return (Some (''unlock: validate data wipe: '' @ error_text err))
        | None \<Rightarrow> recordTransaction sm cfg f }}})"

definition clearConsent :: "config \<Rightarrow> ('x, bool \<times> string) io" where
  "clearConsent cfg = do {
     f \<leftarrow> readUnlockFlag cfg;
     e5 \<leftarrow> finalizeUnlockFlag cfg f;
     case e5 of
       Some _ \<Rightarrow> return (True, ''Bootloader unlocked. Consent cleanup will retry automatically.'')
     | None \<Rightarrow> return (True, ''Bootloader unlocked. This device will warn at every boot.'')
   }"

text \<open>The rest, which a retry repeats: wipe, flip the bit, clear the consent.\<close>

definition completeUnlock :: "'x seam \<Rightarrow> config \<Rightarrow> ('x, bool \<times> string) io" where
  "completeUnlock sm cfg = do {
     e1 \<leftarrow> prepareDataWipe cfg;
     case e1 of Some err \<Rightarrow> return (False, ''unlock: prepare data wipe: '' @ error_text err) | None \<Rightarrow> do {
     e2 \<leftarrow> wipeVar sm;
     case e2 of Some err \<Rightarrow> return (False, ''unlock: wipe user data: '' @ error_text err) | None \<Rightarrow> do {
     e3 \<leftarrow> finishDataWipe cfg;
     case e3 of Some err \<Rightarrow> return (False, ''unlock: finish data wipe: '' @ error_text err) | None \<Rightarrow> do {
     e4 \<leftarrow> setUnlockBit sm;
     case e4 of Some err \<Rightarrow> return (False, ''unlock: set lock bit: '' @ error_text err) | None \<Rightarrow>
     clearConsent cfg }}}
   }"

definition UnlockBootloader :: "'x seam \<Rightarrow> config \<Rightarrow> string \<Rightarrow> string \<Rightarrow> ('x, bool \<times> string) io" where
  "UnlockBootloader sm cfg confirm pin =
     (if confirm \<noteq> ''UNLOCK'' then return (False, ''The device refused the unlock request.'')
      else do {
        f \<leftarrow> readUnlockFlag cfg;
        if \<not> Armed f \<or> OwnerUID f < 1000
        then return (False, ''Unlocking must first be allowed by the owner, from the running system.'')
        else if Phase f = [] then do {
          e \<leftarrow> beginUnlock sm cfg f pin;
          case e of
            Some msg \<Rightarrow> return (False, msg)
          | None \<Rightarrow> completeUnlock sm cfg
        }
        else if Phase f = unlockPhaseVerityOff then do {
          vo \<leftarrow> readVerityOff sm;
          if vo \<noteq> Inr True
          then return (False, ''The pending unlock transaction could not be verified. Nothing was changed.'')
          else completeUnlock sm cfg
        }
        else return (False, ''The pending unlock transaction is invalid. Nothing was changed.'')
      })"

section \<open>The flag as stored\<close>

definition flag_ok :: "unlockFlag \<Rightarrow> bool" where
  "flag_ok f \<longleftrightarrow> is_int64 (Count f) \<and> is_int64 (OwnerUID f) \<and> list_all json_plain (Phase f)"

definition flag_members :: "unlockFlag \<Rightarrow> (string \<times> string \<times> json) list" where
  "flag_members f =
     [(''armed'', print_bool (Armed f), JBool (Armed f)), (''count'', itoa (Count f), JNum (itoa (Count f)))]
      @ (if OwnerUID f = 0 then [] else [(''owner_uid'', itoa (OwnerUID f), JNum (itoa (OwnerUID f)))])
      @ (if Phase f = [] then [] else [(''phase'', quote (Phase f), JStr (Phase f))])"

lemma flag_keys_plain:
  "list_all json_plain ''armed'' \<and> list_all json_plain ''count'' \<and> list_all json_plain ''owner_uid''
   \<and> list_all json_plain ''phase''"
  by code_simp

text \<open>Reading back what was written.\<close>

lemma unmarshal_marshal:
  assumes "flag_ok f"
  shows "unmarshalFlag (marshalFlag f) = Some f"
proof -
  have p: "list_all (\<lambda>(k, t, v). list_all json_plain k \<and> prints t v) (flag_members f)"
    using assms flag_keys_plain
    by (auto simp: flag_members_def flag_ok_def prints_bool prints_int prints_string)
  have m: "marshalFlag f = print_object (map (\<lambda>(k, t, v). (k, t)) (flag_members f))"
    by (simp add: marshalFlag_def flag_members_def)
  have "json_parse (marshalFlag f) = Some (JObj (map (\<lambda>(k, t, v). (k, v)) (flag_members f)))"
    unfolding m by (rule json_parse_object [OF _ p]) (simp add: flag_members_def)
  moreover have "store_members flag_fields zeroFlag (map (\<lambda>(k, t, v). (k, v)) (flag_members f)) = Some f"
    using assms
    by (cases f) (auto simp: flag_members_def flag_fields_def find_field_def store_bool_def store_int_def
        store_string_def zeroFlag_def flag_ok_def atoi_itoa)
  ultimately show ?thesis by (simp add: unmarshalFlag_def store_struct_def)
qed

section \<open>Writing is atomic\<close>

text \<open>
  All the calls of \<open>writeUnlockFlag\<close> work on the entries of one directory \<open>S\<close>.
  \<open>dir_map S d m w w'\<close>: from \<open>w\<close> to \<open>w'\<close> the entries of \<open>S\<close> have become \<open>m\<close>, and nothing else
  has changed.
\<close>

definition dir_map :: "string list \<Rightarrow> nat \<Rightarrow> (string \<rightharpoonup> inode) \<Rightarrow> 'x world \<Rightarrow> 'x world \<Rightarrow> bool" where
  "dir_map S d m w w' \<longleftrightarrow>
     (\<exists>es t. w' = w\<lparr>root := put S (Some (Dir d es)) (root w), tick := t\<rparr> \<and> map_of es = m)"

definition flag_name :: string where
  "flag_name = ''unlock-armed''"

definition temp_name :: "nat \<Rightarrow> string" where
  "temp_name k = ''.unlock-armed-'' @ utoa k"

definition is_temp :: "string \<Rightarrow> bool" where
  "is_temp c \<longleftrightarrow> hasPrefix c ''.unlock-armed-''"

lemma is_temp_name [simp]: "is_temp (temp_name k)"
  by (simp add: is_temp_def temp_name_def hasPrefix_def)

lemma flag_not_temp [simp]: "\<not> is_temp flag_name" "flag_name \<noteq> temp_name k" "temp_name k \<noteq> flag_name"
  by (simp_all add: is_temp_def flag_name_def temp_name_def)

lemma proper_flag [simp]: "proper flag_name"
  by (simp add: flag_name_def)

lemma proper_temp [simp]: "proper (temp_name k)"
proof -
  have "\<not> is_digit (CHR ''/'')" by (simp add: is_digit_def)
  then have "CHR ''/'' \<notin> set (utoa k)" using utoa_digits [of "CHR ''/''" k] by auto
  then show ?thesis unfolding proper_def temp_name_def by simp
qed

lemma dir_map_refl: "lookup (root w) S = Some (Dir d es) \<Longrightarrow> dir_map S d (map_of es) w w"
  unfolding dir_map_def by (rule exI [of _ es], rule exI [of _ "tick w"]) (simp add: put_id)

lemma dir_map_ticked: "dir_map S d m w w1 \<Longrightarrow> ticked w1 w2 \<Longrightarrow> dir_map S d m w w2"
  unfolding dir_map_def ticked_def by fastforce

lemma dir_map_tick: "dir_map S d m w w1 \<Longrightarrow> dir_map S d m w (w1\<lparr>tick := t\<rparr>)"
  by (erule dir_map_ticked) simp

lemma dir_map_quiet: "dir_map S d m w w1 \<Longrightarrow> quiet w1 = quiet w"
  by (auto simp: dir_map_def)

lemma dir_map_lookup:
  assumes "dir_map S d m w w1" and "lookup (root w) S = Some n"
  obtains es where "lookup (root w1) S = Some (Dir d es)" and "map_of es = m"
  using assms by (auto simp: dir_map_def lookup_put_same)

lemma dir_map_put:
  assumes dm: "dir_map S d m w w1" and S: "lookup (root w) S = Some n"
  shows "dir_map S d (m(c := v)) w (w1\<lparr>root := put (S @ [c]) v (root w1), tick := t\<rparr>)"
proof -
  from dm obtain es t1 where w1: "w1 = w\<lparr>root := put S (Some (Dir d es)) (root w), tick := t1\<rparr>"
      and es: "map_of es = m" by (auto simp: dir_map_def)
  let ?es = "case v of None \<Rightarrow> AList.delete c es | Some x \<Rightarrow> AList.update c x es"
  have "put (S @ [c]) v (root w1) = put S (Some (Dir d ?es)) (root w)"
    using put_snoc [OF lookup_put_same [OF S], of c v d es] by (simp add: w1 put_put [OF S])
  moreover have "map_of ?es = m(c := v)"
    by (cases v) (auto simp: update_conv' delete_conv' es [symmetric] fun_eq_iff)
  ultimately show ?thesis by (auto simp: dir_map_def w1)
qed


subsection \<open>The calls on one directory\<close>

definition real_dir :: "string list \<Rightarrow> 'x world \<Rightarrow> bool" where
  "real_dir S w \<longleftrightarrow> lookup (root w) S \<noteq> None \<and> list_all proper S \<and> S \<noteq> []"

lemma dir_map_entry:
  assumes S: "real_dir S w" and dm: "dir_map S d m w w1" and c: "proper c"
  obtains es where "lookup (root w1) S = Some (Dir d es)" and "map_of es = m"
    and "resolve_entry (root w1) (mk_path (S @ [c])) = Inr (S, c)" and "lookup (root w1) (S @ [c]) = m c"
proof -
  from S obtain n where n: "lookup (root w) S = Some n" by (auto simp: real_dir_def)
  obtain es where l: "lookup (root w1) S = Some (Dir d es)" "map_of es = m"
    using dir_map_lookup [OF dm n] .
  have "resolve_entry (root w1) (mk_path (S @ [c])) = Inr (S, c)"
    using S c l by (intro resolve_entry_name) (simp_all add: is_dir_def real_dir_def)
  moreover have "lookup (root w1) (S @ [c]) = m c" using l by (simp add: lookup_snoc)
  ultimately show thesis using that l by blast
qed

lemma dir_map_put':
  "real_dir S w \<Longrightarrow> dir_map S d m w w1 \<Longrightarrow>
     dir_map S d (m(c := v)) w (w1\<lparr>root := put (S @ [c]) v (root w1), tick := t\<rparr>)"
  using dir_map_put by (fastforce simp: real_dir_def)

lemma wp_create:
  assumes S: "real_dir S w" and dm: "dir_map S d m w w1" and c: "proper c"
  shows "wp (perform ''open'' (mk_path (S @ [c])) (create_excl (mk_path (S @ [c]))))
     (\<lambda>e w2. (e = None \<longrightarrow> m c = None \<and> dir_map S d (m(c \<mapsto> Reg d [])) w w2)
        \<and> (e \<noteq> None \<longrightarrow> dir_map S d m w w2) \<and> (quiet w \<longrightarrow> m c = None \<longrightarrow> e = None)) w1"
proof -
  obtain es where l: "lookup (root w1) S = Some (Dir d es)" "map_of es = m"
    "resolve_entry (root w1) (mk_path (S @ [c])) = Inr (S, c)" "lookup (root w1) (S @ [c]) = m c"
    using dir_map_entry [OF assms] .
  note t = dir_map_tick [OF dm] and p = dir_map_put' [OF S dm, of c "Some (Reg d [])"]
  show ?thesis
    using t p dir_map_quiet [OF dm]
    by (auto simp: perform_def wp_simps create_excl_def l tick_root quiet_def split: option.split)
qed

lemma temp_path: "list_all proper S \<Longrightarrow> S \<noteq> [] \<Longrightarrow> mk_path S @ ''/'' @ ''.unlock-armed-'' @ utoa k = mk_path (S @ [temp_name k])"
  by (simp add: mk_path_def join_snoc temp_name_def)

text \<open>The temporary file gets a name that nothing had.\<close>

definition made_temp ::
    "string list \<Rightarrow> nat \<Rightarrow> (string \<rightharpoonup> inode) \<Rightarrow> 'x world \<Rightarrow> gerror + gofile \<Rightarrow> 'x world \<Rightarrow> bool" where
  "made_temp S d m w r w' \<longleftrightarrow>
     (case r of
        Inl e \<Rightarrow> dir_map S d m w w' \<and> \<not> (quiet w \<and> (\<forall>k. m (temp_name k) = None))
      | Inr f \<Rightarrow> \<exists>k. file_name f = mk_path (S @ [temp_name k]) \<and> file_node f = S @ [temp_name k]
                 \<and> m (temp_name k) = None \<and> dir_map S d (m(temp_name k \<mapsto> Reg d [])) w w')"

lemma wp_createTemp_try:
  assumes S: "real_dir S w"
  shows "dir_map S d m w w1 \<Longrightarrow> 0 < j \<or> \<not> (quiet w \<and> (\<forall>k. m (temp_name k) = None)) \<Longrightarrow>
    wp (createTemp_try j (mk_path S) ''.unlock-armed-'') (made_temp S d m w) w1"
proof (induction j arbitrary: w1)
  case 0
  then show ?case by (simp add: wp_simps made_temp_def)
next
  case (Suc j)
  define c where "c = temp_name (rnd w1 (tick w1))"
  have c: "proper c" by (simp add: c_def)
  have p: "mk_path S @ ''/'' @ ''.unlock-armed-'' @ utoa (rnd w1 (tick w1)) = mk_path (S @ [c])"
    using S unfolding c_def real_dir_def by (intro temp_path) auto
  show ?case
    unfolding createTemp_try.simps wp_bind wp_gets Let_def p
  proof (rule wp_mono [OF wp_create [OF S Suc.prems(1) c]], goal_cases)
    case (1 e w2)
    show ?case
    proof (cases e)
      case None
      with 1 have m: "m c = None" and dm: "dir_map S d (m(c \<mapsto> Reg d [])) w w2" by auto
      obtain es where "resolve_entry (root w2) (mk_path (S @ [c])) = Inr (S, c)"
        using dir_map_entry [OF S dm c] .
      with m dm show ?thesis
        by (auto simp: None wp_simps made_temp_def c_def)
    next
      case (Some err)
      with 1 have dm: "dir_map S d m w w2" and nq: "\<not> (quiet w \<and> (\<forall>k. m (temp_name k) = None))"
        by (auto simp: c_def)
      show ?thesis
        unfolding Some option.case
        using Suc.IH [OF dm] nq dm made_temp_def [of S d m w "Inl err" w2] by (simp add: wp_simps)
    qed
  qed
qed

lemma wp_file_same:
  assumes "dir_map S d m w w1"
  shows "wp (file_Chmod f) (\<lambda>e w2. dir_map S d m w w2 \<and> (quiet w \<longrightarrow> e = None)) w1"
    and "wp (file_Sync f) (\<lambda>e w2. dir_map S d m w w2 \<and> (quiet w \<longrightarrow> e = None)) w1"
    and "wp (file_Close f) (\<lambda>e w2. dir_map S d m w w2 \<and> (quiet w \<longrightarrow> e = None)) w1"
  unfolding file_Chmod_def file_Sync_def file_Close_def
  by (rule wp_mono [OF wp_perform_same], use dir_map_ticked [OF assms] dir_map_quiet [OF assms] in auto)+

lemma wp_file_Write:
  assumes S: "real_dir S w" and dm: "dir_map S d (m(c \<mapsto> Reg d s)) w w1" and c: "proper c"
    and f: "file_node f = S @ [c]"
  shows "wp (file_Write f b) (\<lambda>e w2. (\<exists>s'. dir_map S d (m(c \<mapsto> Reg d s')) w w2 \<and> (e = None \<longrightarrow> s' = s @ b))
     \<and> (quiet w \<longrightarrow> e = None)) w1"
proof -
  obtain es where l: "lookup (root w1) (S @ [c]) = Some (Reg d s)"
    using dir_map_entry [OF S dm c] by auto
  have "dir_map S d (m(c \<mapsto> Reg d (s @ x))) w (w1\<lparr>root := put (S @ [c]) (Some (Reg d (s @ x))) (root w1), tick := t\<rparr>)" for x t
    using dir_map_put' [OF S dm, of c "Some (Reg d (s @ x))"] by simp
  with dir_map_quiet [OF dm] show ?thesis
    by (fastforce simp: file_Write_def wp_simps write_at_def f l tick_root quiet_def)
qed

lemma wp_Rename:
  assumes S: "real_dir S w" and dm: "dir_map S d (m(c \<mapsto> Reg d s)) w w1"
    and c: "proper c" "proper c'" "c \<noteq> c'" and m: "\<not> is_dir (m c')"
  shows "wp (os_Rename (mk_path (S @ [c])) (mk_path (S @ [c'])))
     (\<lambda>e w2. if e = None then dir_map S d (m(c := None, c' \<mapsto> Reg d s)) w w2
             else dir_map S d (m(c \<mapsto> Reg d s)) w w2 \<and> \<not> quiet w) w1"
proof -
  obtain es where l: "resolve_entry (root w1) (mk_path (S @ [c])) = Inr (S, c)" "lookup (root w1) (S @ [c]) = Some (Reg d s)"
    using dir_map_entry [OF S dm c(1)] by auto
  obtain es' where l': "resolve_entry (root w1) (mk_path (S @ [c'])) = Inr (S, c')" "lookup (root w1) (S @ [c']) = m c'"
    using dir_map_entry [OF S dm c(2)] c(3) by auto
  have "dir_map S d (m(c := None, c' \<mapsto> Reg d s)) w
     (w1\<lparr>root := put (S @ [c']) (Some (Reg d s)) (put (S @ [c]) None (root w1)), tick := t\<rparr>)" for t
    using dir_map_put' [OF S dir_map_put' [OF S dm, of c None t], of c' "Some (Reg d s)" t] by simp
  with dm dir_map_tick [OF dm] dir_map_quiet [OF dm] m show ?thesis
    by (auto simp: os_Rename_def wp_simps rename_at_def l l' tick_root quiet_def)
qed

lemma wp_Remove:
  assumes S: "real_dir S w" and dm: "dir_map S d m w w1" and c: "proper c" and m: "\<not> is_dir (m c)"
  shows "wp (os_Remove (mk_path (S @ [c])))
     (\<lambda>e w2. dir_map S d m w w2 \<or> dir_map S d (m(c := None)) w w2) w1"
proof -
  obtain es where l: "resolve_entry (root w1) (mk_path (S @ [c])) = Inr (S, c)" "lookup (root w1) (S @ [c]) = m c"
    using dir_map_entry [OF S dm c] by auto
  show ?thesis
    unfolding os_Remove_def
    by (rule wp_performI)
      (use dir_map_tick [OF dm] dir_map_put' [OF S dm, of c None] m in
        \<open>auto simp: l is_dir_def split: option.splits inode.splits if_splits\<close>)
qed


subsection \<open>The flag file\<close>

definition flag_paths :: "config \<Rightarrow> string list \<Rightarrow> bool" where
  "flag_paths cfg S \<longleftrightarrow> (\<exists>E. ESP (Dirs cfg) = mk_path E \<and> list_all proper E \<and> S = E @ [''state''])"

lemma flag_paths_path:
  assumes "flag_paths cfg S"
  shows "unlockFlagPath cfg = mk_path (S @ [flag_name])" and "dirPath (unlockFlagPath cfg) = mk_path S"
    and "list_all proper S" and "S \<noteq> []"
proof -
  from assms obtain E where E: "ESP (Dirs cfg) = mk_path E" "list_all proper E" "S = E @ [''state'']"
    by (auto simp: flag_paths_def)
  show p: "list_all proper S" "S \<noteq> []" using E by simp_all
  show u: "unlockFlagPath cfg = mk_path (S @ [flag_name])"
    using E joinPath_name2 [of E "''state''" "''unlock-armed''"] by (simp add: unlockFlagPath_def flag_name_def)
  show "dirPath (unlockFlagPath cfg) = mk_path S" unfolding u using p by (intro dirPath_mk_path) simp_all
qed

text \<open>
  What a write may have done to the entries \<open>m\<close> of the state directory: the flag is the old one or
  the new one, never anything in between; besides it only temporary files differ.
\<close>

definition flag_written ::
    "nat \<Rightarrow> string \<Rightarrow> (string \<rightharpoonup> inode) \<Rightarrow> (string \<rightharpoonup> inode) \<Rightarrow> gerror option \<Rightarrow> bool" where
  "flag_written d b m m' e \<longleftrightarrow>
     (m' flag_name = m flag_name \<or> m' flag_name = Some (Reg d b))
     \<and> (e = None \<longrightarrow> m' = m(flag_name \<mapsto> Reg d b))
     \<and> (\<forall>c. c \<noteq> flag_name \<longrightarrow> \<not> is_temp c \<longrightarrow> m' c = m c)"

lemma wp_syncDir_in:
  assumes S: "real_dir S w" and dm: "dir_map S d m w w1"
  shows "wp (syncDir (mk_path S)) (\<lambda>e w2. dir_map S d m w w2 \<and> (quiet w \<longrightarrow> e = None)) w1"
proof -
  obtain es where "lookup (root w1) S = Some (Dir d es)"
    by (rule dir_map_entry [OF S dm proper_flag])
  then have "is_dir (lookup (root w1) S)" by (simp add: is_dir_def)
  then show ?thesis
    using S dir_map_ticked [OF dm] dir_map_quiet [OF dm]
    by (intro wp_mono [OF wp_syncDir]) (auto simp: real_dir_def)
qed

text \<open>The body: the temporary file with some contents, or the flag with the new ones.\<close>

lemma wp_fillTemp:
  fixes tmp :: gofile
  assumes S: "real_dir S w" and cfg: "flag_paths cfg S" and m: "\<not> is_dir (m flag_name)" "m c = None"
    and c: "proper c" "c \<noteq> flag_name" and f: "file_node tmp = S @ [c]" "file_name tmp = mk_path (S @ [c])"
    and dm: "dir_map S d (m(c \<mapsto> Reg d [])) w w1"
  shows "wp (fillTemp cfg (mk_path S) b tmp) (\<lambda>e w2.
     (\<exists>s. dir_map S d (m(c \<mapsto> Reg d s)) w w2 \<and> e \<noteq> None \<or> dir_map S d (m(flag_name \<mapsto> Reg d b)) w w2)
     \<and> (quiet w \<longrightarrow> e = None)) w1"
    (is "wp _ ?Q w1")
proof -
  let ?in = "\<lambda>s. dir_map S d (m(c \<mapsto> Reg d s)) w"
  have bail: "wp (do { _ \<leftarrow> file_Close tmp; return (Some err) }) ?Q w2" if "?in s w2" "\<not> quiet w" for s w2 err
    unfolding wp_bind wp_return
    by (rule wp_mono [OF wp_file_same(3) [OF that(1)]]) (use that in auto)
  have new: "m(c := None, flag_name \<mapsto> Reg d b) = m(flag_name \<mapsto> Reg d b)"
    using m(2) by (auto simp: fun_eq_iff)
  have ren: "wp (os_Rename (file_name tmp) (unlockFlagPath cfg) \<bind>
      (\<lambda>e. case e of Some err \<Rightarrow> return (Some err) | None \<Rightarrow> syncDir (mk_path S))) ?Q w2" if w2: "?in b w2" for w2
    unfolding f(2) flag_paths_path(1) [OF cfg]
  proof (rule wp_guard [OF wp_Rename [OF S w2 c(1) proper_flag c(2) m(1)]], goal_cases)
    case (1 w3)
    with new have "dir_map S d (m(flag_name \<mapsto> Reg d b)) w w3" by simp
    from wp_syncDir_in [OF S this] show ?case by (rule wp_mono) auto
  qed (auto simp: wp_return)
  show ?thesis
    unfolding fillTemp_def
  proof (rule wp_guard [OF wp_file_same(1) [OF dm]], goal_cases)
    case (1 w2)
    then have w2: "?in [] w2" by simp
    show ?case
    proof (rule wp_guard [OF wp_file_Write [OF S w2 c(1) f(1)]], goal_cases)
      case (1 w3)
      then have w3: "?in b w3" by auto
      show ?case
        by (rule wp_guard [OF wp_file_same(2) [OF w3]], rule wp_guard [OF wp_file_same(3)])
          (use ren bail in \<open>auto simp: wp_return\<close>)
    qed (use bail in auto)
  qed (use bail in auto)
qed

text \<open>
  What writing the flag \<open>b\<close> in the directory \<open>S\<close> ends in, and that nothing but the disk stops it.
  Only calls that fail leave a temporary file behind.
\<close>

definition flag_saved :: "string list \<Rightarrow> nat \<Rightarrow> string \<Rightarrow> (string \<rightharpoonup> inode) \<Rightarrow> 'x world \<Rightarrow> gerror option \<Rightarrow> 'x world \<Rightarrow> bool" where
  "flag_saved S d b m w e w' \<longleftrightarrow>
     (\<exists>m'. dir_map S d m' w w' \<and> flag_written d b m m' e \<and> (quiet w \<longrightarrow> (\<forall>c. c \<noteq> flag_name \<longrightarrow> m' c = m c)))
     \<and> (quiet w \<longrightarrow> (\<forall>k. m (temp_name k) = None) \<longrightarrow> e = None)"

lemma wp_saveTemp:
  assumes S: "real_dir S w" and cfg: "flag_paths cfg S" and m: "\<not> is_dir (m flag_name)"
    and t: "made_temp S d m w (Inr tmp) w1"
  shows "wp (fillTemp cfg (mk_path S) b tmp \<bind> (\<lambda>e. os_Remove (file_name tmp) \<bind> (\<lambda>_. return e)))
    (flag_saved S d b m w) w1"
proof -
  from t obtain k where k: "file_name tmp = mk_path (S @ [temp_name k])" "file_node tmp = S @ [temp_name k]"
      "m (temp_name k) = None" "dir_map S d (m(temp_name k \<mapsto> Reg d [])) w w1"
    by (auto simp: made_temp_def)
  show ?thesis
    unfolding wp_bind wp_return k(1)
  proof (rule wp_mono [OF wp_fillTemp [OF S cfg m k(3) _ _ k(2,1,4)]], goal_cases)
    case (3 e w2)
    then consider s where "dir_map S d (m(temp_name k \<mapsto> Reg d s)) w w2" "e \<noteq> None"
      | "dir_map S d (m(flag_name \<mapsto> Reg d b)) w w2" by auto
    then show ?case
    proof cases
      case (1 s)
      then obtain err where e: "e = Some err" by auto
      have "flag_saved S d b m w e w3" if "dir_map S d (m(temp_name k := v)) w w3" for v w3
        using that 3 e unfolding flag_saved_def by (intro conjI exI [of _ "m(temp_name k := v)"]) (auto simp: flag_written_def)
      then show ?thesis
        by (intro wp_mono [OF wp_Remove [OF S 1(1) proper_temp [of k]]])
          (simp add: is_dir_def, elim disjE, simp_all only: fun_upd_upd)
    next
      case 2
      have "m(flag_name \<mapsto> Reg d b, temp_name k := None) = m(flag_name \<mapsto> Reg d b)"
        using k(3) by (auto simp: fun_eq_iff)
      moreover have "flag_saved S d b m w e w3" if "dir_map S d (m(flag_name \<mapsto> Reg d b)) w w3" for w3
        using that 3 unfolding flag_saved_def by (intro conjI exI [of _ "m(flag_name \<mapsto> Reg d b)"]) (auto simp: flag_written_def)
      ultimately show ?thesis
        by (intro wp_mono [OF wp_Remove [OF S 2, of "temp_name k"]]) (auto simp: is_dir_def k(3))
    qed
  qed simp_all
qed

lemma wp_writeUnlockFlag:
  assumes cfg: "flag_paths cfg S" and l: "lookup (root w) S = Some (Dir d es)"
    and m: "\<not> is_dir (map_of es flag_name)"
  shows "wp (writeUnlockFlag cfg f) (flag_saved S d (marshalFlag f) (map_of es) w) w"
    (is "wp _ ?Q w")
proof -
  note paths = flag_paths_path [OF cfg]
  have S: "real_dir S w" using l paths by (simp add: real_dir_def)
  have dm0: "dir_map S d (map_of es) w w" by (rule dir_map_refl [OF l])
  have same: "wp (return (Some err)) ?Q w1"
    if "dir_map S d (map_of es) w w1" "quiet w \<longrightarrow> \<not> (\<forall>k. map_of es (temp_name k) = None)" for w1 err
    using that by (auto simp: wp_return flag_saved_def flag_written_def)
  show ?thesis
    unfolding writeUnlockFlag_def Let_def paths(2) mkdirAll_mk_path [OF paths(3)] os_CreateTemp_def
  proof (rule wp_guard [OF wp_mkdirAll_exists [OF _ paths(3)]], goal_cases)
    case 1
    show ?case using l by (simp add: is_dir_def)
  next
    case (2 w1)
    then have dm: "dir_map S d (map_of es) w w1" using dir_map_ticked [OF dm0] by simp
    show ?case
      by (rule wp_try [OF wp_createTemp_try [OF S dm]])
        (auto simp: made_temp_def intro: same wp_saveTemp [where m = "map_of es", OF S cfg m, unfolded made_temp_def sum.case])
  next
    case (3 err w1)
    then show ?case using dir_map_ticked [OF dm0] by (intro same) auto
  qed
qed

section \<open>Reading fails closed\<close>

definition flag_in :: "inode option \<Rightarrow> unlockFlag" where
  "flag_in n =
     (case n of
        Some (Reg d s) \<Rightarrow> (case unmarshalFlag s of None \<Rightarrow> zeroFlag | Some f \<Rightarrow> f)
      | _ \<Rightarrow> zeroFlag)"

text \<open>The flag on the system partition, and a partition on which it can be kept.\<close>

definition stored :: "string list \<Rightarrow> inode \<Rightarrow> unlockFlag" where
  "stored S r = flag_in (lookup r (S @ [flag_name]))"

definition esp_state :: "string list \<Rightarrow> inode \<Rightarrow> bool" where
  "esp_state S r \<longleftrightarrow>
     is_dir (lookup r S) \<and> (lookup r (S @ [flag_name]) = None \<or> is_reg (lookup r (S @ [flag_name])))"

lemma read_at_missing:
  assumes D: "is_dir (lookup r S)" and p: "list_all proper (S @ [c])" and n: "lookup r (S @ [c]) = None"
  shows "read_at (mk_path (S @ [c])) r = Inl ENOENT"
  using stat_at_absent [OF assms, of True]
  by (auto simp: read_at_def stat_at_def split: sum.splits option.splits)

lemma wp_readUnlockFlag:
  assumes cfg: "flag_paths cfg S" and ok: "esp_state S (root w)"
  shows "wp (readUnlockFlag cfg) (\<lambda>f w'. ticked w w' \<and> (f = zeroFlag \<or> f = stored S (root w))
     \<and> (quiet w \<longrightarrow> f = stored S (root w))) w"
proof -
  have p: "list_all proper (S @ [flag_name])" using flag_paths_path(3) [OF cfg] by simp
  have D: "is_dir (lookup (root w) S)" using ok by (simp add: esp_state_def)
  have "read_at (mk_path (S @ [flag_name])) (root w)
      = (case lookup (root w) (S @ [flag_name]) of Some (Reg d s) \<Rightarrow> Inr s | _ \<Rightarrow> Inl ENOENT)"
    using ok read_at_missing [OF D p] read_at_reg [OF _ p]
    by (auto simp: esp_state_def is_reg_def split: option.splits inode.splits)
  then show ?thesis
    unfolding readUnlockFlag_def flag_paths_path(1) [OF cfg] os_ReadFile_def query_def
    by (auto simp: wp_simps quiet_def stored_def flag_in_def split: option.splits inode.splits)
qed

text \<open>A read that fails is an empty flag.\<close>

lemma wp_readUnlockFlag_fault:
  "fault w (tick w) \<Longrightarrow> wp (readUnlockFlag cfg) (\<lambda>f w'. f = zeroFlag \<and> ticked w w') w"
  by (simp add: readUnlockFlag_def os_ReadFile_def query_def wp_simps)

text \<open>The branches of an unlock, whatever is to be shown of it.\<close>

lemma wp_UnlockBootloaderI:
  assumes cfg: "flag_paths cfg S" and esp: "esp_state S (root w)"
    and stop: "\<And>w1 msg. ticked w w1 \<Longrightarrow> Q (False, msg) w1"
    and fresh: "\<And>f w1. \<lbrakk>ticked w w1; f = stored S (root w); Armed f; 1000 \<le> OwnerUID f; Phase f = []\<rbrakk> \<Longrightarrow>
      wp (beginUnlock sm cfg f pin \<bind> (\<lambda>e. case e of Some msg \<Rightarrow> return (False, msg) | None \<Rightarrow> completeUnlock sm cfg)) Q w1"
    and resume: "\<And>f w1 msg. \<lbrakk>ticked w w1; f = stored S (root w); Armed f; 1000 \<le> OwnerUID f; Phase f = unlockPhaseVerityOff\<rbrakk> \<Longrightarrow>
      wp (readVerityOff sm \<bind> (\<lambda>vo. if vo \<noteq> Inr True then return (False, msg) else completeUnlock sm cfg)) Q w1"
  shows "wp (UnlockBootloader sm cfg confirm pin) Q w"
  unfolding UnlockBootloader_def
proof (rule wp_ifI)
  show "wp (return (False, msg)) Q w" for msg by (simp add: wp_return stop)
  have f: "f = stored S (root w)" if "f = zeroFlag \<or> f = stored S (root w)" "\<not> (\<not> Armed f \<or> OwnerUID f < 1000)" for f
    using that by (auto simp: zeroFlag_def)
  note read = wp_step [OF wp_readUnlockFlag [OF cfg esp]]
  show "wp (readUnlockFlag cfg \<bind> (\<lambda>f. if \<not> Armed f \<or> OwnerUID f < 1000 then return (False, m1)
      else if Phase f = [] then beginUnlock sm cfg f pin \<bind> (\<lambda>e. case e of Some msg \<Rightarrow> return (False, msg) | None \<Rightarrow> completeUnlock sm cfg)
      else if Phase f = unlockPhaseVerityOff then readVerityOff sm \<bind> (\<lambda>vo. if vo \<noteq> Inr True then return (False, m2) else completeUnlock sm cfg)
      else return (False, m3))) Q w" for m1 m2 m3
    by (rule read, elim conjE, intro wp_ifI fresh resume f) (simp_all add: wp_return stop)
qed

text \<open>Whatever was read has counters in the range of a Go \<open>int\<close>.\<close>

definition int_fields :: "unlockFlag \<Rightarrow> bool" where
  "int_fields f \<longleftrightarrow> is_int64 (Count f) \<and> is_int64 (OwnerUID f)"

lemma parse_uint_nonneg: "parse_uint n s = Inr m \<Longrightarrow> 0 \<le> n \<Longrightarrow> 0 \<le> m"
proof (induction n s rule: parse_uint.induct)
  case (2 n c cs)
  then have c: "is_digit c" by (auto split: if_splits)
  then have "0 \<le> digit_val c" by (simp add: is_digit_def digit_val_def)
  with 2 show ?case by (auto split: if_splits)
qed simp

lemma atoi_range: "atoi s = (i, None) \<Longrightarrow> is_int64 i"
  by (auto simp: atoi_def is_int64_def Let_def split: if_splits sum.splits num_error.splits
      dest!: parse_uint_nonneg)

lemma find_field_in: "find_field fs k = Some st \<Longrightarrow> st \<in> snd ` set fs"
proof (cases "map_of fs k")
  case (Some s)
  assume "find_field fs k = Some st"
  with Some have "(k, st) \<in> set fs" by (auto simp: find_field_def dest: map_of_SomeD)
  then show ?thesis by force
next
  case None
  assume "find_field fs k = Some st"
  with None obtain i a where "i < length fs" "(a, st) = fs ! i" by (auto simp: find_field_def find_Some_iff)
  then have "(a, st) \<in> set fs" by (metis nth_mem)
  then show ?thesis by force
qed

lemma store_flag_range:
  assumes "find_field flag_fields k = Some st" and "st f v = Some g" and "int_fields f"
  shows "int_fields g"
proof -
  have "st \<in> snd ` set flag_fields" by (rule find_field_in [OF assms(1)])
  then consider "st = store_bool (\<lambda>b f. f\<lparr>Armed := b\<rparr>)" | "st = store_int (\<lambda>i f. f\<lparr>Count := i\<rparr>)"
    | "st = store_int (\<lambda>i f. f\<lparr>OwnerUID := i\<rparr>)" | "st = store_string (\<lambda>s f. f\<lparr>Phase := s\<rparr>)"
    by (auto simp: flag_fields_def)
  then show ?thesis
    using assms(2,3)
    by cases (auto simp: int_fields_def store_bool_def store_int_def store_string_def
        split: json.splits prod.splits option.splits dest: atoi_range)
qed

lemma store_members_range:
  "store_members flag_fields f ms = Some g \<Longrightarrow> int_fields f \<Longrightarrow> int_fields g"
  by (induction flag_fields f ms rule: store_members.induct)
    (auto split: option.splits dest: store_flag_range)

lemma int_fields_zero [simp]: "int_fields zeroFlag"
  by (simp add: int_fields_def zeroFlag_def is_int64_def)

lemma int_fields_stored [simp]: "int_fields (stored S r)"
proof -
  have "int_fields f" if "unmarshalFlag s = Some f" for s f
    using that by (auto simp: unmarshalFlag_def store_struct_def split: option.splits json.splits
        dest!: store_members_range)
  then show ?thesis by (auto simp: stored_def flag_in_def split: option.splits inode.splits)
qed

end
