(* ===== verification/DhcpPacket.thy ===== *)
theory DhcpPacket
  imports Os
begin

unbundle bit_operations_syntax

text \<open>
  The DHCP message format (\<open>internal/dhcp/dhcp.go\<close>): encoding, decoding, and what a lease takes
  from a decoded message.

  Byte slices are lists of 8-bit words, a nil slice is the empty list.  A function that indexes or
  slices its input returns an option: \<open>None\<close> is a Go panic.
\<close>

section \<open>Slices\<close>

text \<open>\<open>b[i]\<close> and \<open>b[i:j]\<close>.\<close>

definition index :: "bytes \<Rightarrow> nat \<Rightarrow> byte option" where
  "index b i = (if i < length b then Some (b ! i) else None)"

definition slice :: "bytes \<Rightarrow> nat \<Rightarrow> nat \<Rightarrow> bytes option" where
  "slice b i j = (if i \<le> j \<and> j \<le> length b then Some (take (j - i) (drop i b)) else None)"

text \<open>\<open>copy(b[i:j], src)\<close>.\<close>

definition copy_at :: "bytes \<Rightarrow> nat \<Rightarrow> nat \<Rightarrow> bytes \<Rightarrow> bytes" where
  "copy_at b i j src = take i b @ take (j - i) src @ drop (i + min (j - i) (length src)) b"

text \<open>Package \<open>encoding/binary\<close>: big-endian.\<close>

definition be16 :: "16 word \<Rightarrow> bytes" where
  "be16 v = [ucast (drop_bit 8 v), ucast v]"

definition be32 :: "32 word \<Rightarrow> bytes" where
  "be32 v = [ucast (drop_bit 24 v), ucast (drop_bit 16 v), ucast (drop_bit 8 v), ucast v]"

definition get_be16 :: "bytes \<Rightarrow> 16 word option" where
  "get_be16 b = (case b of x # y # _ \<Rightarrow> Some (push_bit 8 (ucast x) OR ucast y) | _ \<Rightarrow> None)"

definition get_be32 :: "bytes \<Rightarrow> 32 word option" where
  "get_be32 b = (case b of
     x # y # z # u # _ \<Rightarrow> Some (push_bit 24 (ucast x) OR push_bit 16 (ucast y) OR push_bit 8 (ucast z) OR ucast u)
   | _ \<Rightarrow> None)"

definition of_len :: "nat \<Rightarrow> byte" where
  "of_len n = word_of_nat n"

section \<open>Package net\<close>

type_synonym ip = bytes

definition v4InV6Prefix :: bytes where
  "v4InV6Prefix = replicate 10 0 @ [0xff, 0xff]"

definition to4 :: "ip \<Rightarrow> ip" where
  "to4 a = (if length a = 4 then a
            else if length a = 16 \<and> take 12 a = v4InV6Prefix then drop 12 a else [])"

definition ip_equal :: "ip \<Rightarrow> ip \<Rightarrow> bool" where
  "ip_equal a x =
     (if length a = length x then a = x
      else if length a = 4 \<and> length x = 16 then take 12 x = v4InV6Prefix \<and> a = drop 12 x
      else if length a = 16 \<and> length x = 4 then take 12 a = v4InV6Prefix \<and> drop 12 a = x
      else False)"

definition ipv4zero :: ip where
  "ipv4zero = v4InV6Prefix @ [0, 0, 0, 0]"

definition defaultMask :: "ip \<Rightarrow> bytes" where
  "defaultMask a =
     (case to4 a of
        [] \<Rightarrow> []
      | x # _ \<Rightarrow> if x < 0x80 then [0xff, 0, 0, 0]
               else if x < 0xC0 then [0xff, 0xff, 0, 0] else [0xff, 0xff, 0xff, 0])"

section \<open>Messages\<close>

definition opRequest :: byte where "opRequest = 1"
definition opReply :: byte where "opReply = 2"
definition msgDiscover :: byte where "msgDiscover = 1"
definition msgOffer :: byte where "msgOffer = 2"
definition msgRequest :: byte where "msgRequest = 3"
definition msgAck :: byte where "msgAck = 5"
definition msgNak :: byte where "msgNak = 6"
definition optSubnet :: byte where "optSubnet = 1"
definition optRouter :: byte where "optRouter = 3"
definition optDNS :: byte where "optDNS = 6"
definition optRequested :: byte where "optRequested = 50"
definition optLeaseTime :: byte where "optLeaseTime = 51"
definition optMsgType :: byte where "optMsgType = 53"
definition optServerID :: byte where "optServerID = 54"
definition optParams :: byte where "optParams = 55"
definition optEnd :: byte where "optEnd = 255"
definition optPad :: byte where "optPad = 0"

definition magicCookie :: bytes where
  "magicCookie = [99, 130, 83, 99]"

record lease =
  IP :: ip
  Mask :: bytes
  Router :: ip
  DNS :: "ip list"
  Server :: ip
  Seconds :: "32 word"

record packet =
  op :: byte
  xid :: "32 word"
  flags :: "16 word"
  ciaddr :: ip
  yiaddr :: ip
  chaddr :: bytes
  options :: "byte \<rightharpoonup> bytes"

definition zeroPacket :: packet where
  "zeroPacket = \<lparr>op = 0, xid = 0, flags = 0, ciaddr = [], yiaddr = [], chaddr = [], options = (\<lambda>_. None)\<rparr>"

fun encodeOptions :: "(byte \<rightharpoonup> bytes) \<Rightarrow> byte list \<Rightarrow> bytes" where
  "encodeOptions opts [] = []"
| "encodeOptions opts (code # order) =
     (case opts code of
        None \<Rightarrow> encodeOptions opts order
      | Some v \<Rightarrow> [code, of_len (length v)] @ v @ encodeOptions opts order)"

text \<open>The fixed part.\<close>

definition encodeHeader :: "packet \<Rightarrow> bytes" where
  "encodeHeader p =
     (let b = replicate 240 0;
          b = b[0 := op p];
          b = b[1 := 1];
          b = b[2 := of_len (length (chaddr p))];
          b = copy_at b 4 8 (be32 (xid p));
          b = copy_at b 10 12 (be16 (flags p));
          b = (if ciaddr p \<noteq> [] then copy_at b 12 16 (to4 (ciaddr p)) else b);
          b = (if yiaddr p \<noteq> [] then copy_at b 16 20 (to4 (yiaddr p)) else b);
          b = copy_at b 28 44 (chaddr p)
      in copy_at b 236 240 magicCookie)"

definition encode :: "packet \<Rightarrow> byte list \<Rightarrow> bytes" where
  "encode p order =
     (let b = encodeHeader p @ encodeOptions (options p) order @ [optEnd]
      in b @ replicate (300 - length b) optPad)"

text \<open>\<open>p.options[code]\<close>, the empty slice when there is none.\<close>

definition get_opt :: "(byte \<rightharpoonup> bytes) \<Rightarrow> byte \<Rightarrow> bytes" where
  "get_opt opts code = (case opts code of None \<Rightarrow> [] | Some v \<Rightarrow> v)"

text \<open>The loop over the options, from position \<open>i\<close> on.\<close>

function decodeOptions :: "bytes \<Rightarrow> nat \<Rightarrow> (byte \<rightharpoonup> bytes) \<Rightarrow> (gerror + (byte \<rightharpoonup> bytes)) option" where
  "decodeOptions b i opts =
     (if i < length b then
        (case index b i of None \<Rightarrow> None | Some code \<Rightarrow>
         if code = optEnd then Some (Inr opts)
         else if code = optPad then decodeOptions b (i + 1) opts
         else if i + 1 \<ge> length b then Some (Inl (ErrText ''truncated DHCP option''))
         else (case index b (i + 1) of None \<Rightarrow> None | Some n \<Rightarrow>
         if i + 2 + unat n > length b then Some (Inl (ErrText ''truncated DHCP option''))
         else (case slice b (i + 2) (i + 2 + unat n) of None \<Rightarrow> None | Some v \<Rightarrow>
         decodeOptions b (i + 2 + unat n)
           (opts(code \<mapsto> get_opt opts code @ v)))))
      else Some (Inr opts))"
  by pat_completeness auto
termination by (relation "measure (\<lambda>(b, i, _). length b - i)") auto

declare decodeOptions.simps [simp del]

definition decode :: "bytes \<Rightarrow> (gerror + packet) option" where
  "decode b =
     (if length b < 240 then Some (Inl (ErrText ''not a DHCP packet'')) else do {
      cookie \<leftarrow> slice b 236 240;
      if cookie \<noteq> magicCookie then Some (Inl (ErrText ''not a DHCP packet'')) else do {
      hlen \<leftarrow> index b 2;
      if unat hlen > 16 then Some (Inl (ErrText ''bad hardware address length'')) else do {
      op0 \<leftarrow> index b 0;
      xidb \<leftarrow> slice b 4 (length b);
      xid0 \<leftarrow> get_be32 xidb;
      flagsb \<leftarrow> slice b 10 (length b);
      flags0 \<leftarrow> get_be16 flagsb;
      ci \<leftarrow> slice b 12 16;
      yi \<leftarrow> slice b 16 20;
      ch \<leftarrow> slice b 28 (28 + unat hlen);
      r \<leftarrow> decodeOptions b 240 (\<lambda>_. None);
      Some (case r of
        Inl e \<Rightarrow> Inl e
      | Inr opts \<Rightarrow> Inr \<lparr>op = op0, xid = xid0, flags = flags0, ciaddr = ci, yiaddr = yi, chaddr = ch, options = opts\<rparr>)
      }}})"

definition option_of :: "packet \<Rightarrow> byte \<Rightarrow> bytes" where
  "option_of p code = get_opt (options p) code"

definition msgType :: "packet \<Rightarrow> byte" where
  "msgType p = (case option_of p optMsgType of [v] \<Rightarrow> v | _ \<Rightarrow> 0)"

fun ipList :: "bytes \<Rightarrow> ip list" where
  "ipList (a # b # c # d # v) = [a, b, c, d] # ipList v"
| "ipList _ = []"

definition leaseFrom :: "packet \<Rightarrow> gerror + lease" where
  "leaseFrom p =
     (if to4 (yiaddr p) = [] \<or> ip_equal (yiaddr p) ipv4zero
      then Inl (ErrText ''the server offered no address'')
      else Inr
        \<lparr>IP = yiaddr p,
         Mask = (if length (option_of p optSubnet) = 4 then option_of p optSubnet else defaultMask (yiaddr p)),
         Router = (case ipList (option_of p optRouter) of [] \<Rightarrow> [] | r # _ \<Rightarrow> r),
         DNS = ipList (option_of p optDNS),
         Server = (case ipList (option_of p optServerID) of [] \<Rightarrow> [] | s # _ \<Rightarrow> s),
         Seconds = (if length (option_of p optLeaseTime) = 4
                    then (case get_be32 (option_of p optLeaseTime) of Some v \<Rightarrow> v | None \<Rightarrow> 0) else 0)\<rparr>)"

definition optionOrder :: "byte list" where
  "optionOrder = [optMsgType, optRequested, optServerID, optParams]"

section \<open>Slices and numbers\<close>

lemma be16_length [simp]: "length (be16 v) = 2"
  by (simp add: be16_def)

lemma be32_length [simp]: "length (be32 v) = 4"
  by (simp add: be32_def)

lemma be16_get [simp]: "get_be16 (be16 v @ r) = Some v"
proof -
  have "push_bit 8 (ucast (ucast (drop_bit 8 v) :: byte)) OR ucast (ucast v :: byte) = v"
    by (rule bit_word_eqI) (auto simp: bit_simps)
  then show ?thesis by (simp add: be16_def get_be16_def)
qed

lemma be32_get [simp]: "get_be32 (be32 v @ r) = Some v"
proof -
  have "push_bit 24 (ucast (ucast (drop_bit 24 v) :: byte)) OR push_bit 16 (ucast (ucast (drop_bit 16 v) :: byte))
      OR push_bit 8 (ucast (ucast (drop_bit 8 v) :: byte)) OR ucast (ucast v :: byte) = v" (is "?w = v")
  proof (rule bit_word_eqI)
    fix n assume "n < LENGTH(32)"
    then consider "n < 8" | "8 \<le> n" "n < 16" | "16 \<le> n" "n < 24" | "24 \<le> n" "n < 32" by force
    then show "bit ?w n = bit v n" by cases (auto simp: bit_simps)
  qed
  then show ?thesis by (simp add: be32_def get_be32_def or.assoc)
qed

lemma get_be16_total: "2 \<le> length b \<Longrightarrow> \<exists>v. get_be16 b = Some v"
  by (auto simp: get_be16_def split: list.split)

lemma get_be32_total: "4 \<le> length b \<Longrightarrow> \<exists>v. get_be32 b = Some v"
  by (auto simp: get_be32_def split: list.split)

lemma unat_of_len: "n < 256 \<Longrightarrow> unat (of_len n) = n"
  by (simp add: of_len_def unsigned_of_nat take_bit_nat_eq_self)

lemma slice_Some: "i \<le> j \<Longrightarrow> j \<le> length b \<Longrightarrow> slice b i j = Some (take (j - i) (drop i b))"
  by (simp add: slice_def)

lemma slice_append: "length a = i \<Longrightarrow> j = i + length v \<Longrightarrow> slice (a @ v @ c) i j = Some v"
  by (simp add: slice_def)

lemma copy_at_append:
  "length a = i \<Longrightarrow> length m = j - i \<Longrightarrow> length src = j - i \<Longrightarrow> copy_at (a @ m @ c) i j src = a @ src @ c"
  by (simp add: copy_at_def)

lemma length_copy_at: "i \<le> j \<Longrightarrow> j \<le> length b \<Longrightarrow> length (copy_at b i j src) = length b"
  by (simp add: copy_at_def)

section \<open>The decoder never panics\<close>

lemma decodeOptions_total: "decodeOptions b i opts \<noteq> None"
proof (induction b i opts rule: decodeOptions.induct)
  case (1 b i opts)
  show ?case
    by (subst decodeOptions.simps)
      (use 1 in \<open>auto simp: index_def slice_def simp del: fun_upd_apply\<close>)
qed

lemma decode_total: "decode b \<noteq> None"
proof (cases "length b < 240")
  case False
  then have l: "240 \<le> length b" by simp
  obtain x where x: "get_be32 (drop 4 b) = Some x" using get_be32_total [of "drop 4 b"] l by fastforce
  obtain y where y: "get_be16 (drop 10 b) = Some y" using get_be16_total [of "drop 10 b"] l by fastforce
  obtain r where r: "decodeOptions b 240 (\<lambda>_. None) = Some r" using decodeOptions_total [of b 240] by blast
  have i: "index b 2 = Some (b ! 2)" "index b 0 = Some (b ! 0)" using l by (auto simp: index_def)
  have s: "slice b 236 240 = Some (take 4 (drop 236 b))" "slice b 12 16 = Some (take 4 (drop 12 b))"
      "slice b 16 20 = Some (take 4 (drop 16 b))" using l by (simp_all add: slice_def)
  have sl: "slice b 4 (length b) = Some (take (length b - 4) (drop 4 b))" "slice b 10 (length b) = Some (take (length b - 10) (drop 10 b))"
    using l by (simp_all add: slice_def)
  have c: "unat (b ! 2) \<le> 16 \<Longrightarrow> slice b 28 (28 + unat (b ! 2)) = Some (take (unat (b ! 2)) (drop 28 b))"
    using l by (simp add: slice_def)
  show ?thesis
    unfolding decode_def i s sl
    by (simp add: False x y r c not_less)
qed (simp add: decode_def)

section \<open>Round trip\<close>

text \<open>A field of fixed width, filled up with zeros.\<close>

definition pad :: "nat \<Rightarrow> bytes \<Rightarrow> bytes" where
  "pad n v = v @ replicate (n - length v) 0"

lemma length_pad [simp]: "length v \<le> n \<Longrightarrow> length (pad n v) = n"
  by (simp add: pad_def)

lemma copy_at_pad:
  "length a = i \<Longrightarrow> i + n = j \<Longrightarrow> length v \<le> n \<Longrightarrow> copy_at (a @ replicate n 0 @ c) i j v = a @ pad n v @ c"
  by (simp add: copy_at_def pad_def)

text \<open>The header as one list of its fields.\<close>

lemma length_to4: "length (to4 a) \<le> 4"
  by (simp add: to4_def)

definition header :: "packet \<Rightarrow> bytes" where
  "header p = [op p, 1, of_len (length (chaddr p)), 0] @ be32 (xid p) @ [0, 0] @ be16 (flags p)
     @ pad 4 (to4 (ciaddr p)) @ pad 4 (to4 (yiaddr p)) @ replicate 8 0 @ pad 16 (chaddr p) @ replicate 192 0 @ magicCookie"

lemma copy_at_step:
  assumes "length a = i" and "i + n = j" and "length v \<le> n"
  shows "copy_at (a @ replicate (n + m) 0) i j v = (a @ pad n v) @ replicate m 0"
  unfolding replicate_add using copy_at_pad [OF assms] by simp

lemma copy_at_later:
  assumes "length a + k = i" and "i + n = j" and "length v \<le> n"
  shows "copy_at (a @ replicate (k + (n + m)) 0) i j v = (a @ replicate k 0 @ pad n v) @ replicate m 0"
  unfolding replicate_add [of k] using copy_at_step [of "a @ replicate k 0" i n j v m] assms by simp

lemma pad_full: "length v = n \<Longrightarrow> pad n v = v"
  by (simp add: pad_def)

lemma to4_Nil [simp]: "to4 [] = []"
  by (simp add: to4_def)

lemma pad_Nil: "pad n [] = replicate n 0"
  by (simp add: pad_def)

lemma encodeHeader_eq:
  assumes ch: "length (chaddr p) \<le> 16"
  shows "encodeHeader p = header p"
proof -
  let ?a0 = "[op p, 1, of_len (length (chaddr p))]"
  have b0: "(((replicate 240 0)[0 := op p])[1 := 1])[2 := of_len (length (chaddr p))] = ?a0 @ replicate (1 + (4 + 232)) (0::byte)"
    by (simp add: numeral_eq_Suc)
  define a1 where "a1 = ?a0 @ replicate 1 0 @ pad 4 (be32 (xid p))"
  have l1: "length a1 = 8" by (simp add: a1_def)
  have b1: "copy_at (?a0 @ replicate (1 + (4 + 232)) 0) 4 8 (be32 (xid p)) = a1 @ replicate (2 + (2 + 228)) 0"
    using copy_at_later [of ?a0 1 4 4 8 "be32 (xid p)" 232] by (simp add: a1_def)
  define a2 where "a2 = a1 @ replicate 2 0 @ pad 2 (be16 (flags p))"
  have l2: "length a2 = 12" by (simp add: a2_def l1)
  have b2: "copy_at (a1 @ replicate (2 + (2 + 228)) 0) 10 12 (be16 (flags p)) = a2 @ replicate (4 + 224) 0"
    using copy_at_later [of a1 2 10 2 12 "be16 (flags p)" 228] l1 by (simp add: a2_def)
  define a3 where "a3 = a2 @ pad 4 (to4 (ciaddr p))"
  have l3: "length a3 = 16" using length_to4 by (simp add: a3_def l2)
  have b3: "(if ciaddr p \<noteq> [] then copy_at (a2 @ replicate (4 + 224) 0) 12 16 (to4 (ciaddr p)) else a2 @ replicate (4 + 224) 0)
      = a3 @ replicate (4 + 220) 0"
    using copy_at_step [of a2 12 4 16 "to4 (ciaddr p)" 224] l2 length_to4 unfolding a3_def
    by (auto simp: pad_Nil replicate_add [symmetric])
  define a4 where "a4 = a3 @ pad 4 (to4 (yiaddr p))"
  have l4: "length a4 = 20" using length_to4 by (simp add: a4_def l3)
  have b4: "(if yiaddr p \<noteq> [] then copy_at (a3 @ replicate (4 + 220) 0) 16 20 (to4 (yiaddr p)) else a3 @ replicate (4 + 220) 0)
      = a4 @ replicate (8 + (16 + 196)) 0"
    using copy_at_step [of a3 16 4 20 "to4 (yiaddr p)" 220] l3 length_to4 unfolding a4_def
    by (auto simp: pad_Nil replicate_add [symmetric])
  define a5 where "a5 = a4 @ replicate 8 0 @ pad 16 (chaddr p)"
  have l5: "length a5 = 44" using ch by (simp add: a5_def l4)
  have b5: "copy_at (a4 @ replicate (8 + (16 + 196)) 0) 28 44 (chaddr p) = a5 @ replicate (192 + (4 + 0)) 0"
    using copy_at_later [of a4 8 28 16 44 "chaddr p" 196] l4 ch by (simp add: a5_def)
  have b6: "copy_at (a5 @ replicate (192 + (4 + 0)) 0) 236 240 magicCookie = a5 @ replicate 192 0 @ magicCookie"
    using copy_at_later [of a5 192 236 4 240 magicCookie 0] l5 by (simp add: magicCookie_def pad_full)
  have "encodeHeader p = a5 @ replicate 192 0 @ magicCookie"
    unfolding encodeHeader_def Let_def b0 b1 b2 b3 b4 b5 by (rule b6)
  also have "\<dots> = header p"
    unfolding header_def a5_def a4_def a3_def a2_def a1_def by (simp add: pad_full numeral_2_eq_2)
  finally show ?thesis .
qed


text \<open>The options: reading them from where they start gives them back.\<close>

definition opts_in :: "(byte \<rightharpoonup> bytes) \<Rightarrow> byte list \<Rightarrow> byte \<rightharpoonup> bytes" where
  "opts_in opts order = (\<lambda>c. if c \<in> set order then opts c else None)"

definition options_ok :: "(byte \<rightharpoonup> bytes) \<Rightarrow> byte list \<Rightarrow> bool" where
  "options_ok opts order \<longleftrightarrow> distinct order \<and> optPad \<notin> set order \<and> optEnd \<notin> set order
     \<and> (\<forall>c v. opts c = Some v \<longrightarrow> length v < 256)"

lemma index_append: "length a = i \<Longrightarrow> index (a @ x # c) i = Some x"
  by (auto simp: index_def nth_append)

lemma decodeOptions_end:
  "length a = i \<Longrightarrow> decodeOptions (a @ optEnd # c) i opts = Some (Inr opts)"
  by (subst decodeOptions.simps) (simp add: index_append)

lemma decodeOptions_option:
  assumes i: "length a = i" and code: "code \<noteq> optEnd" "code \<noteq> optPad" and v: "length v < 256"
  shows "decodeOptions (a @ (code # of_len (length v) # v) @ c) i opts
     = decodeOptions (a @ (code # of_len (length v) # v) @ c) (i + 2 + length v) (opts(code \<mapsto> get_opt opts code @ v))"
proof -
  define b where "b = a @ (code # of_len (length v) # v) @ c"
  have 1: "index b i = Some code" "index b (i + 1) = Some (of_len (length v))"
    using index_append [of a i code] index_append [of "a @ [code]" "i + 1"] i by (simp_all add: b_def)
  have 2: "slice b (i + 2) (i + 2 + length v) = Some v"
    using slice_append [of "a @ [code, of_len (length v)]" "i + 2" "i + 2 + length v" v c] i by (simp add: b_def)
  have l: "i < length b" "\<not> length b \<le> i + 1" "\<not> length b < i + 2 + length v" using i by (simp_all add: b_def)
  show ?thesis
    unfolding b_def [symmetric] decodeOptions.simps [of b i] 1 option.case unat_of_len [OF v] 2
    using l code by simp
qed

lemma decodeOptions_encode:
  assumes "options_ok opts order" and "length a = i" and "\<And>c. c \<in> set order \<Longrightarrow> acc c = None"
  shows "decodeOptions (a @ encodeOptions opts order @ optEnd # c) i acc = Some (Inr (acc ++ opts_in opts order))"
  using assms
proof (induction order arbitrary: a i acc)
  case Nil
  then show ?case by (simp add: decodeOptions_end opts_in_def map_add_def)
next
  case (Cons code order)
  have ok: "options_ok opts order" using Cons.prems(1) by (simp add: options_ok_def)
  show ?case
  proof (cases "opts code")
    case None
    have "opts_in opts (code # order) = opts_in opts order"
      using None by (auto simp: opts_in_def fun_eq_iff)
    with None Cons.IH [OF ok Cons.prems(2)] Cons.prems(3) show ?thesis by simp
  next
    case (Some v)
    have c: "code \<noteq> optEnd" "code \<noteq> optPad" "length v < 256" "code \<notin> set order"
      using Cons.prems(1) Some by (auto simp: options_ok_def)
    have acc: "get_opt acc code = []" using Cons.prems(3) by (simp add: get_opt_def)
    have "acc(code \<mapsto> v) ++ opts_in opts order = acc ++ opts_in opts (code # order)"
      using c(4) Some Cons.prems(3) by (auto simp: fun_eq_iff map_add_def opts_in_def split: option.split)
    moreover have "decodeOptions ((a @ code # of_len (length v) # v) @ encodeOptions opts order @ optEnd # c) (i + 2 + length v) (acc(code \<mapsto> v))
        = Some (Inr (acc(code \<mapsto> v) ++ opts_in opts order))"
      by (rule Cons.IH [OF ok]) (use Cons.prems c in auto)
    ultimately show ?thesis
      using decodeOptions_option [OF Cons.prems(2) c(1,2,3), of "encodeOptions opts order @ optEnd # c" acc]
      by (simp add: Some acc del: fun_upd_apply)
  qed
qed


text \<open>The message that \<open>decode\<close> makes of an encoded one.\<close>

definition received :: "packet \<Rightarrow> byte list \<Rightarrow> packet" where
  "received p order =
     p\<lparr>ciaddr := pad 4 (to4 (ciaddr p)), yiaddr := pad 4 (to4 (yiaddr p)), options := opts_in (options p) order\<rparr>"

lemma length_header: "length (chaddr p) \<le> 16 \<Longrightarrow> length (header p) = 240"
  using length_to4 [of "ciaddr p"] length_to4 [of "yiaddr p"] by (simp add: header_def magicCookie_def)

lemma decode_header:
  assumes ch: "length (chaddr p) \<le> 16"
  shows "decode (header p @ r) = map_option (\<lambda>x. case x of
      Inl e \<Rightarrow> Inl e
    | Inr opts \<Rightarrow> Inr (p\<lparr>ciaddr := pad 4 (to4 (ciaddr p)), yiaddr := pad 4 (to4 (yiaddr p)), options := opts\<rparr>))
    (decodeOptions (header p @ r) 240 (\<lambda>_. None))"
proof -
  define b where "b = header p @ r"
  let ?c = "pad 4 (to4 (ciaddr p))" and ?y = "pad 4 (to4 (yiaddr p))"
  have l: "length ?c = 4" "length ?y = 4" using length_to4 by simp_all
  have len: "length b = 240 + length r" using length_header [OF ch] by (simp add: b_def)
  have sk: "slice b 236 240 = Some magicCookie"
    using slice_append [of "[op p, 1, of_len (length (chaddr p)), 0] @ be32 (xid p) @ [0, 0] @ be16 (flags p)
     @ ?c @ ?y @ replicate 8 0 @ pad 16 (chaddr p) @ replicate 192 0" 236 240 magicCookie r] l ch
    by (simp add: b_def header_def magicCookie_def)
  have si: "slice b 12 16 = Some ?c" "slice b 16 20 = Some ?y"
    using slice_append [of "[op p, 1, of_len (length (chaddr p)), 0] @ be32 (xid p) @ [0, 0] @ be16 (flags p)" 12 16 ?c]
      slice_append [of "[op p, 1, of_len (length (chaddr p)), 0] @ be32 (xid p) @ [0, 0] @ be16 (flags p) @ ?c" 16 20 ?y] l
    by (simp_all add: b_def header_def)
  have sc: "slice b 28 (28 + length (chaddr p)) = Some (chaddr p)"
    using slice_append [of "[op p, 1, of_len (length (chaddr p)), 0] @ be32 (xid p) @ [0, 0] @ be16 (flags p)
     @ ?c @ ?y @ replicate 8 0" 28 "28 + length (chaddr p)" "chaddr p"] l
    by (simp add: b_def header_def pad_def)
  have sx: "slice b 4 (length b) = Some (be32 (xid p) @ drop 8 b)" "slice b 10 (length b) = Some (be16 (flags p) @ drop 12 b)"
    by (simp_all add: slice_def b_def header_def be32_def be16_def)
  have ix: "index b 0 = Some (op p)" "index b 2 = Some (of_len (length (chaddr p)))"
    by (simp_all add: index_def b_def header_def)
  have u: "unat (of_len (length (chaddr p))) = length (chaddr p)" using ch by (intro unat_of_len) simp
  show ?thesis
    unfolding b_def [symmetric] decode_def sk si sx ix
    using len ch by (simp add: u sc) (cases "decodeOptions b 240 (\<lambda>_. None)"; simp split: sum.split)
qed

lemma decode_encode_options:
  assumes "length (chaddr p) \<le> 16" and "distinct order" and "optPad \<notin> set order" and "optEnd \<notin> set order"
    and "\<forall>c v. options p c = Some v \<longrightarrow> length v < 256"
  shows "decode (encode p order) = Some (Inr (received p order)) \<and> 300 \<le> length (encode p order)"
proof -
  have ok: "options_ok (options p) order" using assms by (simp add: options_ok_def)
  obtain c where e: "encode p order = header p @ encodeOptions (options p) order @ optEnd # c"
    unfolding encode_def Let_def encodeHeader_eq [OF assms(1)] by simp
  have "decodeOptions (encode p order) 240 (\<lambda>_. None) = Some (Inr (opts_in (options p) order))"
    unfolding e using decodeOptions_encode [OF ok length_header [OF assms(1)]] by simp
  then have "decode (encode p order) = Some (Inr (received p order))"
    using decode_header [OF assms(1)] unfolding e by (simp add: received_def)
  moreover have "300 \<le> length (encode p order)" by (simp add: encode_def Let_def)
  ultimately show ?thesis by simp
qed

text \<open>C30. A DHCP message survives encoding and decoding: for a hardware address of at most 16 bytes and
  options of at most 255 bytes each, listed once and not under the reserved codes, decoding what was
  encoded gives the message with its addresses filled up to four bytes and exactly the listed
  options.  It is never shorter than the 300 bytes some servers insist on.\<close>

theorem decode_encode:
  assumes "length (chaddr p) \<le> 16" and "distinct order" and "optPad \<notin> set order" and "optEnd \<notin> set order"
    and "\<forall>c v. options p c = Some v \<longrightarrow> length v < 256"
  shows "decode (encode p order) = Some (Inr (received p order)) \<and> 300 \<le> length (encode p order)"
  by (rule decode_encode_options [OF assms])

definition ex_discover :: packet where
  "ex_discover = \<lparr>op = opRequest, xid = 0x12345678, flags = 0x8000, ciaddr = [], yiaddr = [], chaddr = [2, 0, 0, 0, 0, 1],
     options = [optMsgType \<mapsto> [msgDiscover], optParams \<mapsto> [optSubnet, optRouter, optDNS, optLeaseTime]]\<rparr>"

lemma ex_discover_ok:
  "length (chaddr ex_discover) \<le> 16" "distinct optionOrder" "optPad \<notin> set optionOrder" "optEnd \<notin> set optionOrder"
  "\<forall>c v. options ex_discover c = Some v \<longrightarrow> length v < 256"
proof -
  show "distinct optionOrder" "optPad \<notin> set optionOrder" "optEnd \<notin> set optionOrder" by code_simp+
  show "length (chaddr ex_discover) \<le> 16" "\<forall>c v. options ex_discover c = Some v \<longrightarrow> length v < 256"
    by (auto simp: ex_discover_def split: if_splits)
qed

theorem decode_encode_witness:
  "decode (encode ex_discover optionOrder) = Some (Inr (received ex_discover optionOrder))"
  using decode_encode [OF ex_discover_ok] by blast

text \<open>C31. The decoder is safe on every input: no byte sequence from the network makes it index or slice
  out of range.  What it accepts is at least 240 bytes long, carries the cookie, and has addresses
  of four bytes and a hardware address of at most sixteen.\<close>

theorem decode_safe:
  "decode b \<noteq> None
   \<and> (\<forall>p. decode b = Some (Inr p) \<longrightarrow>
        240 \<le> length b \<and> take 4 (drop 236 b) = magicCookie
        \<and> length (ciaddr p) = 4 \<and> length (yiaddr p) = 4 \<and> length (chaddr p) \<le> 16)"
proof (intro conjI allI impI)
  show "decode b \<noteq> None" by (rule decode_total)
  fix p assume p: "decode b = Some (Inr p)"
  then show l: "240 \<le> length b" by (auto simp: decode_def split: if_splits)
  then have s: "slice b 236 240 = Some (take 4 (drop 236 b))" "slice b 12 16 = Some (take 4 (drop 12 b))"
      "slice b 16 20 = Some (take 4 (drop 16 b))" by (simp_all add: slice_def)
  show "take 4 (drop 236 b) = magicCookie" "length (ciaddr p) = 4" "length (yiaddr p) = 4" "length (chaddr p) \<le> 16"
    using p l unfolding decode_def s
    by (auto simp: slice_def split: if_splits Option.bind_splits sum.splits)
qed

theorem decode_safe_witness:
  "length (yiaddr (received ex_discover optionOrder)) = 4"
proof -
  have "decode (encode ex_discover optionOrder) = Some (Inr (received ex_discover optionOrder))"
    using decode_encode_options [OF ex_discover_ok] by blast
  with decode_safe [of "encode ex_discover optionOrder"] show ?thesis by blast
qed

section \<open>Leases\<close>

lemma ipList_4: "a \<in> set (ipList v) \<Longrightarrow> length a = 4"
  by (induction v rule: ipList.induct) auto

lemma ipList_concat: "concat (ipList v) = take (4 * (length v div 4)) v"
proof (induction v rule: ipList.induct)
  case (1 a b c d v)
  have "(4 + length v) div 4 = 1 + length v div 4" using div_add_self1 [of 4 "length v"] by simp
  then have "4 * (length (a # b # c # d # v) div 4) = 4 + 4 * (length v div 4)" by simp
  then have "take (4 * (length (a # b # c # d # v) div 4)) (a # b # c # d # v)
      = [a, b, c, d] @ take (4 * (length v div 4)) v" by (simp only: take_add) simp
  with 1 show ?case by simp
qed auto

lemma length_to4_cases: "to4 a = [] \<or> length (to4 a) = 4"
  by (auto simp: to4_def)

lemma length_defaultMask: "to4 a \<noteq> [] \<Longrightarrow> length (defaultMask a) = 4"
  by (auto simp: defaultMask_def split: list.split)

lemma leaseFrom_fields:
  assumes "leaseFrom p = Inr l"
  shows "length (to4 (IP l)) = 4 \<and> to4 (IP l) \<noteq> [0, 0, 0, 0] \<and> length (Mask l) = 4
     \<and> (Router l = [] \<or> length (Router l) = 4) \<and> (Server l = [] \<or> length (Server l) = 4)
     \<and> list_all (\<lambda>d. length d = 4) (DNS l)
     \<and> concat (DNS l) = take (4 * (length (option_of p optDNS) div 4)) (option_of p optDNS)"
proof -
  have ne: "to4 (yiaddr p) \<noteq> []" and nz: "\<not> ip_equal (yiaddr p) ipv4zero" and l: "IP l = yiaddr p" "DNS l = ipList (option_of p optDNS)"
      "Mask l = (if length (option_of p optSubnet) = 4 then option_of p optSubnet else defaultMask (yiaddr p))"
      "Router l = (case ipList (option_of p optRouter) of [] \<Rightarrow> [] | r # _ \<Rightarrow> r)"
      "Server l = (case ipList (option_of p optServerID) of [] \<Rightarrow> [] | s # _ \<Rightarrow> s)"
    using assms by (auto simp: leaseFrom_def split: if_splits)
  have "to4 (yiaddr p) \<noteq> [0, 0, 0, 0]"
  proof
    assume z: "to4 (yiaddr p) = [0, 0, 0, 0]"
    have "ip_equal (yiaddr p) ipv4zero"
    proof (cases "length (yiaddr p) = 4")
      case True
      with z show ?thesis by (simp add: to4_def ip_equal_def ipv4zero_def v4InV6Prefix_def)
    next
      case False
      with z have "length (yiaddr p) = 16" "take 12 (yiaddr p) = v4InV6Prefix" "drop 12 (yiaddr p) = [0, 0, 0, 0]"
        by (auto simp: to4_def split: if_splits)
      then have "yiaddr p = ipv4zero" using append_take_drop_id [of 12 "yiaddr p"] by (simp add: ipv4zero_def)
      then show ?thesis by (simp add: ip_equal_def)
    qed
    with nz show False by simp
  qed
  moreover have "length (to4 (yiaddr p)) = 4" using ne length_to4_cases by blast
  moreover have "length (Mask l) = 4" using length_defaultMask [OF ne] l by auto
  moreover have "Router l = [] \<or> length (Router l) = 4" "Server l = [] \<or> length (Server l) = 4"
    unfolding l using ipList_4 [of _ "option_of p optRouter"] ipList_4 [of _ "option_of p optServerID"]
    by (auto split: list.split)
  ultimately show ?thesis using l(1,2) ipList_concat by (auto simp: list_all_iff intro: ipList_4)
qed

text \<open>C35. A lease taken from a received message can be configured: its address is an IPv4 address other
  than 0.0.0.0, its mask has four bytes, and router, server and name servers have four bytes each or
  are absent; the name servers are the option's bytes in groups of four, a rest dropped.\<close>

theorem leaseFrom_wf:
  assumes "leaseFrom p = Inr l"
  shows "length (to4 (IP l)) = 4 \<and> to4 (IP l) \<noteq> [0, 0, 0, 0] \<and> length (Mask l) = 4
     \<and> (Router l = [] \<or> length (Router l) = 4) \<and> (Server l = [] \<or> length (Server l) = 4)
     \<and> list_all (\<lambda>d. length d = 4) (DNS l)
     \<and> concat (DNS l) = take (4 * (length (option_of p optDNS) div 4)) (option_of p optDNS)"
  by (rule leaseFrom_fields [OF assms])

definition ex_ack :: packet where
  "ex_ack = zeroPacket\<lparr>yiaddr := [10, 0, 2, 15], options := [optDNS \<mapsto> [10, 0, 2, 3, 8, 8, 8, 8, 1], optRouter \<mapsto> [10, 0, 2, 2]]\<rparr>"

theorem leaseFrom_wf_witness:
  "\<exists>l. leaseFrom ex_ack = Inr l \<and> concat (DNS l) = [10, 0, 2, 3, 8, 8, 8, 8]"
proof -
  obtain l where l: "leaseFrom ex_ack = Inr l"
    by (simp add: leaseFrom_def ex_ack_def to4_def ip_equal_def ipv4zero_def v4InV6Prefix_def)
  have "option_of ex_ack optDNS = [10, 0, 2, 3, 8, 8, 8, 8, 1]"
    by (simp add: option_of_def get_opt_def ex_ack_def optDNS_def optRouter_def)
  with leaseFrom_wf [OF l] l show ?thesis by simp
qed

end
