(* ===== verification/DhcpRaw.thy ===== *)
theory DhcpRaw
  imports DhcpPacket
begin

text \<open>
  IPv4 and UDP by hand (\<open>internal/dhcp/raw.go\<close>): the checksum, the packet that carries a DHCP
  message, and what is taken from a received packet.
\<close>

section \<open>The checksum\<close>

definition ethPIP :: "16 word" where
  "ethPIP = 0x0800"

definition htons :: "16 word \<Rightarrow> 16 word" where
  "htons v = push_bit 8 v OR drop_bit 8 v"

text \<open>
  The two loops of \<open>checksum\<close>.  The sum is a 32-bit number and wraps around; the second loop ends
  because folding a number of more than 16 bits makes it smaller.
\<close>

fun sumPairs :: "bytes \<Rightarrow> 32 word \<Rightarrow> 32 word" where
  "sumPairs (x # y # b) s = sumPairs b (s + ucast (push_bit 8 (ucast x) OR ucast y :: 16 word))"
| "sumPairs [x] s = s + push_bit 8 (ucast x)"
| "sumPairs [] s = s"

lemma low_half: "unat (s AND 0xffff) = unat s mod 65536" for s :: "32 word"
proof -
  have m: "(0xffff :: 32 word) = mask 16" by (simp add: mask_eq_exp_minus_1)
  show ?thesis unfolding m by (simp flip: take_bit_eq_mask) (simp add: take_bit_eq_mod unat_mod_distrib)
qed

lemma high_half: "unat (drop_bit 16 s) = unat s div 65536" for s :: "32 word"
  by (simp add: drop_bit_eq_div unat_div_distrib)

lemma folded: "unat ((s AND 0xffff) + drop_bit 16 s) = unat s mod 65536 + unat s div 65536" for s :: "32 word"
proof -
  have "unat s < 2 ^ 32" using unsigned_less [of s] by simp
  then have "unat s mod 65536 + unat s div 65536 < 2 ^ 32" by simp
  then show ?thesis by (simp add: unat_word_ariths(1) low_half high_half)
qed

function foldSum :: "32 word \<Rightarrow> 32 word" where
  "foldSum s = (if drop_bit 16 s \<noteq> 0 then foldSum ((s AND 0xffff) + drop_bit 16 s) else s)"
  by pat_completeness auto
termination
proof (relation "measure unat")
  fix s :: "32 word"
  assume "drop_bit 16 s \<noteq> 0"
  then have "unat s div 65536 \<noteq> 0" using high_half [of s] by (metis unat_eq_zero)
  then have "unat s mod 65536 + unat s div 65536 < unat s"
    using div_mult_mod_eq [of "unat s" 65536] by linarith
  then show "((s AND 0xffff) + drop_bit 16 s, s) \<in> measure unat" by (simp add: folded)
qed simp

declare foldSum.simps [simp del]

definition checksum :: "bytes \<Rightarrow> 16 word" where
  "checksum b = NOT (ucast (foldSum (sumPairs b 0)))"

section \<open>Packets\<close>

definition ipprotoUDP :: byte where
  "ipprotoUDP = 17"

definition udpPacket :: "bytes \<Rightarrow> 16 word \<Rightarrow> 16 word \<Rightarrow> bytes" where
  "udpPacket payload srcPort dstPort =
     (let total = 20 + 8 + length payload;
          b = replicate total 0;
          b = b[0 := 0x45];
          b = copy_at b 2 4 (be16 (word_of_nat total));
          b = b[8 := 64];
          b = b[9 := ipprotoUDP];
          b = copy_at b 16 20 [255, 255, 255, 255];
          b = copy_at b 10 12 (be16 (checksum (take 20 b)));
          b = copy_at b 20 22 (be16 srcPort);
          b = copy_at b 22 24 (be16 dstPort);
          b = copy_at b 24 26 (be16 (word_of_nat (8 + length payload)))
      in copy_at b 28 total payload)"

text \<open>\<open>None\<close> is a panic, \<open>Some None\<close> the result \<open>(nil, false)\<close>.\<close>

definition udpPayload :: "bytes \<Rightarrow> 16 word \<Rightarrow> bytes option option" where
  "udpPayload b port =
     (if length b < 20 then Some None else do {
      b0 \<leftarrow> index b 0;
      b9 \<leftarrow> index b 9;
      if drop_bit 4 b0 \<noteq> 4 \<or> b9 \<noteq> ipprotoUDP then Some None else do {
      let ihl = unat (b0 AND 0x0f) * 4;
      totalb \<leftarrow> slice b 2 (length b);
      total16 \<leftarrow> get_be16 totalb;
      let total = unat total16;
      if ihl < 20 \<or> total > length b \<or> total < ihl + 8 then Some None else do {
      fragb \<leftarrow> slice b 6 (length b);
      frag \<leftarrow> get_be16 fragb;
      if frag AND 0x3fff \<noteq> 0 then Some None else do {
      udp \<leftarrow> slice b ihl total;
      portb \<leftarrow> slice udp 2 (length udp);
      dst \<leftarrow> get_be16 portb;
      if dst \<noteq> port then Some None else do {
      ulenb \<leftarrow> slice udp 4 (length udp);
      ulen16 \<leftarrow> get_be16 ulenb;
      let ulen = unat ulen16;
      if ulen < 8 \<or> ulen > length udp then Some None else do {
      r \<leftarrow> slice udp 8 ulen;
      Some (Some r)
      }}}}}})"

section \<open>The checksum is the one of RFC 1071\<close>

lemma byte_less: "unat x < 256" for x :: byte
  using unsigned_less [where ?'a = nat, of x] by simp

lemma foldSum_props:
  "unat (foldSum s) < 65536 \<and> unat (foldSum s) mod 65535 = unat s mod 65535
   \<and> (unat s \<noteq> 0 \<longrightarrow> unat (foldSum s) \<noteq> 0) \<and> unat (foldSum s) \<le> unat s"
proof (induction s rule: foldSum.induct)
  case (1 s)
  show ?case
  proof (cases "drop_bit 16 s \<noteq> 0")
    case True
    let ?t = "(s AND 0xffff) + drop_bit 16 s"
    have nz: "unat s div 65536 \<noteq> 0" using True high_half [of s] by (metis unat_eq_zero)
    define q r where "q = unat s div 65536" and "r = unat s mod 65536"
    have s: "unat s = 65536 * q + r" by (simp add: q_def r_def)
    have t: "unat ?t = r + q" by (simp add: folded q_def r_def)
    have "unat s = r + q + 65535 * q" using s by simp
    then have "unat ?t mod 65535 = unat s mod 65535" unfolding t by (simp only: mod_mult_self2)
    moreover have "q \<noteq> 0" using nz unfolding q_def .
    then have "unat ?t \<noteq> 0" "unat ?t \<le> unat s" unfolding s t by simp_all
    moreover have "foldSum s = foldSum ?t" unfolding foldSum.simps [of s] by (rule if_P [OF True])
    ultimately show ?thesis
      using 1 [OF True] order_trans [of "unat (foldSum ?t)" "unat ?t" "unat s"] by (simp only: simp_thms)
  next
    case False
    then have "unat s div 65536 = 0" using high_half [of s] by simp
    then have "unat s < 65536" by (simp add: div_eq_0_iff)
    with False show ?thesis by (simp add: foldSum.simps [of s])
  qed
qed

text \<open>The sum of the 16-bit numbers in a byte sequence, an odd byte at the end counting as a high byte.\<close>

fun sum16 :: "bytes \<Rightarrow> nat" where
  "sum16 (x # y # b) = 256 * unat x + unat y + sum16 b"
| "sum16 [x] = 256 * unat x"
| "sum16 [] = 0"

lemma unat_pair: "unat (ucast (push_bit 8 (ucast x) OR ucast y :: 16 word) :: 32 word) = 256 * unat x + unat y"
  for x y :: byte
proof -
  have d: "push_bit 8 (ucast x :: 16 word) OR ucast y = push_bit 8 (ucast x) + ucast y"
    by (rule disjunctive_add [symmetric]) (auto simp: bit_simps dest: bit_imp_le_length)
  have x: "unat x < 256" "unat y < 256" by (rule byte_less)+
  have "unat (push_bit 8 (ucast x :: 16 word)) = 256 * unat x"
    using x by (simp add: push_bit_eq_mult unat_word_ariths(2) unsigned_ucast_eq take_bit_nat_eq_self)
  moreover have "unat (ucast y :: 16 word) = unat y" using x by (simp add: unsigned_ucast_eq take_bit_nat_eq_self)
  ultimately have "unat (push_bit 8 (ucast x :: 16 word) OR ucast y) = 256 * unat x + unat y"
    using x unfolding d by (simp add: unat_word_ariths(1))
  then show ?thesis using x by (simp add: unsigned_ucast_eq take_bit_nat_eq_self)
qed

lemma unat_last: "unat (push_bit 8 (ucast x) :: 32 word) = 256 * unat x" for x :: byte
proof -
  have "unat x < 256" by (rule byte_less)
  then show ?thesis by (simp add: push_bit_eq_mult unat_word_ariths(2) unsigned_ucast_eq take_bit_nat_eq_self)
qed

lemma sumPairs_sum16: "unat s + sum16 b < 2 ^ 32 \<Longrightarrow> unat (sumPairs b s) = unat s + sum16 b"
proof (induction b s rule: sumPairs.induct)
  case (1 x y b s)
  have "unat (s + ucast (push_bit 8 (ucast x) OR ucast y :: 16 word)) = unat s + (256 * unat x + unat y)"
    using 1(2) by (simp add: unat_word_ariths(1) unat_pair)
  with 1 show ?case by simp
next
  case (2 x s)
  then show ?case by (simp add: unat_word_ariths(1) unat_last)
qed simp

lemma sum16_bound: "sum16 b \<le> 65535 * length b"
proof (induction b rule: sum16.induct)
  case (1 x y b)
  then show ?case using byte_less [of x] byte_less [of y] by simp
next
  case (2 x)
  then show ?case using byte_less [of x] by simp
qed simp

lemma sum16_append: "even (length a) \<Longrightarrow> sum16 (a @ b) = sum16 a + sum16 b"
  by (induction a rule: sum16.induct) auto

lemma sum16_be16: "sum16 (be16 v) = unat v"
proof -
  have v: "unat v < 65536" using unsigned_less [where ?'a = nat, of v] by simp
  have "unat (ucast (drop_bit 8 v) :: byte) = unat v div 256"
    using v by (simp add: unsigned_ucast_eq drop_bit_eq_div unat_div_distrib take_bit_eq_mod)
  moreover have "unat (ucast v :: byte) = unat v mod 256" by (simp add: unsigned_ucast_eq take_bit_eq_mod)
  ultimately show ?thesis by (simp add: be16_def)
qed

lemma unat_not16: "unat (NOT w) = 65535 - unat w" for w :: "16 word"
proof -
  have "NOT w = - 1 - w" by (simp add: not_eq_complement)
  moreover have "unat (- 1 :: 16 word) = 65535" by (simp add: unsigned_minus_1_eq_mask mask_eq_exp_minus_1)
  ultimately show ?thesis by (simp add: unat_sub)
qed

lemma unat_checksum:
  assumes "length b \<le> 65536"
  shows "unat (checksum b) = 65535 - unat (foldSum (sumPairs b 0))" and "unat (sumPairs b 0) = sum16 b"
proof -
  let ?F = "foldSum (sumPairs b 0)"
  have "unat ?F < 65536" using foldSum_props by blast
  then have "unat (ucast ?F :: 16 word) = unat ?F" by (simp add: unsigned_ucast_eq take_bit_nat_eq_self)
  then show "unat (checksum b) = 65535 - unat ?F"
    unfolding checksum_def unat_not16 by simp
  have "65535 * length b \<le> 65535 * 65536" using assms by simp
  then have "sum16 b < 2 ^ 32" using sum16_bound [of b] by simp
  then show "unat (sumPairs b 0) = sum16 b" using sumPairs_sum16 [of 0 b] by simp
qed

lemma checksum_embedded:
  assumes "even (length a)" and "length a + 2 + length c \<le> 65536"
  shows "checksum (a @ be16 (checksum (a @ [0, 0] @ c)) @ c) = 0"
proof -
  let ?b = "a @ [0, 0] @ c" and ?C = "checksum (a @ [0, 0] @ c)"
  let ?b' = "a @ be16 ?C @ c"
  define S where "S = sum16 ?b"
  define F where "F = unat (foldSum (sumPairs ?b 0))"
  have l: "length ?b \<le> 65536" "length ?b' \<le> 65536" using assms(2) by simp_all
  have C: "unat ?C = 65535 - F" and S: "unat (sumPairs ?b 0) = S" using unat_checksum [OF l(1)] by (simp_all add: F_def S_def)
  have F: "F < 65536" "F mod 65535 = S mod 65535" "F \<le> S"
    using foldSum_props [of "sumPairs ?b 0"] S by (simp_all add: F_def)
  have S': "sum16 ?b' = S + (65535 - F)"
    using sum16_append [OF assms(1), of "[0, 0] @ c"] sum16_append [OF assms(1), of "be16 ?C @ c"]
      sum16_append [of "be16 ?C" c] sum16_be16 [of ?C] C by (simp add: S_def)
  define F' where "F' = unat (foldSum (sumPairs ?b' 0))"
  have "unat (sumPairs ?b' 0) = S + (65535 - F)" using unat_checksum(2) [OF l(2)] S' by simp
  moreover have "65535 dvd S - F" using F(2,3) mod_eq_dvd_iff_nat [of F S 65535] by simp
  then obtain k where "S - F = 65535 * k" by (rule dvdE)
  then have k: "S = F + 65535 * k" using F(3) by simp
  ultimately have F': "F' < 65536" "F' mod 65535 = (65535 * (k + 1)) mod 65535" "F' \<noteq> 0"
    using foldSum_props [of "sumPairs ?b' 0"] F(1) by (simp_all add: F'_def)
  then have "F' = 65535" by (cases "F' < 65535") auto
  then have "unat (checksum ?b') = 0" using unat_checksum(1) [OF l(2)] by (simp add: F'_def)
  then show ?thesis by (rule unat_eq_zero [THEN iffD1])
qed

text \<open>C34. The checksum is the internet checksum: stored, at an even position, in the zero field it was
  computed over, it makes the checksum of the whole zero, which is what a receiver tests.  No
  overflow of the 32-bit sum is possible for data of up to 65536 bytes.\<close>

theorem checksum_verifies:
  assumes "even (length a)" and "length a + 2 + length c \<le> 65536"
  shows "checksum (a @ be16 (checksum (a @ [0, 0] @ c)) @ c) = 0"
  by (rule checksum_embedded [OF assms])

theorem checksum_verifies_witness:
  "checksum ([0x45, 0] @ be16 (checksum ([0x45, 0] @ [0, 0] @ [1, 2, 3])) @ [1, 2, 3]) = 0"
  by (rule checksum_verifies) simp_all

section \<open>The packet\<close>

text \<open>The IPv4 header around its checksum.\<close>

definition ip_front :: "nat \<Rightarrow> bytes" where
  "ip_front n = [0x45, 0] @ be16 (word_of_nat (28 + n)) @ [0, 0, 0, 0, 64, ipprotoUDP]"

definition ip_back :: bytes where
  "ip_back = [0, 0, 0, 0, 255, 255, 255, 255]"

definition udp_header :: "nat \<Rightarrow> 16 word \<Rightarrow> 16 word \<Rightarrow> bytes" where
  "udp_header n srcPort dstPort = be16 srcPort @ be16 dstPort @ be16 (word_of_nat (8 + n)) @ [0, 0]"

lemma copy_at_over:
  assumes "length a = i" and "length src = length m" and "j = i + length m"
  shows "copy_at (a @ m @ c) i j src = a @ src @ c"
  using assms by (simp add: copy_at_def)

lemma update_at: "length a = i \<Longrightarrow> (a @ x # c)[i := v] = a @ v # c"
  by (simp add: list_update_append)

lemma udpPacket_eq:
  "udpPacket payload src dst = ip_front (length payload)
     @ be16 (checksum (ip_front (length payload) @ [0, 0] @ ip_back)) @ ip_back
     @ udp_header (length payload) src dst @ payload"
proof -
  let ?n = "length payload" let ?Z = "replicate ?n (0::byte)"
  let ?t = "be16 (word_of_nat (28 + ?n))"
  have b0: "(replicate (20 + 8 + ?n) 0)[0 := 0x45] = [0x45, 0] @ [0, 0] @ replicate 4 0 @ 0 # 0 # replicate 18 0 @ ?Z"
    by (simp add: replicate_add numeral_eq_Suc)
  have b1: "copy_at ([0x45, 0] @ [0, 0] @ replicate 4 0 @ 0 # 0 # replicate 18 0 @ ?Z) 2 4 ?t
      = ([0x45, 0] @ ?t @ replicate 4 0) @ 0 # 0 # replicate 18 0 @ ?Z"
    using copy_at_over [of "[0x45, 0]" 2 ?t "[0, 0]" 4] by simp
  have b2: "(([0x45, 0] @ ?t @ replicate 4 0) @ 0 # 0 # replicate 18 0 @ ?Z)[8 := 64]
      = ([0x45, 0] @ ?t @ replicate 4 0 @ [64]) @ 0 # replicate 18 0 @ ?Z"
    using update_at [of "[0x45, 0] @ ?t @ replicate 4 0" 8] by simp
  have b3: "(([0x45, 0] @ ?t @ replicate 4 0 @ [64]) @ 0 # replicate 18 0 @ ?Z)[9 := ipprotoUDP]
      = ip_front ?n @ replicate 18 0 @ ?Z"
    using update_at [of "[0x45, 0] @ ?t @ replicate 4 0 @ [64]" 9] by (simp add: ip_front_def numeral_eq_Suc)
  have l: "length (ip_front ?n) = 10" by (simp add: ip_front_def)
  have r: "replicate 18 0 @ ?Z = [0, 0] @ replicate 4 0 @ replicate 4 0 @ replicate 8 0 @ ?Z"
    by (simp add: numeral_eq_Suc)
  have b4: "copy_at (ip_front ?n @ replicate 18 0 @ ?Z) 16 20 [255, 255, 255, 255]
      = ip_front ?n @ [0, 0] @ ip_back @ replicate 8 0 @ ?Z"
    unfolding r using copy_at_over [of "ip_front ?n @ [0, 0] @ replicate 4 0" 16 "[255, 255, 255, 255]" "replicate 4 0" 20] l
    by (simp add: ip_back_def numeral_eq_Suc)
  let ?h = "ip_front ?n @ [0, 0] @ ip_back"
  have t: "take 20 (ip_front ?n @ [0, 0] @ ip_back @ replicate 8 0 @ ?Z) = ?h"
    using l by (simp add: ip_back_def)
  define H where "H = ip_front ?n @ be16 (checksum ?h) @ ip_back"
  have lH: "length H = 20" using l by (simp add: H_def ip_back_def)
  have b5: "copy_at (ip_front ?n @ [0, 0] @ ip_back @ replicate 8 0 @ ?Z) 10 12 (be16 (checksum ?h))
      = H @ [0, 0] @ [0, 0] @ [0, 0] @ [0, 0] @ ?Z"
    using copy_at_over [of "ip_front ?n" 10 "be16 (checksum ?h)" "[0, 0]" 12] l by (simp add: H_def numeral_eq_Suc)
  have b6: "copy_at (H @ [0, 0] @ [0, 0] @ [0, 0] @ [0, 0] @ ?Z) 20 22 (be16 src) = H @ be16 src @ [0, 0] @ [0, 0] @ [0, 0] @ ?Z"
    using copy_at_over [of H 20 "be16 src" "[0, 0]" 22] lH by simp
  have b7: "copy_at (H @ be16 src @ [0, 0] @ [0, 0] @ [0, 0] @ ?Z) 22 24 (be16 dst) = H @ be16 src @ be16 dst @ [0, 0] @ [0, 0] @ ?Z"
    using copy_at_over [of "H @ be16 src" 22 "be16 dst" "[0, 0]" 24] lH by simp
  have b8: "copy_at (H @ be16 src @ be16 dst @ [0, 0] @ [0, 0] @ ?Z) 24 26 (be16 (word_of_nat (8 + ?n)))
      = H @ udp_header ?n src dst @ ?Z"
    using copy_at_over [of "H @ be16 src @ be16 dst" 24 "be16 (word_of_nat (8 + ?n))" "[0, 0]" 26] lH
    by (simp add: udp_header_def)
  have b9: "copy_at (H @ udp_header ?n src dst @ ?Z) 28 (20 + 8 + ?n) payload = H @ udp_header ?n src dst @ payload"
    using copy_at_over [of "H @ udp_header ?n src dst" 28 payload ?Z "28 + ?n" "[]"] lH by (simp add: udp_header_def)
  have n: "20 + 8 + ?n = 28 + ?n" by simp
  have "udpPacket payload src dst = H @ udp_header ?n src dst @ payload"
    unfolding udpPacket_def Let_def b0 b1 [unfolded n [symmetric]] b2 [unfolded n [symmetric]] b3 [unfolded n [symmetric]] b4 t b5 b6 b7 b8 b9 ..
  then show ?thesis by (simp add: H_def)
qed

lemma slice_rest: "i \<le> length b \<Longrightarrow> slice b i (length b) = Some (drop i b)"
  by (simp add: slice_def)

lemma index_ok: "i < length b \<Longrightarrow> index b i = Some (b ! i)"
  by (simp add: index_def)

lemma slice_udp:
  assumes "\<not> (i < 20 \<or> t > length b \<or> t < i + 8)"
  shows "slice b i t = Some (take (t - i) (drop i b))"
    and "\<exists>p. get_be16 (drop 2 (take (t - i) (drop i b))) = Some p"
    and "\<exists>u. get_be16 (drop 4 (take (t - i) (drop i b))) = Some u"
    and "2 \<le> length (take (t - i) (drop i b))" and "4 \<le> length (take (t - i) (drop i b))"
  using assms by (auto simp: slice_def intro!: get_be16_total)

lemma udpPayload_total: "udpPayload b port \<noteq> None"
proof (cases "length b < 20")
  case False
  obtain x where x: "get_be16 (drop 2 b) = Some x" using get_be16_total [of "drop 2 b"] False by fastforce
  obtain f where f: "get_be16 (drop 6 b) = Some f" using get_be16_total [of "drop 6 b"] False by fastforce
  have ix: "index b 0 = Some (b ! 0)" "index b 9 = Some (b ! 9)"
    and sl: "slice b 2 (length b) = Some (drop 2 b)" "slice b 6 (length b) = Some (drop 6 b)"
    using False by (auto simp: index_def slice_rest)
  show ?thesis
  proof (cases "unat (b ! 0 AND 0x0f) * 4 < 20 \<or> unat x > length b \<or> unat x < unat (b ! 0 AND 0x0f) * 4 + 8")
    case bad: True
    show ?thesis unfolding udpPayload_def Let_def if_not_P [OF False] ix sl Option.bind.bind_lunit x if_P [OF bad] by simp
  next
    case ok: False
    note u = slice_udp [OF ok]
    obtain p q where pq: "get_be16 (drop 2 (take (unat x - unat (b ! 0 AND 0x0f) * 4) (drop (unat (b ! 0 AND 0x0f) * 4) b))) = Some p"
      "get_be16 (drop 4 (take (unat x - unat (b ! 0 AND 0x0f) * 4) (drop (unat (b ! 0 AND 0x0f) * 4) b))) = Some q"
      using u by blast
    show ?thesis
      unfolding udpPayload_def Let_def if_not_P [OF False] ix sl Option.bind.bind_lunit x if_not_P [OF ok] f u(1)
        slice_rest [OF u(4)] slice_rest [OF u(5)] pq by (auto simp: slice_def)
  qed
qed (simp add: udpPayload_def)

text \<open>C32. Reading a received packet is safe on every input: nothing is indexed or sliced out of range.
  A payload that is accepted lies inside the packet, behind an IPv4 header of at least 20 bytes and
  a UDP header, and the packet says it is an unfragmented UDP packet.\<close>

theorem udpPayload_safe:
  "udpPayload b port \<noteq> None
   \<and> (\<forall>v. udpPayload b port = Some (Some v) \<longrightarrow>
        b ! 9 = ipprotoUDP \<and> drop_bit 4 (b ! 0) = 4
        \<and> (\<exists>i \<ge> 28. i + length v \<le> length b \<and> v = take (length v) (drop i b)))"
proof (intro conjI allI impI)
  show "udpPayload b port \<noteq> None" by (rule udpPayload_total)
  fix v assume v: "udpPayload b port = Some (Some v)"
  then have l: "20 \<le> length b" by (auto simp: udpPayload_def split: if_splits)
  then have ix: "index b 0 = Some (b ! 0)" "index b 9 = Some (b ! 9)" by (auto simp: index_def)
  from v l show "b ! 9 = ipprotoUDP" "drop_bit 4 (b ! 0) = 4"
    unfolding udpPayload_def Let_def ix by (auto split: if_splits)
  define i where "i = unat (b ! 0 AND 0x0f) * 4"
  obtain x u :: "16 word" where it: "20 \<le> i" "unat x \<le> length b" "i + 8 \<le> unat x"
      and u: "unat u \<le> unat x - i" "8 \<le> unat u"
      and s: "v = take (unat u - 8) (drop 8 (take (unat x - i) (drop i b)))"
    using v l unfolding udpPayload_def Let_def ix i_def [symmetric] Option.bind.bind_lunit
    by (auto simp: slice_def not_less i_def [symmetric] split: if_splits Option.bind_splits)
  have v: "v = take (unat u - 8) (drop (i + 8) b)" using it u unfolding s by (simp add: drop_take add.commute)
  moreover have "length v = unat u - 8" using v it u by simp
  ultimately show "\<exists>i \<ge> 28. i + length v \<le> length b \<and> v = take (length v) (drop i b)"
    using it u by (intro exI [of _ "i + 8"]) auto
qed

lemma unat_word_of_nat16: "n < 65536 \<Longrightarrow> unat (word_of_nat n :: 16 word) = n"
  by (simp add: unsigned_of_nat take_bit_nat_eq_self)

lemma udpPayload_udpPacket:
  assumes "28 + length payload < 65536"
  shows "udpPayload (udpPacket payload src dst) dst = Some (Some payload)"
proof -
  let ?n = "length payload"
  define H where "H = ip_front ?n @ be16 (checksum (ip_front ?n @ [0, 0] @ ip_back)) @ ip_back"
  define b where "b = udpPacket payload src dst"
  have b: "b = H @ udp_header ?n src dst @ payload" by (simp add: b_def udpPacket_eq H_def)
  have lH: "length H = 20" by (simp add: H_def ip_front_def ip_back_def)
  have lb: "length b = 28 + ?n" using lH by (simp add: b udp_header_def)
  have ix: "index b 0 = Some 0x45" "index b 9 = Some ipprotoUDP"
    by (simp_all add: index_def b H_def ip_front_def be16_def)
  have tot: "get_be16 (drop 2 b) = Some (word_of_nat (28 + ?n))"
  proof -
    have "drop 2 b = be16 (word_of_nat (28 + ?n)) @ drop 4 b" by (simp add: b H_def ip_front_def be16_def)
    then show ?thesis by simp
  qed
  have frag: "get_be16 (drop 6 b) = Some 0"
    by (simp add: b H_def ip_front_def be16_def get_be16_def)
  have udp: "slice b 20 (28 + ?n) = Some (udp_header ?n src dst @ payload)"
    using slice_append [of H 20 "28 + ?n" "udp_header ?n src dst @ payload" "[]"] lH by (simp add: b udp_header_def)
  let ?u = "udp_header ?n src dst @ payload"
  have port: "get_be16 (drop 2 ?u) = Some dst" "get_be16 (drop 4 ?u) = Some (word_of_nat (8 + ?n))"
    by (simp_all add: udp_header_def)
  have pay: "slice ?u 8 (8 + ?n) = Some payload"
    using slice_append [of "udp_header ?n src dst" 8 "8 + ?n" payload "[]"] by (simp add: udp_header_def)
  have lu: "length ?u = 8 + ?n" by (simp add: udp_header_def)
  have un: "unat (word_of_nat (28 + ?n) :: 16 word) = 28 + ?n" "unat (word_of_nat (8 + ?n) :: 16 word) = 8 + ?n"
    using assms by (intro unat_word_of_nat16; simp)+
  have v4: "drop_bit 4 (0x45 :: byte) = 4" "unat ((0x45 :: byte) AND 0x0f) * 4 = 20" by simp_all
  have sl: "slice b 2 (length b) = Some (drop 2 b)" "slice b 6 (length b) = Some (drop 6 b)"
      "slice ?u 2 (length ?u) = Some (drop 2 ?u)" "slice ?u 4 (length ?u) = Some (drop 4 ?u)"
    using lb lu by (intro slice_rest; simp)+
  have "udpPayload b dst = Some (Some payload)"
    unfolding udpPayload_def Let_def ix sl Option.bind.bind_lunit tot frag v4 un udp port pay
    using lu lb by simp
  then show ?thesis by (simp add: b_def)
qed

text \<open>C33. What \<open>udpPacket\<close> builds, \<open>udpPayload\<close> opens on the port it was sent to, for every payload
  that fits a packet, and the header checksum of the packet is right.\<close>

theorem udpPacket_roundtrip:
  assumes "28 + length payload < 65536"
  shows "udpPayload (udpPacket payload src dst) dst = Some (Some payload)
     \<and> checksum (take 20 (udpPacket payload src dst)) = 0"
proof -
  let ?f = "ip_front (length payload)"
  have l: "length ?f = 10" "length ip_back = 8" by (simp_all add: ip_front_def ip_back_def)
  have "take 20 (udpPacket payload src dst) = ?f @ be16 (checksum (?f @ [0, 0] @ ip_back)) @ ip_back"
    unfolding udpPacket_eq using l by simp
  moreover have "checksum (?f @ be16 (checksum (?f @ [0, 0] @ ip_back)) @ ip_back) = 0"
    by (rule checksum_embedded) (simp_all add: l)
  ultimately show ?thesis using udpPayload_udpPacket [OF assms] by simp
qed

theorem udpPacket_roundtrip_witness:
  "udpPayload (udpPacket [1, 2, 3] 68 67) 67 = Some (Some [1, 2, 3])"
  using udpPacket_roundtrip [of "[1, 2, 3]"] by simp

theorem udpPayload_safe_witness:
  "\<exists>i \<ge> 28. i + 3 \<le> length (udpPacket [1, 2, 3] 68 67) \<and> [1, 2, 3] = take 3 (drop i (udpPacket [1, 2, 3] 68 67))"
proof -
  have u: "udpPayload (udpPacket [1, 2, 3] 68 67) 67 = Some (Some [1, 2, 3])" by (rule udpPayload_udpPacket) simp
  have l: "length [1, 2, 3 :: byte] = 3" by simp
  from udpPayload_safe [THEN conjunct2, THEN spec, THEN mp, OF u] show ?thesis unfolding l by (elim conjE)
qed

end
