(* ===== verification/NetState.thy ===== *)
theory NetState
  imports DhcpRaw
begin

text \<open>
  The network as the program sees it: the clock, the packet socket of the DHCP client, the
  netlink socket of the kernel, the control socket of \<open>wpa_supplicant\<close>, and the file the name
  servers are written to.  What answers on the other end is not part of the sources and appears as
  the functions and schedules of the record; what the program sends is logged, newest first.
\<close>

text \<open>
  A command to \<open>wpa_supplicant\<close>: setting the deadline fails, or writing, or reading the reply; or
  there is a reply.
\<close>

datatype wpa_answer = DeadlineErr gerror | WriteErr gerror | ReadErr gerror | Reply string

text \<open>
  \<open>ifaces\<close> is \<open>net.InterfaceByName\<close>, index and hardware address; \<open>entropy\<close> the random numbers.
  \<open>inbox\<close>: the results of the coming \<open>recvfrom\<close> calls on the packet socket, each with the time
  that passes until it is there.  The other functions get the number of the call, so that they can
  answer differently each time.  \<open>quoteGo\<close> is \<open>strconv.Quote\<close>, which depends on the tables of the
  Unicode standard and appears in error messages only.
\<close>

record net =
  clock :: int
  ifaces :: "string \<Rightarrow> gerror + int \<times> bytes"
  rawOpen :: "int \<Rightarrow> gerror option"
  rands :: nat
  entropy :: "nat \<Rightarrow> 32 word"
  inbox :: "(nat \<times> (gerror + bytes)) list"
  sends :: nat
  sendFault :: "nat \<Rightarrow> gerror option"
  outbox :: "bytes list"
  kernel :: "nat \<Rightarrow> bytes \<Rightarrow> gerror + bytes"
  nlLog :: "bytes list"
  writeFault :: "string \<Rightarrow> gerror option"
  written :: "(string \<times> string) list"
  wpaDial :: "nat \<Rightarrow> gerror option"
  dials :: nat
  openConns :: nat
  wpa :: "nat \<Rightarrow> string \<Rightarrow> wpa_answer"
  wpaDelay :: "nat \<Rightarrow> nat"
  wpaLog :: "string list"
  quoteGo :: "string \<Rightarrow> string"

type_synonym 'a netio = "(net, 'a) state"

text \<open>
  A context: the time from which on it is cancelled, with the error it then has, and its deadline.
  Times are in nanoseconds.
\<close>

record ctx =
  cancelAt :: "(int \<times> gerror) option"
  ctxDeadline :: "int option"

definition ctxErr :: "ctx \<Rightarrow> int \<Rightarrow> gerror option" where
  "ctxErr c now = (case cancelAt c of Some (t, err) \<Rightarrow> if t \<le> now then Some err else None | None \<Rightarrow> None)"

definition second :: int where
  "second = 1000000000"

text \<open>\<open>context.Background()\<close>.\<close>

definition background :: ctx where
  "background = \<lparr>cancelAt = None, ctxDeadline = None\<rparr>"

text \<open>\<open>time.Sleep\<close> and everything else that lets time pass.\<close>

definition pass :: "int \<Rightarrow> unit netio" where
  "pass d = modify (clock_update (\<lambda>t. t + max 0 d))"

end
