(* ===== verification/DhcpNetlink.thy ===== *)
theory DhcpNetlink
  imports NetState
begin

text \<open>
  Addresses and routes through the kernel's netlink socket (\<open>internal/dhcp/netlink.go\<close>).
\<close>

section \<open>Messages\<close>

text \<open>Package \<open>encoding/binary\<close>: little-endian.\<close>

definition le16 :: "16 word \<Rightarrow> bytes" where
  "le16 v = [ucast v, ucast (drop_bit 8 v)]"

definition le32 :: "32 word \<Rightarrow> bytes" where
  "le32 v = [ucast v, ucast (drop_bit 8 v), ucast (drop_bit 16 v), ucast (drop_bit 24 v)]"

definition get_le16 :: "bytes \<Rightarrow> 16 word option" where
  "get_le16 b = (case b of x # y # _ \<Rightarrow> Some (ucast x OR push_bit 8 (ucast y)) | _ \<Rightarrow> None)"

definition get_le32 :: "bytes \<Rightarrow> 32 word option" where
  "get_le32 b = (case b of
     x # y # z # u # _ \<Rightarrow> Some (ucast x OR push_bit 8 (ucast y) OR push_bit 16 (ucast z) OR push_bit 24 (ucast u))
   | _ \<Rightarrow> None)"

definition rtProtBoot :: byte where "rtProtBoot = 3"
definition rtScopeUniv :: byte where "rtScopeUniv = 0"
definition rtTableMain :: byte where "rtTableMain = 254"
definition rtnUnicast :: byte where "rtnUnicast = 1"
definition nlmsgHdrLen :: nat where "nlmsgHdrLen = 16"
definition rtattrHdrLen :: nat where "rtattrHdrLen = 4"
definition ifaddrmsgLen :: nat where "ifaddrmsgLen = 8"
definition rtmsgLen :: nat where "rtmsgLen = 12"
definition nlmFRequest :: "16 word" where "nlmFRequest = 0x1"
definition nlmFAck :: "16 word" where "nlmFAck = 0x4"
definition nlmFCreate :: "16 word" where "nlmFCreate = 0x400"
definition nlmFReplace :: "16 word" where "nlmFReplace = 0x100"
definition nlmsgError :: "16 word" where "nlmsgError = 2"
definition ifaLocal :: "16 word" where "ifaLocal = 2"
definition ifaAddress :: "16 word" where "ifaAddress = 1"
definition ifaBroadcast :: "16 word" where "ifaBroadcast = 4"
definition rtaGateway :: "16 word" where "rtaGateway = 5"
definition rtaOif :: "16 word" where "rtaOif = 4"
definition rtmNewAddr :: "16 word" where "rtmNewAddr = 20"
definition rtmNewRoute :: "16 word" where "rtmNewRoute = 24"
definition afInet :: byte where "afInet = 2"

text \<open>\<open>(l+3)&^3\<close>: the next multiple of four.\<close>

definition align4 :: "nat \<Rightarrow> nat" where
  "align4 l = (l + 3) - (l + 3) mod 4"

definition attr :: "16 word \<Rightarrow> bytes \<Rightarrow> bytes" where
  "attr typ data =
     (let l = rtattrHdrLen + length data;
          b = replicate (align4 l) 0;
          b = copy_at b 0 2 (le16 (word_of_nat l));
          b = copy_at b 2 4 (le16 typ)
      in copy_at b rtattrHdrLen (length b) data)"

definition u32 :: "32 word \<Rightarrow> bytes" where
  "u32 v = le32 v"

definition requestMsg :: "16 word \<Rightarrow> 16 word \<Rightarrow> bytes \<Rightarrow> bytes" where
  "requestMsg typ flgs body =
     (let msg = replicate (nlmsgHdrLen + length body) 0;
          msg = copy_at msg 0 4 (le32 (word_of_nat (length msg)));
          msg = copy_at msg 4 6 (le16 typ);
          msg = copy_at msg 6 8 (le16 (flgs OR nlmFRequest OR nlmFAck));
          msg = copy_at msg 8 12 (le32 1)
      in copy_at msg nlmsgHdrLen (length msg) body)"

text \<open>What the reply in the buffer of 4096 bytes says.\<close>

definition replyError :: "bytes \<Rightarrow> gerror option" where
  "replyError reply =
     (let n = min 4096 (length reply);
          buf = take 4096 reply @ replicate (4096 - n) 0
      in if n < nlmsgHdrLen + 4 \<or> get_le16 (drop 4 buf) \<noteq> Some nlmsgError
         then Some (ErrText ''unexpected netlink reply'')
         else (case get_le32 (drop nlmsgHdrLen buf) of
            None \<Rightarrow> None
          | Some code \<Rightarrow> if code \<noteq> 0 then Some (Errno (sint (- code))) else None))"

text \<open>
  Opening, binding, sending and receiving fail in the same way, with the error of the call; the
  answer of \<open>kernel\<close> is the first such error or the reply.
\<close>

definition request :: "16 word \<Rightarrow> 16 word \<Rightarrow> bytes \<Rightarrow> (gerror option) netio" where
  "request typ flgs body = do {
     let msg = requestMsg typ flgs body;
     ans \<leftarrow> gets (\<lambda>s. kernel s (length (nlLog s)) msg);
     modify (nlLog_update (\<lambda>l. msg # l));
     return (case ans of Inl err \<Rightarrow> Some err | Inr reply \<Rightarrow> replyError reply)
   }"

text \<open>Package \<open>net\<close>: \<open>CIDRMask(ones, 32)\<close>.\<close>

fun maskBytes :: "nat \<Rightarrow> nat \<Rightarrow> bytes" where
  "maskBytes 0 n = []"
| "maskBytes (Suc i) n =
     (if n \<ge> 8 then 0xff # maskBytes i (n - 8) else NOT (drop_bit n 0xff) # maskBytes i 0)"

definition cidrMask :: "int \<Rightarrow> bytes" where
  "cidrMask ones = (if ones < 0 \<or> ones > 32 then [] else maskBytes 4 (nat ones))"

text \<open>The loop over the four bytes of the broadcast address; \<open>None\<close> when it indexes out of range.\<close>

fun broadcast :: "nat list \<Rightarrow> bytes \<Rightarrow> bytes \<Rightarrow> bytes option" where
  "broadcast [] a m = Some []"
| "broadcast (i # is) a m =
     (case index a i of None \<Rightarrow> None | Some x \<Rightarrow>
      (case index m i of None \<Rightarrow> None | Some y \<Rightarrow>
       map_option (\<lambda>r. (x OR NOT y) # r) (broadcast is a m)))"

definition addAddressBody :: "int \<Rightarrow> ip \<Rightarrow> int \<Rightarrow> bytes option" where
  "addAddressBody idx a prefixLen =
     (let body = replicate ifaddrmsgLen 0;
          body = body[0 := afInet];
          body = body[1 := word_of_int prefixLen];
          body = body[3 := rtScopeUniv];
          body = copy_at body 4 8 (le32 (word_of_int idx));
          body = body @ attr ifaLocal a;
          body = body @ attr ifaAddress a
      in map_option (\<lambda>bcast. body @ attr ifaBroadcast bcast) (broadcast [0, 1, 2, 3] a (cidrMask prefixLen)))"

definition addAddress :: "int \<Rightarrow> ip \<Rightarrow> int \<Rightarrow> (gerror option option) netio" where
  "addAddress idx a prefixLen =
     (case addAddressBody idx a prefixLen of
        None \<Rightarrow> return None
      | Some body \<Rightarrow> do {
          err \<leftarrow> request rtmNewAddr (nlmFCreate OR nlmFReplace) body;
          return (Some (if err = Some (Errno 17) then None else err))
        })"

definition addDefaultRouteBody :: "int \<Rightarrow> ip \<Rightarrow> bytes" where
  "addDefaultRouteBody idx gw =
     (let body = replicate rtmsgLen 0;
          body = body[0 := afInet];
          body = body[4 := rtTableMain];
          body = body[5 := rtProtBoot];
          body = body[6 := rtScopeUniv];
          body = body[7 := rtnUnicast];
          body = body @ attr rtaGateway gw
      in body @ attr rtaOif (u32 (word_of_int idx)))"

definition addDefaultRoute :: "int \<Rightarrow> ip \<Rightarrow> (gerror option) netio" where
  "addDefaultRoute idx gw =
     request rtmNewRoute (nlmFCreate OR nlmFReplace) (addDefaultRouteBody idx gw)"

section \<open>Reading a message back\<close>




lemma le16_length [simp]: "length (le16 v) = 2"
  by (simp add: le16_def)


lemma le16_get [simp]: "get_le16 (le16 v @ r) = Some v"
proof -
  have "ucast (ucast v :: byte) OR push_bit 8 (ucast (ucast (drop_bit 8 v) :: byte)) = v"
    by (rule bit_word_eqI) (auto simp: bit_simps)
  then show ?thesis by (simp add: le16_def get_le16_def)
qed






lemma broadcast_4:
  assumes "length a = 4" and "length m = 4"
  shows "broadcast [0, 1, 2, 3] a m = Some (map2 (\<lambda>x y. x OR NOT y) a m)"
proof -
  from assms obtain a0 a1 a2 a3 m0 m1 m2 m3 where "a = [a0, a1, a2, a3]" "m = [m0, m1, m2, m3]"
    by (auto simp: length_Suc_conv numeral_eq_Suc)
  then show ?thesis by (simp add: index_def)
qed

lemma length_cidrMask: "0 \<le> n \<Longrightarrow> n \<le> 32 \<Longrightarrow> length (cidrMask n) = 4"
proof -
  have "length (maskBytes i k) = i" for i k by (induction i arbitrary: k) auto
  then show "0 \<le> n \<Longrightarrow> n \<le> 32 \<Longrightarrow> ?thesis" by (simp add: cidrMask_def)
qed

lemma addAddressBody_Some:
  assumes "length a = 4" and "0 \<le> prefixLen" and "prefixLen \<le> 32"
  shows "\<exists>body. addAddressBody idx a prefixLen = Some body"
  unfolding addAddressBody_def Let_def broadcast_4 [OF assms(1) length_cidrMask [OF assms(2,3)]] by simp





end
