(* ===== verification/DhcpClient.thy ===== *)
theory DhcpClient
  imports DhcpNetlink
begin

text \<open>
  The DHCP client: the packet socket (\<open>internal/dhcp/raw.go\<close>), the exchange of messages, and the
  configuration of the interface (\<open>internal/dhcp/dhcp.go\<close>).  As in \<open>DhcpPacket\<close>, an outer \<open>None\<close>
  is a Go panic.
\<close>

section \<open>The packet socket\<close>

definition eAGAIN :: gerror where "eAGAIN = Errno 11"
definition eINTR :: gerror where "eINTR = Errno 4"

text \<open>
  \<open>recvfrom\<close> into a buffer of 2048 bytes, on a socket with a receive timeout.
\<close>

definition recvfrom :: "int \<Rightarrow> net \<Rightarrow> (gerror + bytes) \<times> net" where
  "recvfrom timeout s =
     (case inbox s of
        [] \<Rightarrow> (Inl eAGAIN, s\<lparr>clock := clock s + timeout\<rparr>)
      | (d, r) # rest \<Rightarrow>
          if timeout < int d
          then (Inl eAGAIN, s\<lparr>clock := clock s + timeout, inbox := (d - nat timeout, r) # rest\<rparr>)
          else (map_sum id (take 2048) r, s\<lparr>clock := clock s + int d, inbox := rest\<rparr>))"

text \<open>\<open>syscall.NsecToTimeval\<close> rounds up to microseconds.\<close>

definition timeval :: "int \<Rightarrow> int" where
  "timeval nsec = (nsec + 999) div 1000 * 1000"

lemma timeval_ge: "nsec \<le> timeval nsec"
  unfolding timeval_def using div_mult_mod_eq [of "nsec + 999" 1000] pos_mod_bound [of 1000 "nsec + 999"] by linarith

lemma recvfrom_progress:
  assumes "recvfrom t s = (r, s')" and "0 < t"
  shows "length (inbox s') < length (inbox s) \<or> length (inbox s') = length (inbox s) \<and> clock s' = clock s + t \<and> r = Inl eAGAIN"
  using assms by (auto simp: recvfrom_def split: list.splits prod.splits if_splits)

function recv :: "int \<Rightarrow> net \<Rightarrow> (gerror + bytes) option \<times> net" where
  "recv deadline s =
     (let wait = deadline - clock s in
      if wait \<le> 0 then (Some (Inl (ErrText ''timeout'')), s)
      else (case recvfrom (timeval wait) s of (r, s') \<Rightarrow>
        (case r of
           Inl err \<Rightarrow> if err = eAGAIN \<or> err = eINTR then recv deadline s' else (Some (Inl err), s')
         | Inr b \<Rightarrow>
             (case udpPayload b 68 of
                None \<Rightarrow> (None, s')
              | Some (Some payload) \<Rightarrow> (Some (Inr payload), s')
              | Some None \<Rightarrow> recv deadline s'))))"
  by pat_completeness auto
termination
proof (relation "measures [\<lambda>(d, s). length (inbox s), \<lambda>(d, s). nat (d - clock s)]", goal_cases)
  case (2 deadline s wait r s' err)
  then show ?case
    using recvfrom_progress [of "timeval wait" s r s'] timeval_ge [of wait] by auto
next
  case (3 deadline s wait r s' b)
  then show ?case
    using recvfrom_progress [of "timeval wait" s r s'] timeval_ge [of wait] by auto
qed simp

declare recv.simps [simp del]

definition send :: "bytes \<Rightarrow> net \<Rightarrow> gerror option \<times> net" where
  "send payload s =
     (case sendFault s (sends s) of
        Some err \<Rightarrow> (Some err, s\<lparr>sends := sends s + 1\<rparr>)
      | None \<Rightarrow> (None, s\<lparr>sends := sends s + 1, outbox := udpPacket payload 68 67 # outbox s\<rparr>))"

section \<open>Messages back and forth\<close>

lemma recv_consumes:
  "recv deadline s = (Some (Inr b), s') \<Longrightarrow> length (inbox s') < length (inbox s)"
proof (induction deadline s rule: recv.induct)
  case (1 deadline s)
  show ?case
  proof (cases "deadline - clock s \<le> 0")
    case True
    with 1(3) show ?thesis by (simp add: recv.simps [of deadline s])
  next
    case False
    obtain r s1 where rs: "recvfrom (timeval (deadline - clock s)) s = (r, s1)" by (cases "recvfrom (timeval (deadline - clock s)) s")
    have p: "length (inbox s1) < length (inbox s) \<or> length (inbox s1) = length (inbox s) \<and> r = Inl eAGAIN"
      using recvfrom_progress [OF rs] timeval_ge [of "deadline - clock s"] False by auto
    show ?thesis
    proof (cases r)
      case (Inl err)
      show ?thesis
      proof (cases "err = eAGAIN \<or> err = eINTR")
        case True
        then have "recv deadline s1 = (Some (Inr b), s')"
          using 1(3) False rs Inl by (simp add: recv.simps [of deadline s])
        from 1(1) [OF refl False rs [symmetric] Inl True this] p show ?thesis by auto
      next
        case f: False
        with 1(3) False rs Inl show ?thesis by (simp add: recv.simps [of deadline s])
      qed
    next
      case (Inr c)
      with p have l: "length (inbox s1) < length (inbox s)" by auto
      show ?thesis
      proof (cases "udpPayload c 68")
        case None
        with 1(3) False rs Inr show ?thesis by (simp add: recv.simps [of deadline s])
      next
        case (Some v)
        show ?thesis
        proof (cases v)
          case None
          with Some have "recv deadline s1 = (Some (Inr b), s')"
            using 1(3) False rs Inr by (simp add: recv.simps [of deadline s])
          from 1(2) [OF refl False rs [symmetric] Inr Some None this] l show ?thesis by simp
        next
          case (Some w)
          with \<open>udpPayload c 68 = Some v\<close> 1(3) False rs Inr l show ?thesis by (simp add: recv.simps [of deadline s])
        qed
      qed
    qed
  qed
qed

text \<open>
  The inner loop of \<open>exchange\<close>: read until the deadline.  \<open>Some None\<close> leaves the loop for the next
  attempt.
\<close>

function awaitReply :: "int \<Rightarrow> 32 word \<Rightarrow> byte \<Rightarrow> net \<Rightarrow> (gerror + packet) option option \<times> net" where
  "awaitReply deadline xid0 want s =
     (if clock s < deadline then
        (case recv deadline s of
           (None, s') \<Rightarrow> (None, s')
         | (Some (Inl err), s') \<Rightarrow> (Some None, s')
         | (Some (Inr payload), s') \<Rightarrow>
             (case decode payload of
                None \<Rightarrow> (None, s')
              | Some (Inl err) \<Rightarrow> awaitReply deadline xid0 want s'
              | Some (Inr p) \<Rightarrow>
                  if op p \<noteq> opReply \<or> xid p \<noteq> xid0 then awaitReply deadline xid0 want s'
                  else if msgType p = want then (Some (Some (Inr p)), s')
                  else if msgType p = msgNak
                  then (Some (Some (Inl (ErrText ''the server refused the request''))), s')
                  else awaitReply deadline xid0 want s'))
      else (Some None, s))"
  by pat_completeness auto
termination
  by (relation "measure (\<lambda>(d, x, m, s). length (inbox s))") (auto dest: recv_consumes [OF sym])

declare awaitReply.simps [simp del]

definition exchangeDeadline :: "ctx \<Rightarrow> nat \<Rightarrow> int \<Rightarrow> int" where
  "exchangeDeadline c attempt now =
     (let deadline = now + int (2 + attempt * 2) * second in
      case ctxDeadline c of Some d \<Rightarrow> if d < deadline then d else deadline | None \<Rightarrow> deadline)"

text \<open>The outer loop, over the attempts that are left.\<close>

fun exchangeFrom :: "ctx \<Rightarrow> bytes \<Rightarrow> 32 word \<Rightarrow> byte \<Rightarrow> nat list \<Rightarrow> net \<Rightarrow> (gerror + packet) option \<times> net" where
  "exchangeFrom c msg xid0 want [] s = (Some (Inl (ErrText ''no answer from a DHCP server'')), s)"
| "exchangeFrom c msg xid0 want (attempt # attempts) s =
     (case ctxErr c (clock s) of
        Some err \<Rightarrow> (Some (Inl err), s)
      | None \<Rightarrow>
          (case send msg s of
             (Some err, s1) \<Rightarrow> (Some (Inl err), s1)
           | (None, s1) \<Rightarrow>
               (case awaitReply (exchangeDeadline c attempt (clock s1)) xid0 want s1 of
                  (None, s2) \<Rightarrow> (None, s2)
                | (Some (Some r), s2) \<Rightarrow> (Some r, s2)
                | (Some None, s2) \<Rightarrow> exchangeFrom c msg xid0 want attempts s2)))"

definition exchange :: "ctx \<Rightarrow> bytes \<Rightarrow> 32 word \<Rightarrow> byte \<Rightarrow> net \<Rightarrow> (gerror + packet) option \<times> net" where
  "exchange c msg xid0 want = exchangeFrom c msg xid0 want [0, 1, 2, 3, 4]"

definition requestParams :: bytes where
  "requestParams = [optSubnet, optRouter, optDNS, optLeaseTime]"

definition basePacket :: "32 word \<Rightarrow> bytes \<Rightarrow> packet" where
  "basePacket xid0 hw = zeroPacket\<lparr>op := opRequest, xid := xid0, flags := 0x8000, chaddr := hw\<rparr>"

definition discoverPacket :: "32 word \<Rightarrow> bytes \<Rightarrow> packet" where
  "discoverPacket xid0 hw =
     (basePacket xid0 hw)\<lparr>options := [optMsgType \<mapsto> [msgDiscover], optParams \<mapsto> requestParams]\<rparr>"

definition requestPacket :: "32 word \<Rightarrow> bytes \<Rightarrow> packet \<Rightarrow> packet" where
  "requestPacket xid0 hw offer =
     (let opts = [optMsgType \<mapsto> [msgRequest], optRequested \<mapsto> to4 (yiaddr offer), optParams \<mapsto> requestParams];
          sid = option_of offer optServerID
      in (basePacket xid0 hw)\<lparr>options := (if length sid = 4 then opts(optServerID \<mapsto> sid) else opts)\<rparr>)"

definition Acquire :: "ctx \<Rightarrow> string \<Rightarrow> net \<Rightarrow> (gerror + lease) option \<times> net" where
  "Acquire c iface s =
     (case ifaces s iface of
        Inl err \<Rightarrow> (Some (Inl err), s)
      | Inr (idx, hw) \<Rightarrow>
     (case rawOpen s idx of
        Some err \<Rightarrow> (Some (Inl err), s)
      | None \<Rightarrow>
     let xid0 = entropy s (rands s); s0 = s\<lparr>rands := rands s + 1\<rparr> in
     (case exchange c (encode (discoverPacket xid0 hw) optionOrder) xid0 msgOffer s0 of
        (None, s1) \<Rightarrow> (None, s1)
      | (Some (Inl err), s1) \<Rightarrow> (Some (Inl (Wrap (''dhcp on '' @ iface @ '': '') err)), s1)
      | (Some (Inr offer), s1) \<Rightarrow>
     (case exchange c (encode (requestPacket xid0 hw offer) optionOrder) xid0 msgAck s1 of
        (None, s2) \<Rightarrow> (None, s2)
      | (Some (Inl err), s2) \<Rightarrow> (Some (Inl (Wrap (''dhcp on '' @ iface @ '': '') err)), s2)
      | (Some (Inr ack), s2) \<Rightarrow> (Some (leaseFrom ack), s2)))))"

section \<open>Configuration\<close>

text \<open>\<open>net.IP.String\<close>.\<close>

definition hex_digit :: "nat \<Rightarrow> char" where
  "hex_digit d = ''0123456789abcdef'' ! d"

fun hex_nat :: "nat \<Rightarrow> string" where
  "hex_nat n = (if n < 16 then [hex_digit n] else hex_nat (n div 16) @ [hex_digit (n mod 16)])"

definition hex_byte :: "byte \<Rightarrow> string" where
  "hex_byte b = [hex_digit (unat b div 16), hex_digit (unat b mod 16)]"

fun groups :: "bytes \<Rightarrow> nat list" where
  "groups (x # y # b) = (256 * unat x + unat y) # groups b"
| "groups _ = []"

text \<open>The longest run of at least two zero groups, the first of several.\<close>

fun longest_zeros :: "nat \<Rightarrow> nat list \<Rightarrow> nat \<times> nat \<Rightarrow> nat \<times> nat" where
  "longest_zeros i [] best = best"
| "longest_zeros i (g # gs) best =
     (let l = length (takeWhile (\<lambda>x. x = 0) (g # gs))
      in longest_zeros (i + 1) gs (if 2 \<le> l \<and> snd best < l then (i, l) else best))"

definition ip6_string :: "bytes \<Rightarrow> string" where
  "ip6_string b =
     (let gs = groups b; (st, l) = longest_zeros 0 gs (0, 0) in
      if l = 0 then join '':'' (map hex_nat gs)
      else join '':'' (map hex_nat (take st gs)) @ ''::'' @ join '':'' (map hex_nat (drop (st + l) gs)))"

definition ip_string :: "ip \<Rightarrow> string" where
  "ip_string a =
     (if a = [] then ''<nil>''
      else if length a \<noteq> 4 \<and> length a \<noteq> 16 then CHR ''?'' # concat (map hex_byte a)
      else if to4 a \<noteq> [] then join ''.'' (map (\<lambda>x. utoa (unat x)) (to4 a))
      else ip6_string a)"

text \<open>\<open>net.IPMask.Size\<close>, the number of ones.\<close>

fun leadingOnes :: "nat \<Rightarrow> byte \<Rightarrow> nat" where
  "leadingOnes 0 v = 0"
| "leadingOnes (Suc k) v = (if v AND 0x80 \<noteq> 0 then Suc (leadingOnes k (push_bit 1 v)) else 0)"

fun maskLength :: "bytes \<Rightarrow> nat option" where
  "maskLength [] = Some 0"
| "maskLength (v # m) =
     (if v = 0xff then map_option (\<lambda>n. 8 + n) (maskLength m)
      else if push_bit (leadingOnes 8 v) v \<noteq> 0 \<or> list_ex (\<lambda>x. x \<noteq> 0) m then None
      else Some (leadingOnes 8 v))"

definition maskSize :: "bytes \<Rightarrow> int" where
  "maskSize m = (case maskLength m of None \<Rightarrow> 0 | Some n \<Rightarrow> int n)"

definition resolvText :: "ip list \<Rightarrow> string" where
  "resolvText ds = concat (map (\<lambda>d. ''nameserver '' @ ip_string d @ ''\<newline>'') ds)"

definition writeResolv :: "string \<Rightarrow> string \<Rightarrow> (gerror option) netio" where
  "writeResolv path t = do {
     bad \<leftarrow> gets (\<lambda>s. writeFault s path);
     case bad of
       Some err \<Rightarrow> return (Some err)
     | None \<Rightarrow> do { modify (written_update (\<lambda>l. (path, t) # l)); return None }
   }"

definition Configure :: "string \<Rightarrow> lease \<Rightarrow> string \<Rightarrow> (gerror option option) netio" where
  "Configure iface l resolv = do {
     ifi \<leftarrow> gets (\<lambda>s. ifaces s iface);
     case ifi of
       Inl err \<Rightarrow> return (Some (Some err))
     | Inr (idx, hw) \<Rightarrow> do {
     let ones = maskSize (Mask l);
     e1 \<leftarrow> addAddress idx (to4 (IP l)) ones;
     case e1 of
       None \<Rightarrow> return None
     | Some (Some err) \<Rightarrow>
         return (Some (Some (Wrap (''address '' @ ip_string (IP l) @ ''/'' @ itoa ones @ '' on '' @ iface @ '': '') err)))
     | Some None \<Rightarrow> do {
     e2 \<leftarrow> (if Router l \<noteq> [] then addDefaultRoute idx (to4 (Router l)) else return None);
     case e2 of
       Some err \<Rightarrow> return (Some (Some (Wrap (''route via '' @ ip_string (Router l) @ '': '') err)))
     | None \<Rightarrow>
     if DNS l \<noteq> [] \<and> resolv \<noteq> [] then do { e3 \<leftarrow> writeResolv resolv (resolvText (DNS l)); return (Some e3) }
     else return (Some None) }}
   }"

section \<open>Waiting\<close>

text \<open>
  \<open>waited t s s'\<close>: from \<open>s\<close> to \<open>s'\<close> only time passed, at most up to \<open>t\<close>, and packets were taken
  from the inbox.
\<close>

definition waited :: "int \<Rightarrow> net \<Rightarrow> net \<Rightarrow> bool" where
  "waited t s s' \<longleftrightarrow>
     s'\<lparr>clock := 0, inbox := []\<rparr> = s\<lparr>clock := 0, inbox := []\<rparr>
     \<and> clock s \<le> clock s' \<and> clock s' \<le> max (clock s) t \<and> snd ` set (inbox s') \<subseteq> snd ` set (inbox s)"

lemma waited_refl: "waited t s s"
  by (simp add: waited_def)

lemma waited_trans: "waited t s s1 \<Longrightarrow> waited t s1 s2 \<Longrightarrow> waited t s s2"
  unfolding waited_def by (elim conjE) (intro conjI, simp, linarith, linarith, blast)

lemma timeval_less: "timeval nsec \<le> nsec + 999"
  unfolding timeval_def using div_mult_mod_eq [of "nsec + 999" 1000] pos_mod_sign [of 1000 "nsec + 999"] by linarith

lemma waited_recvfrom:
  assumes "recvfrom (timeval (deadline - clock s)) s = (r, s')" and "clock s < deadline"
  shows "waited (deadline + 999) s s'"
proof -
  have t: "0 < timeval (deadline - clock s)" "timeval (deadline - clock s) \<le> deadline - clock s + 999"
    using timeval_ge [of "deadline - clock s"] timeval_less [of "deadline - clock s"] assms(2) by linarith+
  show ?thesis
  proof (cases "inbox s")
    case Nil
    then have "s' = s\<lparr>clock := clock s + timeval (deadline - clock s), inbox := []\<rparr>"
      using assms(1) by (cases s) (auto simp: recvfrom_def)
    with t show ?thesis by (simp add: waited_def)
  next
    case (Cons p rest)
    obtain d x where p: "p = (d, x)" by (cases p)
    show ?thesis
    proof (cases "timeval (deadline - clock s) < int d")
      case True
      then have "s' = s\<lparr>clock := clock s + timeval (deadline - clock s), inbox := (d - nat (timeval (deadline - clock s)), x) # rest\<rparr>"
        using assms(1) Cons p by (auto simp: recvfrom_def)
      with t Cons p show ?thesis by (auto simp: waited_def)
    next
      case False
      then have "s' = s\<lparr>clock := clock s + int d, inbox := rest\<rparr>"
        using assms(1) Cons p by (auto simp: recvfrom_def)
      with t False Cons p show ?thesis by (auto simp: waited_def)
    qed
  qed
qed

text \<open>What \<open>recv\<close> returns is the payload of a packet that was in the inbox.\<close>

definition arrives :: "net \<Rightarrow> bytes \<Rightarrow> bool" where
  "arrives s payload \<longleftrightarrow> (\<exists>b. Inr b \<in> snd ` set (inbox s) \<and> udpPayload (take 2048 b) 68 = Some (Some payload))"

lemma recvfrom_inbox: "recvfrom t s = (Inr c, s') \<Longrightarrow> \<exists>b. Inr b \<in> snd ` set (inbox s) \<and> c = take 2048 b"
  by (cases "inbox s") (force simp: recvfrom_def map_sum_def split: if_splits sum.splits prod.splits)+

lemma arrives_waited: "waited t s s' \<Longrightarrow> arrives s' p \<Longrightarrow> arrives s p"
  unfolding waited_def arrives_def by blast

definition recv_ok :: "int \<Rightarrow> net \<Rightarrow> (gerror + bytes) option \<Rightarrow> net \<Rightarrow> bool" where
  "recv_ok deadline s r s' \<longleftrightarrow> waited (deadline + 999) s s' \<and> r \<noteq> None \<and> (\<forall>p. r = Some (Inr p) \<longrightarrow> arrives s p)"

lemma recv_ok: "recv deadline s = (r, s') \<Longrightarrow> recv_ok deadline s r s'"
proof (induction deadline s rule: recv.induct)
  case (1 deadline s)
  show ?case
  proof (cases "deadline - clock s \<le> 0")
    case True
    with 1(3) show ?thesis by (auto simp: recv.simps [of deadline s] recv_ok_def waited_refl)
  next
    case False
    obtain x s1 where rs: "recvfrom (timeval (deadline - clock s)) s = (x, s1)" by (cases "recvfrom (timeval (deadline - clock s)) s")
    have w: "waited (deadline + 999) s s1" using waited_recvfrom [OF rs] False by simp
    have step: "recv_ok deadline s r s'" if "recv_ok deadline s1 r s'"
      using that w waited_trans [OF w] arrives_waited [OF w] by (auto simp: recv_ok_def)
    show ?thesis
    proof (cases x)
      case (Inl err)
      show ?thesis
      proof (cases "err = eAGAIN \<or> err = eINTR")
        case True
        then have "recv deadline s1 = (r, s')" using 1(3) False rs Inl by (simp add: recv.simps [of deadline s])
        from 1(1) [OF refl False rs [symmetric] Inl True this] show ?thesis by (rule step)
      next
        case f: False
        with 1(3) False rs Inl w show ?thesis by (auto simp: recv.simps [of deadline s] recv_ok_def)
      qed
    next
      case (Inr c)
      obtain v where v: "udpPayload c 68 = Some v" using udpPayload_total by blast
      show ?thesis
      proof (cases v)
        case None
        with v have "recv deadline s1 = (r, s')" using 1(3) False rs Inr by (simp add: recv.simps [of deadline s])
        from 1(2) [OF refl False rs [symmetric] Inr v None this] show ?thesis by (rule step)
      next
        case (Some p)
        then have r: "r = Some (Inr p)" "s' = s1" using v 1(3) False rs Inr by (auto simp: recv.simps [of deadline s])
        obtain b where "Inr b \<in> snd ` set (inbox s)" "c = take 2048 b" using recvfrom_inbox rs Inr by blast
        then have "arrives s p" using v Some unfolding arrives_def by auto
        with w show ?thesis by (simp add: recv_ok_def r)
      qed
    qed
  qed
qed

text \<open>What \<open>awaitReply\<close> returns is a reply to the exchange.\<close>

definition answer :: "32 word \<Rightarrow> byte \<Rightarrow> net \<Rightarrow> packet \<Rightarrow> bool" where
  "answer xid0 want s p \<longleftrightarrow> op p = opReply \<and> xid p = xid0 \<and> msgType p = want
     \<and> (\<exists>payload. arrives s payload \<and> decode payload = Some (Inr p))"

definition await_ok :: "int \<Rightarrow> 32 word \<Rightarrow> byte \<Rightarrow> net \<Rightarrow> (gerror + packet) option option \<Rightarrow> net \<Rightarrow> bool" where
  "await_ok deadline xid0 want s r s' \<longleftrightarrow>
     waited (deadline + 999) s s' \<and> r \<noteq> None \<and> (\<forall>p. r = Some (Some (Inr p)) \<longrightarrow> answer xid0 want s p)"

lemma awaitReply_ok: "awaitReply deadline xid0 want s = (r, s') \<Longrightarrow> await_ok deadline xid0 want s r s'"
proof (induction deadline xid0 want s rule: awaitReply.induct)
  case (1 deadline xid0 want s)
  show ?case
  proof (cases "clock s < deadline")
    case False
    with 1(4) show ?thesis by (auto simp: awaitReply.simps [of deadline] await_ok_def waited_refl)
  next
    case True
    obtain x s1 where rs: "recv deadline s = (x, s1)" by (cases "recv deadline s")
    from recv_ok [OF rs] have w: "waited (deadline + 999) s s1" and x: "x \<noteq> None" "\<And>p. x = Some (Inr p) \<Longrightarrow> arrives s p"
      by (auto simp: recv_ok_def)
    have step: "await_ok deadline xid0 want s r s'" if "await_ok deadline xid0 want s1 r s'"
      using that waited_trans [OF w] arrives_waited [OF w] by (fastforce simp: await_ok_def answer_def)
    consider e where "x = Some (Inl e)" | b where "x = Some (Inr b)" using x(1) by (metis not_None_eq sum.exhaust)
    then show ?thesis
    proof cases
      case 1
      with \<open>awaitReply deadline xid0 want s = (r, s')\<close> True rs w show ?thesis
        by (auto simp: awaitReply.simps [of deadline] await_ok_def)
    next
      case (2 b)
      obtain d where d: "decode b = Some d" using decode_total by blast
      show ?thesis
      proof (cases d)
        case (Inl e)
        then have "awaitReply deadline xid0 want s1 = (r, s')" using 1(4) True rs 2 d by (simp add: awaitReply.simps [of deadline xid0 want s])
        from 1(1) [OF True rs [symmetric] 2 refl d Inl this] show ?thesis by (rule step)
      next
        case (Inr p)
        note ev = awaitReply.simps [of deadline xid0 want s]
        show ?thesis
        proof (cases "op p \<noteq> opReply \<or> xid p \<noteq> xid0")
          case bad: True
          then have "awaitReply deadline xid0 want s1 = (r, s')" using 1(4) True rs 2 d Inr by (simp add: ev)
          from 1(2) [OF True rs [symmetric] 2 refl d Inr bad this] show ?thesis by (rule step)
        next
          case ok: False
          show ?thesis
          proof (cases "msgType p = want \<or> msgType p = msgNak")
            case True
            have "r = Some (Some (if msgType p = want then Inr p else Inl (ErrText ''the server refused the request'')))" "s' = s1"
              using 1(4) \<open>clock s < deadline\<close> rs 2 d Inr ok True unfolding ev by (auto split: if_splits)
            with w x(2) [OF 2] d Inr ok show ?thesis by (auto simp: await_ok_def answer_def split: if_splits)
          next
            case f: False
            then have "awaitReply deadline xid0 want s1 = (r, s')" using 1(4) True rs 2 d Inr ok by (auto simp: ev)
            from 1(3) [OF True rs [symmetric] 2 refl d Inr ok _ _ this] f show ?thesis by (auto intro: step)
          qed
        qed
      qed
    qed
  qed
qed

section \<open>The exchange\<close>

text \<open>
  \<open>exchanged msg T k s s'\<close>: at most \<open>k\<close> copies of the message were sent and at most \<open>T\<close>
  nanoseconds passed.
\<close>

definition exchanged :: "bytes \<Rightarrow> int \<Rightarrow> nat \<Rightarrow> net \<Rightarrow> net \<Rightarrow> bool" where
  "exchanged msg T k s s' \<longleftrightarrow>
     s'\<lparr>clock := 0, inbox := [], sends := 0, outbox := []\<rparr> = s\<lparr>clock := 0, inbox := [], sends := 0, outbox := []\<rparr>
     \<and> clock s \<le> clock s' \<and> clock s' \<le> clock s + T \<and> snd ` set (inbox s') \<subseteq> snd ` set (inbox s)
     \<and> (\<exists>j \<le> k. outbox s' = replicate j (udpPacket msg 68 67) @ outbox s)"

lemma exchanged_refl: "0 \<le> T \<Longrightarrow> exchanged msg T k s s"
  by (auto simp: exchanged_def)

lemma exchanged_trans:
  assumes "exchanged msg T k s s1" and "exchanged msg T' k' s1 s2"
  shows "exchanged msg (T + T') (k + k') s s2"
proof -
  from assms obtain j j' where j: "j \<le> k" "outbox s1 = replicate j (udpPacket msg 68 67) @ outbox s"
      "j' \<le> k'" "outbox s2 = replicate j' (udpPacket msg 68 67) @ outbox s1" unfolding exchanged_def by blast
  have "outbox s2 = replicate (j' + j) (udpPacket msg 68 67) @ outbox s" using j by (simp add: replicate_add)
  moreover have "j' + j \<le> k + k'" using j by simp
  ultimately have "\<exists>j \<le> k + k'. outbox s2 = replicate j (udpPacket msg 68 67) @ outbox s" by blast
  with assms show ?thesis unfolding exchanged_def by (elim conjE) (intro conjI, simp, linarith, linarith, blast, blast)
qed

lemma exchanged_arrives: "exchanged msg T k s s' \<Longrightarrow> answer x m s' p \<Longrightarrow> answer x m s p"
  unfolding exchanged_def answer_def arrives_def by blast

lemma exchanged_weaken: "exchanged msg T k s s' \<Longrightarrow> T \<le> T' \<Longrightarrow> k \<le> k' \<Longrightarrow> exchanged msg T' k' s s'"
  unfolding exchanged_def by (elim conjE) (intro conjI, assumption, assumption, linarith, assumption, meson order_trans)

lemma exchanged_send:
  assumes "send msg s = (r, s')"
  shows "exchanged msg 0 1 s s'"
proof (cases "sendFault s (sends s)")
  case None
  with assms have s': "s' = s\<lparr>sends := sends s + 1, outbox := udpPacket msg 68 67 # outbox s\<rparr>" by (auto simp: send_def)
  have "\<exists>j \<le> 1. udpPacket msg 68 67 # outbox s = replicate j (udpPacket msg 68 67) @ outbox s"
    by (rule exI [of _ 1]) simp
  then show ?thesis unfolding s' by (cases s) (simp add: exchanged_def)
next
  case (Some e)
  with assms have "s' = s\<lparr>sends := sends s + 1\<rparr>" by (auto simp: send_def)
  then show ?thesis by (cases s) (simp add: exchanged_def)
qed

lemma exchanged_waited:
  assumes "waited t s s'" and "t \<le> clock s + T" and "0 \<le> T"
  shows "exchanged msg T k s s'"
proof -
  have "s'\<lparr>clock := 0, inbox := []\<rparr> = s\<lparr>clock := 0, inbox := []\<rparr>" using assms(1) by (simp add: waited_def)
  then have e: "sends s' = sends s" "outbox s' = outbox s"
      "s'\<lparr>clock := 0, inbox := [], sends := 0, outbox := []\<rparr> = s\<lparr>clock := 0, inbox := [], sends := 0, outbox := []\<rparr>"
    by (cases s; cases s'; simp)+
  then show ?thesis using assms unfolding exchanged_def waited_def by auto
qed

definition attempt_time :: "nat \<Rightarrow> int" where
  "attempt_time attempt = int (2 + attempt * 2) * second + 999"

lemma exchangeDeadline_le: "exchangeDeadline c attempt now + 999 \<le> now + attempt_time attempt"
  by (auto simp: exchangeDeadline_def attempt_time_def Let_def split: option.split)

definition exchange_ok :: "bytes \<Rightarrow> int \<Rightarrow> nat \<Rightarrow> 32 word \<Rightarrow> byte \<Rightarrow> net \<Rightarrow> (gerror + packet) option \<Rightarrow> net \<Rightarrow> bool" where
  "exchange_ok msg T k xid0 want s r s' \<longleftrightarrow>
     exchanged msg T k s s' \<and> r \<noteq> None \<and> (\<forall>p. r = Some (Inr p) \<longrightarrow> answer xid0 want s p)"

lemma attempt_time_pos: "0 \<le> attempt_time a"
  by (simp add: attempt_time_def second_def)

lemma sum_list_attempts: "0 \<le> sum_list (map attempt_time as)"
  by (intro sum_list_nonneg) (auto simp: attempt_time_pos)

lemma exchangeFrom_ok:
  "exchangeFrom c msg xid0 want as s = (r, s') \<Longrightarrow>
     exchange_ok msg (sum_list (map attempt_time as)) (length as) xid0 want s r s'"
proof (induction as arbitrary: s)
  case Nil
  then show ?case by (auto simp: exchange_ok_def exchanged_refl)
next
  case (Cons a as)
  let ?T = "attempt_time a + sum_list (map attempt_time as)"
  have T: "0 \<le> ?T" using sum_list_attempts [of "a # as"] by simp
  show ?case
  proof (cases "ctxErr c (clock s)")
    case (Some e)
    with Cons.prems T show ?thesis by (auto simp: exchange_ok_def exchanged_refl)
  next
    case None
    obtain e s1 where sd: "send msg s = (e, s1)" by (cases "send msg s")
    have x1: "exchanged msg 0 1 s s1" by (rule exchanged_send [OF sd])
    show ?thesis
    proof (cases e)
      case (Some err)
      with None Cons.prems sd have "r = Some (Inl err)" "s' = s1" by auto
      with exchanged_weaken [OF x1 T] show ?thesis by (simp add: exchange_ok_def)
    next
      case n: None
      obtain v s2 where aw: "awaitReply (exchangeDeadline c a (clock s1)) xid0 want s1 = (v, s2)"
        by (cases "awaitReply (exchangeDeadline c a (clock s1)) xid0 want s1")
      from awaitReply_ok [OF aw] have w: "waited (exchangeDeadline c a (clock s1) + 999) s1 s2"
          and v: "v \<noteq> None" "\<And>p. v = Some (Some (Inr p)) \<Longrightarrow> answer xid0 want s1 p"
        by (auto simp: await_ok_def)
      have "exchanged msg (attempt_time a) 0 s1 s2"
        by (rule exchanged_waited [OF w exchangeDeadline_le attempt_time_pos])
      from exchanged_trans [OF x1 this] have x2: "exchanged msg (attempt_time a) 1 s s2" by simp
      show ?thesis
      proof (cases "v = Some None")
        case True
        with None n Cons.prems sd aw have rest: "exchangeFrom c msg xid0 want as s2 = (r, s')" by simp
        from Cons.IH [OF rest] have x3: "exchanged msg (sum_list (map attempt_time as)) (length as) s2 s'"
            and r: "r \<noteq> None" "\<And>p. r = Some (Inr p) \<Longrightarrow> answer xid0 want s2 p" by (auto simp: exchange_ok_def)
        show ?thesis
          using exchanged_trans [OF x2 x3] r exchanged_arrives [OF x2] by (simp add: exchange_ok_def)
      next
        case False
        with v(1) obtain q where q: "v = Some (Some q)" by (metis not_None_eq)
        with None n Cons.prems sd aw have r: "r = Some q" "s' = s2" by auto
        have "exchanged msg ?T (length (a # as)) s s2"
          using exchanged_weaken [OF x2, of ?T "length (a # as)"] sum_list_attempts [of as] by simp
        with r v(2) q exchanged_arrives [OF x1] show ?thesis by (auto simp: exchange_ok_def)
      qed
    qed
  qed
qed

text \<open>Five attempts: 30 seconds, and less than a microsecond for the rounding of each timeout.\<close>

definition exchange_time :: int where
  "exchange_time = 30 * second + 4995"

lemma exchange_ok: "exchange c msg xid0 want s = (r, s') \<Longrightarrow> exchange_ok msg exchange_time 5 xid0 want s r s'"
proof -
  have t: "sum_list (map attempt_time [0, 1, 2, 3, 4]) = exchange_time" "length [0, 1, 2, 3, 4 :: nat] = 5"
    by (simp_all add: attempt_time_def exchange_time_def second_def)
  show "exchange c msg xid0 want s = (r, s') \<Longrightarrow> ?thesis"
    unfolding exchange_def by (drule exchangeFrom_ok) (simp only: t)
qed

text \<open>C28. An exchange ends, whatever arrives: after at most five transmissions and, apart from the
  rounding of the timeouts, 30 seconds.  It never panics.  A result is a reply with the expected
  transaction number and message type, decoded from a UDP packet to port 68 that arrived.\<close>

theorem exchange_correct:
  assumes "exchange c msg xid0 want s = (r, s')"
  shows "r \<noteq> None \<and> clock s' \<le> clock s + exchange_time
     \<and> (\<exists>j \<le> 5. outbox s' = replicate j (udpPacket msg 68 67) @ outbox s)
     \<and> (\<forall>p. r = Some (Inr p) \<longrightarrow> op p = opReply \<and> xid p = xid0 \<and> msgType p = want
          \<and> (\<exists>payload. arrives s payload \<and> decode payload = Some (Inr p)))"
  using exchange_ok [OF assms] unfolding exchange_ok_def exchanged_def answer_def by blast

section \<open>The lease\<close>

definition acquire_time :: int where
  "acquire_time = exchange_time + exchange_time"

lemma Acquire_ok:
  assumes "Acquire c iface s = (r, s')"
  shows "r \<noteq> None \<and> clock s' \<le> clock s + acquire_time
     \<and> (\<forall>l. r = Some (Inr l) \<longrightarrow> (\<exists>idx hw offer ack j k.
          ifaces s iface = Inr (idx, hw)
          \<and> answer (entropy s (rands s)) msgOffer s offer \<and> answer (entropy s (rands s)) msgAck s ack
          \<and> leaseFrom ack = Inr l \<and> j \<le> 5 \<and> k \<le> 5
          \<and> outbox s' = replicate k (udpPacket (encode (requestPacket (entropy s (rands s)) hw offer) optionOrder) 68 67)
              @ replicate j (udpPacket (encode (discoverPacket (entropy s (rands s)) hw) optionOrder) 68 67) @ outbox s))"
proof -
  have T: "0 \<le> acquire_time" "exchange_time \<le> acquire_time" "0 \<le> exchange_time"
    by (simp_all add: acquire_time_def exchange_time_def second_def)
  show ?thesis
  proof (cases "ifaces s iface")
    case (Inl e)
    with assms T show ?thesis by (auto simp: Acquire_def)
  next
    case (Inr p)
    obtain idx hw where p: "p = (idx, hw)" by (cases p)
    show ?thesis
    proof (cases "rawOpen s idx")
      case (Some e)
      with assms T Inr p show ?thesis by (auto simp: Acquire_def)
    next
      case None
      let ?x = "entropy s (rands s)" let ?s0 = "s\<lparr>rands := rands s + 1\<rparr>"
      let ?d = "encode (discoverPacket ?x hw) optionOrder"
      obtain v s1 where e1: "exchange c ?d ?x msgOffer ?s0 = (v, s1)" by (cases "exchange c ?d ?x msgOffer ?s0")
      from exchange_ok [OF e1] have x1: "exchanged ?d exchange_time 5 ?s0 s1" and v: "v \<noteq> None"
          and of: "\<And>p. v = Some (Inr p) \<Longrightarrow> answer ?x msgOffer ?s0 p" by (auto simp: exchange_ok_def)
      have c1: "clock s1 \<le> clock s + exchange_time" using x1 by (simp add: exchanged_def)
      have a0: "answer y m ?s0 p \<Longrightarrow> answer y m s p" for y m p by (simp add: answer_def arrives_def)
      consider e where "v = Some (Inl e)" | offer where "v = Some (Inr offer)" using v by (metis not_None_eq sum.exhaust)
      then show ?thesis
      proof cases
        case 1
        with assms Inr p None e1 c1 T show ?thesis by (auto simp: Acquire_def Let_def)
      next
        case (2 offer)
        let ?r = "encode (requestPacket ?x hw offer) optionOrder"
        obtain u s2 where e2: "exchange c ?r ?x msgAck s1 = (u, s2)" by (cases "exchange c ?r ?x msgAck s1")
        from exchange_ok [OF e2] have x2: "exchanged ?r exchange_time 5 s1 s2" and u: "u \<noteq> None"
          and ac: "\<And>p. u = Some (Inr p) \<Longrightarrow> answer ?x msgAck s1 p" by (auto simp: exchange_ok_def)
        have c2: "clock s2 \<le> clock s + acquire_time" using x2 c1 by (simp add: exchanged_def acquire_time_def)
        consider e where "u = Some (Inl e)" | ack where "u = Some (Inr ack)" using u by (metis not_None_eq sum.exhaust)
        then show ?thesis
        proof cases
          case 1
          with assms Inr p None e1 2 e2 c2 show ?thesis by (auto simp: Acquire_def Let_def)
        next
          case (2 ack)
          then have r: "r = Some (leaseFrom ack)" "s' = s2"
            using assms Inr p None e1 \<open>v = Some (Inr offer)\<close> e2 by (auto simp: Acquire_def Let_def)
          obtain j k where jk: "j \<le> 5" "outbox s1 = replicate j (udpPacket ?d 68 67) @ outbox s"
              "k \<le> 5" "outbox s2 = replicate k (udpPacket ?r 68 67) @ outbox s1"
            using x1 x2 by (auto simp: exchanged_def)
          have "answer ?x msgOffer s offer" by (rule a0 [OF of [OF \<open>v = Some (Inr offer)\<close>]])
          moreover have "answer ?x msgAck s ack" by (rule a0 [OF exchanged_arrives [OF x1 ac [OF 2]]])
          ultimately show ?thesis using r c2 jk Inr p by fastforce
        qed
      qed
    qed
  qed
qed

text \<open>C27. \<open>Acquire\<close> always returns, without a panic, after at most ten transmissions and about one
  minute.  A lease it returns comes from an acknowledgement to this client's transaction, which
  followed an offer to it, and the only frames sent were the discovery and the request, which
  repeats the offered address and the server's identifier.\<close>

theorem Acquire_correct:
  assumes "Acquire c iface s = (r, s')"
  shows "r \<noteq> None \<and> clock s' \<le> clock s + acquire_time
     \<and> (\<forall>l. r = Some (Inr l) \<longrightarrow> (\<exists>idx hw offer ack j k.
          ifaces s iface = Inr (idx, hw)
          \<and> answer (entropy s (rands s)) msgOffer s offer \<and> answer (entropy s (rands s)) msgAck s ack
          \<and> leaseFrom ack = Inr l \<and> j \<le> 5 \<and> k \<le> 5
          \<and> outbox s' = replicate k (udpPacket (encode (requestPacket (entropy s (rands s)) hw offer) optionOrder) 68 67)
              @ replicate j (udpPacket (encode (discoverPacket (entropy s (rands s)) hw) optionOrder) 68 67) @ outbox s))"
  by (rule Acquire_ok [OF assms])

section \<open>Configuring the interface\<close>

lemma leadingOnes_le: "leadingOnes k v \<le> k"
  by (induction k arbitrary: v) auto

lemma maskLength_le: "maskLength m = Some n \<Longrightarrow> n \<le> 8 * length m"
proof (induction m arbitrary: n)
  case (Cons v m)
  then show ?case using leadingOnes_le [of 8 v] by (fastforce split: if_splits)
qed simp

lemma maskSize_range: "length m = 4 \<Longrightarrow> 0 \<le> maskSize m \<and> maskSize m \<le> 32"
  using maskLength_le [of m] by (auto simp: maskSize_def split: option.split)

text \<open>\<open>Size\<close> and \<open>CIDRMask\<close> are inverse on the 33 network masks.\<close>

lemma maskSize_cidrMask:
  assumes "0 \<le> n" and "n \<le> 32"
  shows "maskSize (cidrMask n) = n"
proof -
  have "list_all (\<lambda>k. maskSize (cidrMask (int k)) = int k) [0..<33]" by code_simp
  then have "\<forall>k < 33. maskSize (cidrMask (int k)) = int k" by (simp only: list_all_iff set_upt atLeastLessThan_iff) simp
  moreover have "nat n < 33" "int (nat n) = n" using assms by auto
  ultimately show ?thesis by metis
qed

text \<open>A request to the kernel, and its answer.\<close>

definition kernelResult :: "net \<Rightarrow> nat \<Rightarrow> bytes \<Rightarrow> gerror option" where
  "kernelResult s k msg = (case kernel s k msg of Inl err \<Rightarrow> Some err | Inr reply \<Rightarrow> replyError reply)"

lemma request_run:
  "run_state (request ty f body) s =
     (kernelResult s (length (nlLog s)) (requestMsg ty f body), s\<lparr>nlLog := requestMsg ty f body # nlLog s\<rparr>)"
  by (simp add: request_def Let_def kernelResult_def)

definition setAddress :: "int \<Rightarrow> lease \<Rightarrow> bytes" where
  "setAddress idx l = requestMsg rtmNewAddr (nlmFCreate OR nlmFReplace) (the (addAddressBody idx (to4 (IP l)) (maskSize (Mask l))))"

definition setRoute :: "int \<Rightarrow> lease \<Rightarrow> bytes" where
  "setRoute idx l = requestMsg rtmNewRoute (nlmFCreate OR nlmFReplace) (addDefaultRouteBody idx (to4 (Router l)))"

text \<open>
  What the kernel makes of the two messages of a lease: an address it already has is as good as a new
  one, and without a router there is no route to refuse.
\<close>

definition addressResult :: "net \<Rightarrow> int \<Rightarrow> lease \<Rightarrow> gerror option" where
  "addressResult s idx l =
     (let e = kernelResult s (length (nlLog s)) (setAddress idx l) in if e = Some (Errno 17) then None else e)"

definition routeResult :: "net \<Rightarrow> int \<Rightarrow> lease \<Rightarrow> gerror option" where
  "routeResult s idx l = (if Router l = [] then None else kernelResult s (length (nlLog s) + 1) (setRoute idx l))"

lemma addAddress_run:
  assumes "leaseFrom p = Inr l"
  shows "run_state (addAddress idx (to4 (IP l)) (maskSize (Mask l))) s
    = (Some (addressResult s idx l), s\<lparr>nlLog := setAddress idx l # nlLog s\<rparr>)"
proof -
  have ip: "length (to4 (IP l)) = 4" and m: "length (Mask l) = 4"
    using leaseFrom_fields [OF assms] by simp_all
  obtain body where "addAddressBody idx (to4 (IP l)) (maskSize (Mask l)) = Some body"
    using addAddressBody_Some [OF ip] maskSize_range [OF m] by blast
  then show ?thesis by (simp add: addAddress_def request_run setAddress_def addressResult_def Let_def)
qed

lemma route_run:
  "run_state (if Router l \<noteq> [] then addDefaultRoute idx (to4 (Router l)) else return None) (s\<lparr>nlLog := setAddress idx l # nlLog s\<rparr>)
   = (routeResult s idx l, s\<lparr>nlLog := (if Router l \<noteq> [] then [setRoute idx l] else []) @ setAddress idx l # nlLog s\<rparr>)"
  by (simp add: addDefaultRoute_def request_run routeResult_def setRoute_def kernelResult_def)

lemma Configure_total:
  assumes "leaseFrom p = Inr l"
  shows "fst (run_state (Configure iface l resolv) s) \<noteq> None"
  by (auto simp: Configure_def Let_def addAddress_run [OF assms] addDefaultRoute_def request_run writeResolv_def
      split: sum.split option.split)

text \<open>C36. A lease taken from a server's message is configured without a panic, in this order: the
  address, then, if there is a router, the route, then the name servers, one line each, if the file is
  named and there are any.  The first refusal ends it with that error: after a refused address there
  is no route message and no file, after a refused route no file.  If the kernel takes both (or had
  the address already), the result is that of writing the file.\<close>

theorem Configure_correct:
  assumes l: "leaseFrom p = Inr l" and run: "run_state (Configure iface l resolv) s = (r, s')"
  shows "case ifaces s iface of
       Inl err \<Rightarrow> r = Some (Some err) \<and> s' = s
     | Inr (idx, hw) \<Rightarrow>
         (case addressResult s idx l of
            Some err \<Rightarrow> (\<exists>t. r = Some (Some (Wrap t err))) \<and> s' = s\<lparr>nlLog := setAddress idx l # nlLog s\<rparr>
          | None \<Rightarrow>
              (case routeResult s idx l of
                 Some err \<Rightarrow> (\<exists>t. r = Some (Some (Wrap t err)))
                   \<and> s' = s\<lparr>nlLog := setRoute idx l # setAddress idx l # nlLog s\<rparr>
               | None \<Rightarrow>
                   nlLog s' = (if Router l \<noteq> [] then [setRoute idx l] else []) @ setAddress idx l # nlLog s
                   \<and> r = Some (if DNS l \<noteq> [] \<and> resolv \<noteq> [] then writeFault s resolv else None)
                   \<and> written s' = (if DNS l \<noteq> [] \<and> resolv \<noteq> [] \<and> writeFault s resolv = None
                        then [(resolv, resolvText (DNS l))] else []) @ written s))"
proof (cases "ifaces s iface")
  case (Inl err)
  with run show ?thesis by (simp add: Configure_def)
next
  case (Inr q)
  obtain idx hw where q: "q = (idx, hw)" by (cases q)
  from run Inr q show ?thesis
    by (auto simp: Configure_def Let_def addAddress_run [OF l] route_run writeResolv_def routeResult_def
        split: option.splits if_splits)
qed

section \<open>An example\<close>

definition ex_offer :: "byte \<Rightarrow> packet" where
  "ex_offer ty = zeroPacket\<lparr>op := opReply, xid := 7, yiaddr := [10, 0, 2, 15], chaddr := [2, 0, 0, 0, 0, 1],
     options := [optMsgType \<mapsto> [ty], optSubnet \<mapsto> [255, 255, 255, 0], optRouter \<mapsto> [10, 0, 2, 2],
       optDNS \<mapsto> [10, 0, 2, 3], optServerID \<mapsto> [10, 0, 2, 2]]\<rparr>"

definition ex_frame :: "byte \<Rightarrow> bytes" where
  "ex_frame ty = udpPacket (encode (ex_offer ty) [optMsgType, optSubnet, optRouter, optDNS, optServerID]) 67 68"

definition ex_wpa :: "nat \<Rightarrow> string \<Rightarrow> wpa_answer" where
  "ex_wpa k c = Reply (if c = ''ADD_NETWORK'' then ''0\<newline>''
     else if c = ''STATUS'' then (if k < 6 then ''wpa_state=ASSOCIATING\<newline>'' else ''wpa_state=COMPLETED\<newline>'')
     else ''OK\<newline>'')"

definition ex_net :: net where
  "ex_net = \<lparr>clock = 0, ifaces = (\<lambda>i. if i = ''wlan0'' then Inr (3, [2, 0, 0, 0, 0, 1]) else Inl (ErrText ''no such network interface'')),
     rawOpen = (\<lambda>_. None), rands = 0, entropy = (\<lambda>_. 7),
     inbox = [(30000, Inr (ex_frame msgOffer)), (40000, Inr (ex_frame msgAck))],
     sends = 0, sendFault = (\<lambda>_. None), outbox = [], kernel = (\<lambda>_ _. Inr (le32 20 @ le16 nlmsgError @ replicate 14 0)),
     nlLog = [], writeFault = (\<lambda>_. None), written = [], wpaDial = (\<lambda>_. None), dials = 0, openConns = 0,
     wpa = ex_wpa, wpaDelay = (\<lambda>_. 1000), wpaLog = [], quoteGo = id\<rparr>"

definition ex_order :: "byte list" where
  "ex_order = [optMsgType, optSubnet, optRouter, optDNS, optServerID]"

lemma ex_order_ok: "distinct ex_order" "optPad \<notin> set ex_order" "optEnd \<notin> set ex_order"
  by code_simp+

lemma ex_options: "\<forall>c v. options (ex_offer ty) c = Some v \<longrightarrow> length v < 256"
  by (auto simp: ex_offer_def split: if_splits)

lemma ex_length: "length (encode (ex_offer ty) ex_order) = 300"
proof -
  have ch: "length (chaddr (ex_offer ty)) \<le> 16" by (simp add: ex_offer_def)
  have "length (encodeOptions (options (ex_offer ty)) ex_order) = 27"
    by (simp add: ex_offer_def ex_order_def optMsgType_def optSubnet_def optRouter_def optDNS_def optServerID_def)
  then show ?thesis by (simp add: encode_def Let_def encodeHeader_eq [OF ch] length_header [OF ch])
qed

lemma ex_payload: "udpPayload (take 2048 (ex_frame ty)) 68 = Some (Some (encode (ex_offer ty) ex_order))"
proof -
  have "length (ex_frame ty) = 328"
    using ex_length [of ty] by (simp add: ex_frame_def ex_order_def udpPacket_eq ip_front_def ip_back_def udp_header_def)
  then have "take 2048 (ex_frame ty) = udpPacket (encode (ex_offer ty) ex_order) 67 68" by (simp add: ex_frame_def ex_order_def)
  then show ?thesis using udpPayload_udpPacket [of "encode (ex_offer ty) ex_order" 67 68] ex_length [of ty] by simp
qed

definition ex_reply :: "byte \<Rightarrow> packet" where
  "ex_reply ty = received (ex_offer ty) ex_order"

lemma ex_decode: "decode (encode (ex_offer ty) ex_order) = Some (Inr (ex_reply ty))"
  using decode_encode_options [OF _ ex_order_ok ex_options] by (simp add: ex_reply_def ex_offer_def)

lemma ex_reply_fields: "op (ex_reply ty) = opReply" "xid (ex_reply ty) = 7" "msgType (ex_reply ty) = ty"
  by (simp_all add: ex_reply_def received_def ex_offer_def msgType_def option_of_def get_opt_def opts_in_def ex_order_def
      optMsgType_def optSubnet_def optRouter_def optDNS_def optServerID_def)

lemma ex_exchange:
  assumes "inbox s = (d, Inr (ex_frame ty)) # rest" and "d \<le> 1000000" and "sendFault s = (\<lambda>_. None)"
  shows "exchange background msg 7 ty s
     = (Some (Inr (ex_reply ty)), s\<lparr>sends := sends s + 1, outbox := udpPacket msg 68 67 # outbox s, clock := clock s + int d, inbox := rest\<rparr>)"
proof -
  define s1 where "s1 = s\<lparr>sends := sends s + 1, outbox := udpPacket msg 68 67 # outbox s\<rparr>"
  have s1: "clock s1 = clock s" "inbox s1 = inbox s" by (simp_all add: s1_def)
  have t: "timeval 2000000000 = 2000000000" by (simp add: timeval_def)
  have rf: "recvfrom 2000000000 s1 = (Inr (take 2048 (ex_frame ty)), s1\<lparr>clock := clock s + int d, inbox := rest\<rparr>)"
    using assms by (simp add: recvfrom_def s1)
  have rc: "recv (clock s + 2000000000) s1 = (Some (Inr (encode (ex_offer ty) ex_order)), s1\<lparr>clock := clock s + int d, inbox := rest\<rparr>)"
    by (subst recv.simps) (simp add: t rf ex_payload s1)
  have aw: "awaitReply (clock s + 2000000000) 7 ty s1
      = (Some (Some (Inr (ex_reply ty))), s1\<lparr>clock := clock s + int d, inbox := rest\<rparr>)"
    by (subst awaitReply.simps) (simp add: rc ex_decode ex_reply_fields s1)
  have sd: "send msg s = (None, s1)" using assms(3) by (simp add: send_def s1_def)
  have "exchange background msg 7 ty s = (Some (Inr (ex_reply ty)), s1\<lparr>clock := clock s + int d, inbox := rest\<rparr>)"
    by (simp add: exchange_def sd ctxErr_def background_def exchangeDeadline_def second_def s1 aw)
  then show ?thesis by (simp add: s1_def)
qed

theorem exchange_correct_witness:
  "\<exists>s'. exchange background [] 7 msgOffer ex_net = (Some (Inr (ex_reply msgOffer)), s') \<and> clock s' \<le> exchange_time"
proof -
  obtain s' where e: "exchange background [] 7 msgOffer ex_net = (Some (Inr (ex_reply msgOffer)), s')"
    using ex_exchange [of ex_net 30000 msgOffer "[(40000, Inr (ex_frame msgAck))]" "[]"] by (simp add: ex_net_def)
  moreover have "clock ex_net = 0" by (simp add: ex_net_def)
  ultimately show ?thesis using exchange_correct [OF e] by auto
qed

lemma ex_lease: "leaseFrom (ex_reply ty) = Inr \<lparr>IP = [10, 0, 2, 15], Mask = [255, 255, 255, 0], Router = [10, 0, 2, 2],
     DNS = [[10, 0, 2, 3]], Server = [10, 0, 2, 2], Seconds = 0\<rparr>"
  by (simp add: ex_reply_def received_def ex_offer_def leaseFrom_def option_of_def get_opt_def opts_in_def ex_order_def
      optMsgType_def optSubnet_def optRouter_def optDNS_def optServerID_def optLeaseTime_def to4_def pad_def ip_equal_def
      ipv4zero_def v4InV6Prefix_def)

theorem Acquire_correct_witness:
  "\<exists>l s'. Acquire background ''wlan0'' ex_net = (Some (Inr l), s') \<and> clock s' \<le> acquire_time"
proof -
  let ?s0 = "ex_net\<lparr>rands := rands ex_net + 1\<rparr>"
  let ?d = "encode (discoverPacket 7 [2, 0, 0, 0, 0, 1]) optionOrder"
  let ?q = "encode (requestPacket 7 [2, 0, 0, 0, 0, 1] (ex_reply msgOffer)) optionOrder"
  obtain s1 where e1: "exchange background ?d 7 msgOffer ?s0 = (Some (Inr (ex_reply msgOffer)), s1)"
      and i1: "inbox s1 = [(40000, Inr (ex_frame msgAck))]" "sendFault s1 = (\<lambda>_. None)"
    using ex_exchange [of ?s0 30000 msgOffer "[(40000, Inr (ex_frame msgAck))]" ?d] by (simp add: ex_net_def)
  obtain s2 where e2: "exchange background ?q 7 msgAck s1 = (Some (Inr (ex_reply msgAck)), s2)"
    using ex_exchange [OF i1(1) _ i1(2)] by simp
  have "ifaces ex_net ''wlan0'' = Inr (3, [2, 0, 0, 0, 0, 1])" "rawOpen ex_net 3 = None" "entropy ex_net (rands ex_net) = 7"
    by (simp_all add: ex_net_def)
  with e1 e2 obtain l where a: "Acquire background ''wlan0'' ex_net = (Some (Inr l), s2)"
    unfolding Acquire_def by (simp add: ex_lease)
  moreover have "clock ex_net = 0" by (simp add: ex_net_def)
  ultimately show ?thesis using Acquire_correct [OF a] by auto
qed

text \<open>The kernel refuses the address: there is no route message and no file.\<close>

theorem Configure_correct_witness:
  "let s' = snd (run_state (Configure ''wlan0'' \<lparr>IP = [10, 0, 2, 15], Mask = [255, 255, 255, 0], Router = [10, 0, 2, 2],
     DNS = [[10, 0, 2, 3]], Server = [10, 0, 2, 2], Seconds = 0\<rparr> ''/etc/resolv.conf'')
       (ex_net\<lparr>kernel := (\<lambda>_ _. Inl (Errno 1))\<rparr>)) in
   length (nlLog s') = 1 \<and> written s' = []"
proof -
  let ?s = "ex_net\<lparr>kernel := (\<lambda>_ _. Inl (Errno 1))\<rparr>"
  have e: "addressResult ?s idx l = Some (Errno 1)" for idx l by (simp add: addressResult_def kernelResult_def)
  have i: "ifaces ?s ''wlan0'' = Inr (3, [2, 0, 0, 0, 0, 1])" "nlLog ?s = []" "written ?s = []" by (simp_all add: ex_net_def)
  from Configure_correct [OF ex_lease prod.collapse [symmetric], of "''wlan0''" "''/etc/resolv.conf''" ?s]
  show ?thesis unfolding i e sum.case prod.case option.case using i(3) by (simp add: Let_def)
qed

end
