(* ===== verification/Wifi.thy ===== *)
theory Wifi
  imports DhcpClient
begin

text \<open>
  The wireless client (\<open>internal/wifi/wifi.go\<close>): commands to \<open>wpa_supplicant\<close> over its control
  socket, and the lease.  An outer \<open>None\<close> is a panic of the DHCP client.
\<close>

section \<open>Commands\<close>

record network =
  SSID :: string
  BSSID :: string
  Signal :: int
  Secure :: bool

record client =
  iface :: string
  ctrlPath :: string

definition New :: "string \<Rightarrow> client" where
  "New i = \<lparr>iface = i, ctrlPath = joinPath [''/run/wpa_supplicant'', i]\<rparr>"

text \<open>
  The control socket is a connection with a local address of its own; \<open>openConns\<close> counts the ones
  that have not been closed and removed.
\<close>

definition dialCtrl :: "client \<Rightarrow> (gerror option) netio" where
  "dialCtrl c = do {
     bad \<leftarrow> gets (\<lambda>s. wpaDial s (dials s));
     modify (dials_update Suc);
     case bad of
       Some err \<Rightarrow> return (Some (Wrap (''wifi: dial '' @ ctrlPath c @ '': '') err))
     | None \<Rightarrow> do { modify (openConns_update Suc); return None }
   }"

definition cleanup :: "unit netio" where
  "cleanup = modify (openConns_update (\<lambda>n. n - 1))"

text \<open>A command and its reply; the deadline bounds the time it takes.\<close>

definition cmd :: "string \<Rightarrow> (gerror + string) netio" where
  "cmd s = do {
     ans \<leftarrow> gets (\<lambda>st. wpa st (length (wpaLog st)) s);
     d \<leftarrow> gets (\<lambda>st. wpaDelay st (length (wpaLog st)));
     q \<leftarrow> gets (\<lambda>st. quoteGo st s);
     pass (min (3 * second) (int d));
     modify (wpaLog_update (\<lambda>l. s # l));
     return (case ans of
       DeadlineErr err \<Rightarrow> Inl err
     | WriteErr err \<Rightarrow> Inl (Wrap (''wifi: write '' @ q @ '': '') err)
     | ReadErr err \<Rightarrow> Inl (Wrap (''wifi: read reply to '' @ q @ '': '') err)
     | Reply r \<Rightarrow> Inr (take 8192 r))
   }"

section \<open>Scanning\<close>

definition parseLine :: "string \<Rightarrow> network option" where
  "parseLine line =
     (if trimSpace line = [] then None
      else let f = split (CHR 0x09) line in
        if length f < 5 then None
        else Some \<lparr>SSID = f ! 4, BSSID = f ! 0, Signal = fst (atoi (trimSpace (f ! 2))),
               Secure = contains (f ! 3) ''WPA'' \<or> contains (f ! 3) ''WEP''\<rparr>)"

definition parseScanResults :: "string \<Rightarrow> network list" where
  "parseScanResults out = List.map_filter parseLine (drop 1 (split (CHR 0x0A) out))"

text \<open>
  The wait of three seconds, cut short when the context is cancelled.
\<close>

definition scanWait :: "ctx \<Rightarrow> (gerror option) netio" where
  "scanWait c = do {
     now \<leftarrow> gets clock;
     case cancelAt c of
       Some (t, err) \<Rightarrow>
         if t < now + 3 * second then do { pass (t - now); return (Some err) }
         else do { pass (3 * second); return None }
     | None \<Rightarrow> do { pass (3 * second); return None }
   }"

definition scanConn :: "ctx \<Rightarrow> (gerror + network list) netio" where
  "scanConn ctx0 = do {
     r1 \<leftarrow> cmd ''SCAN'';
     case r1 of Inl err \<Rightarrow> return (Inl err) | Inr _ \<Rightarrow> do {
     e \<leftarrow> scanWait ctx0;
     case e of Some err \<Rightarrow> return (Inl err) | None \<Rightarrow> do {
     r2 \<leftarrow> cmd ''SCAN_RESULTS'';
     case r2 of Inl err \<Rightarrow> return (Inl err) | Inr res \<Rightarrow> return (Inr (parseScanResults res)) }}
   }"

definition Scan :: "client \<Rightarrow> ctx \<Rightarrow> (gerror + network list) netio" where
  "Scan c ctx0 = do {
     e \<leftarrow> dialCtrl c;
     case e of Some err \<Rightarrow> return (Inl err) | None \<Rightarrow> do {
     r \<leftarrow> scanConn ctx0;
     cleanup;
     return r }
   }"

section \<open>Connecting\<close>

definition statusField :: "string \<Rightarrow> string \<Rightarrow> string" where
  "statusField status key =
     (case List.map_filter (\<lambda>line. case cut (CHR ''='') (trimSpace line) of
                      Some (k, v) \<Rightarrow> if k = key then Some v else None | None \<Rightarrow> None) (split (CHR 0x0A) status) of
        [] \<Rightarrow> [] | v # _ \<Rightarrow> v)"

text \<open>
  The loop of \<open>waitConnected\<close>.  Each round that does not end it sleeps for a second, so the deadline
  comes.
\<close>

lemma cmd_clock: "clock s \<le> clock (snd (run_state (cmd c) s))" "clock (snd (run_state (cmd c) s)) \<le> clock s + 3 * second"
  by (simp_all add: cmd_def pass_def second_def)

function waitUntil :: "ctx \<Rightarrow> string \<Rightarrow> int \<Rightarrow> net \<Rightarrow> gerror option \<times> net" where
  "waitUntil ctx0 i deadline s =
     (case ctxErr ctx0 (clock s) of
        Some err \<Rightarrow> (Some err, s)
      | None \<Rightarrow>
          (case run_state (cmd ''STATUS'') s of
             (Inl err, s1) \<Rightarrow> (Some err, s1)
           | (Inr st, s1) \<Rightarrow>
               if statusField st ''wpa_state'' = ''COMPLETED'' then (None, s1)
               else if clock s1 > deadline
               then (Some (ErrText (''wifi: association to '' @ quoteGo s1 i @ '' timed out (wrong password or out of range?)'')), s1)
               else waitUntil ctx0 i deadline (s1\<lparr>clock := clock s1 + second\<rparr>)))"
  by pat_completeness auto
termination
proof (relation "measure (\<lambda>(c, i, d, s). nat (d + second - clock s))", goal_cases)
  case (2 ctx0 i deadline s r s1 st)
  then have "clock s \<le> clock s1" using cmd_clock(1) [of s "''STATUS''"] by (metis snd_conv)
  with 2 show ?case by (auto simp: second_def)
qed simp

declare waitUntil.simps [simp del]

definition waitConnected :: "client \<Rightarrow> ctx \<Rightarrow> (gerror option) netio" where
  "waitConnected c ctx0 = State (\<lambda>s. waitUntil ctx0 (iface c) (clock s + 30 * second) s)"

definition lease :: "ctx \<Rightarrow> string \<Rightarrow> (gerror option option) netio" where
  "lease ctx0 i = do {
     l \<leftarrow> State (Acquire ctx0 i);
     case l of
       None \<Rightarrow> return None
     | Some (Inl err) \<Rightarrow> return (Some (Some (Wrap ''wifi: '' err)))
     | Some (Inr l) \<Rightarrow> do {
         r \<leftarrow> Configure i l ''/etc/resolv.conf'';
         return (map_option (map_option (Wrap ''wifi: '')) r) }
   }"

definition setNetwork :: "string \<Rightarrow> string \<Rightarrow> (gerror option) netio" where
  "setNetwork id0 kv = do {
     r \<leftarrow> cmd (''SET_NETWORK '' @ id0 @ '' '' @ kv);
     case r of
       Inl err \<Rightarrow> return (Some err)
     | Inr r \<Rightarrow> if \<not> hasPrefix r ''OK''
                then return (Some (ErrText (''wifi: SET_NETWORK '' @ kv @ '': '' @ trimSpace r)))
                else return None
   }"

definition connectConn :: "client \<Rightarrow> ctx \<Rightarrow> string \<Rightarrow> string \<Rightarrow> (gerror option option) netio" where
  "connectConn c ctx0 ssid psk = do {
     r0 \<leftarrow> cmd ''ADD_NETWORK'';
     case r0 of Inl err \<Rightarrow> return (Some (Some err)) | Inr reply \<Rightarrow> do {
     let id0 = trimSpace reply;
     q \<leftarrow> gets (\<lambda>s. quoteGo s id0);
     if snd (atoi id0) \<noteq> None then return (Some (Some (ErrText (''wifi: ADD_NETWORK returned '' @ q))))
     else do {
     e1 \<leftarrow> setNetwork id0 (''ssid \"'' @ ssid @ ''\"'');
     case e1 of Some err \<Rightarrow> return (Some (Some err)) | None \<Rightarrow> do {
     e2 \<leftarrow> setNetwork id0 (if psk = [] then ''key_mgmt NONE'' else ''psk \"'' @ psk @ ''\"'');
     case e2 of Some err \<Rightarrow> return (Some (Some err)) | None \<Rightarrow> do {
     r3 \<leftarrow> cmd (''SELECT_NETWORK '' @ id0);
     case r3 of Inl err \<Rightarrow> return (Some (Some err)) | Inr _ \<Rightarrow> do {
     e4 \<leftarrow> waitConnected c ctx0;
     case e4 of Some err \<Rightarrow> return (Some (Some err)) | None \<Rightarrow> lease ctx0 (iface c) }}}}}
   }"

definition Connect :: "client \<Rightarrow> ctx \<Rightarrow> string \<Rightarrow> string \<Rightarrow> (gerror option option) netio" where
  "Connect c ctx0 ssid psk = do {
     e \<leftarrow> dialCtrl c;
     case e of Some err \<Rightarrow> return (Some (Some err)) | None \<Rightarrow> do {
     r \<leftarrow> connectConn c ctx0 ssid psk;
     cleanup;
     return r }
   }"

section \<open>The commands of a connection\<close>

text \<open>\<open>commanded cs s s'\<close>: the commands \<open>cs\<close> were sent, and nothing else happened but that time passed.\<close>

definition commanded :: "string list \<Rightarrow> net \<Rightarrow> net \<Rightarrow> bool" where
  "commanded cs s s' \<longleftrightarrow> clock s \<le> clock s' \<and> wpaLog s' = rev cs @ wpaLog s
     \<and> s'\<lparr>clock := 0, wpaLog := []\<rparr> = s\<lparr>clock := 0, wpaLog := []\<rparr>"

lemma commanded_refl: "commanded [] s s"
  by (simp add: commanded_def)

lemma commanded_trans: "commanded cs s s1 \<Longrightarrow> commanded ds s1 s2 \<Longrightarrow> commanded (cs @ ds) s s2"
  by (simp add: commanded_def)

text \<open>The reply to the last command.\<close>

definition last_reply :: "net \<Rightarrow> gerror + string \<Rightarrow> bool" where
  "last_reply s r \<longleftrightarrow> wpaLog s \<noteq> [] \<and>
     (\<forall>x. r = Inr x \<longrightarrow> (\<exists>y. wpa s (length (wpaLog s) - 1) (hd (wpaLog s)) = Reply y \<and> x = take 8192 y))"

lemma wp_cmd: "wp (cmd c) (\<lambda>r s'. commanded [c] s s' \<and> last_reply s' r \<and> clock s' \<le> clock s + 3 * second) s"
proof -
  have "0 \<le> second" by (simp add: second_def)
  then show ?thesis
    unfolding cmd_def pass_def last_reply_def commanded_def
    by (cases s) (auto simp: wp_simps split: wpa_answer.split)
qed

lemma wp_cmd_after:
  assumes "commanded cs s s1"
  shows "wp (cmd c) (\<lambda>r s'. commanded (cs @ [c]) s s' \<and> last_reply s' r) s1"
  by (rule wp_mono [OF wp_cmd]) (use commanded_trans [OF assms] in auto)

text \<open>A device that is associated said so in its last reply.\<close>

definition completed_status :: "net \<Rightarrow> bool" where
  "completed_status s \<longleftrightarrow> (\<exists>st. last_reply s (Inr st) \<and> statusField st ''wpa_state'' = ''COMPLETED'')"

lemma waitUntil_ok:
  "waitUntil ctx0 i deadline s = (r, s') \<Longrightarrow> clock s \<le> deadline + second \<Longrightarrow>
     (\<exists>n. commanded (replicate n ''STATUS'') s s' \<and> (r = None \<longrightarrow> 0 < n \<and> completed_status s'))
     \<and> clock s' \<le> deadline + 4 * second"
proof (induction ctx0 i deadline s rule: waitUntil.induct)
  case (1 ctx0 i deadline s)
  have sec: "0 < second" by (simp add: second_def)
  note ev = waitUntil.simps [of ctx0 i deadline s]
  show ?case
  proof (cases "ctxErr ctx0 (clock s)")
    case (Some e)
    with 1(2,3) sec show ?thesis
      by (auto simp: ev intro!: exI [of _ 0] commanded_refl)
  next
    case None
    obtain v s1 where c: "run_state (cmd ''STATUS'') s = (v, s1)" by (cases "run_state (cmd ''STATUS'') s")
    have w: "commanded [''STATUS''] s s1" "last_reply s1 v" "clock s1 \<le> clock s + 3 * second"
      using wp_runD [OF wp_cmd c] by simp_all
    have one: "replicate 1 ''STATUS'' = [''STATUS'']" by simp
    show ?thesis
    proof (cases v)
      case (Inl e)
      with 1(2,3) None c w show ?thesis by (auto simp: ev intro!: exI [of _ 1])
    next
      case (Inr st)
      show ?thesis
      proof (cases "statusField st ''wpa_state'' = ''COMPLETED''")
        case True
        then have "r = None" "s' = s1" using 1(2) None c Inr by (auto simp: ev)
        moreover have "completed_status s1" using w(2) Inr True by (auto simp: completed_status_def)
        ultimately show ?thesis using w(1,3) 1(3) by (auto intro!: exI [of _ 1])
      next
        case nc: False
        show ?thesis
        proof (cases "clock s1 > deadline")
          case True
          then have "r \<noteq> None" "s' = s1" using 1(2) None c Inr nc by (auto simp: ev)
          then show ?thesis using w(1,3) 1(3) by (auto intro!: exI [of _ 1])
        next
          case False
          let ?s2 = "s1\<lparr>clock := clock s1 + second\<rparr>"
          have "waitUntil ctx0 i deadline ?s2 = (r, s')" using 1(2) None c Inr nc False by (simp add: ev)
          then have "(\<exists>n. commanded (replicate n ''STATUS'') ?s2 s' \<and> (r = None \<longrightarrow> 0 < n \<and> completed_status s'))
              \<and> clock s' \<le> deadline + 4 * second"
            by (rule 1(1) [OF None c [symmetric] Inr nc False]) (use False in simp)
          moreover have "commanded [''STATUS''] s ?s2" using w(1) sec by (cases s; cases s1) (simp add: commanded_def)
          ultimately show ?thesis
            using commanded_trans [of "[''STATUS'']" s ?s2] by (metis append_Cons append_Nil replicate_Suc zero_less_Suc)
        qed
      qed
    qed
  qed
qed

lemma Acquire_frame:
  assumes "Acquire c i s = (r, s')"
  shows "r \<noteq> None" and "wpaLog s' = wpaLog s" and "wpa s' = wpa s" and "openConns s' = openConns s"
proof -
  show "r \<noteq> None" using Acquire_ok [OF assms] by blast
  have ex: "wpaLog s2 = wpaLog s1 \<and> wpa s2 = wpa s1 \<and> openConns s2 = openConns s1"
    if "exchange c m x w s1 = (v, s2)" for m x w s1 v s2
  proof -
    have "s2\<lparr>clock := 0, inbox := [], sends := 0, outbox := []\<rparr> = s1\<lparr>clock := 0, inbox := [], sends := 0, outbox := []\<rparr>"
      using exchange_ok [OF that] by (simp add: exchange_ok_def exchanged_def)
    then show ?thesis by (cases s1; cases s2; simp)
  qed
  have "wpaLog s' = wpaLog s \<and> wpa s' = wpa s \<and> openConns s' = openConns s"
    using assms unfolding Acquire_def Let_def
    by (auto split: sum.splits prod.splits option.splits dest!: ex)
  then show "wpaLog s' = wpaLog s" "wpa s' = wpa s" "openConns s' = openConns s" by simp_all
qed

definition same_wpa :: "net \<Rightarrow> net \<Rightarrow> bool" where
  "same_wpa s s' \<longleftrightarrow> wpaLog s' = wpaLog s \<and> wpa s' = wpa s \<and> openConns s' = openConns s"

lemma same_wpa_trans: "same_wpa s s1 \<Longrightarrow> same_wpa s1 s2 \<Longrightarrow> same_wpa s s2"
  by (simp add: same_wpa_def)

lemma keeps_same_wpa_request: "keeps (same_wpa s) (request ty f b)"
  unfolding request_def Let_def by (intro keeps_intros) (simp add: keeps_def wp_simps same_wpa_def)

lemma keeps_same_wpa_Configure: "keeps (same_wpa s) (Configure i l resolv)"
proof -
  have "keeps (same_wpa s) (modify (written_update f))" for f by (simp add: keeps_def wp_simps same_wpa_def)
  then show ?thesis
    unfolding Configure_def addAddress_def addDefaultRoute_def writeResolv_def Let_def
    by (intro keeps_intros keeps_same_wpa_request)
qed

lemma wp_lease: "wp (lease ctx0 i) (\<lambda>r s'. r \<noteq> None \<and> same_wpa s s') s"
proof -
  have a: "wp (State (Acquire ctx0 i)) (\<lambda>l s'. l \<noteq> None \<and> same_wpa s s' \<and> (\<forall>x. l = Some (Inr x) \<longrightarrow> (\<exists>p. leaseFrom p = Inr x))) s"
  proof (rule wp_runI)
    fix l s' assume "run_state (State (Acquire ctx0 i)) s = (l, s')"
    then have r: "Acquire ctx0 i s = (l, s')" by simp
    show "l \<noteq> None \<and> same_wpa s s' \<and> (\<forall>x. l = Some (Inr x) \<longrightarrow> (\<exists>p. leaseFrom p = Inr x))"
      using Acquire_frame [OF r] Acquire_ok [OF r] unfolding same_wpa_def by blast
  qed
  show ?thesis
    unfolding lease_def
  proof (rule wp_step [OF a], elim conjE, goal_cases)
    case (1 l s1)
    consider e where "l = Some (Inl e)" | x where "l = Some (Inr x)" using 1(1) by (metis not_None_eq sum.exhaust)
    then show ?case
    proof cases
      case e: 1
      with 1 show ?thesis by (simp add: wp_return)
    next
      case (2 x)
      then obtain p where p: "leaseFrom p = Inr x" using 1(3) by blast
      have "wp (Configure i x ''/etc/resolv.conf'') (\<lambda>r s'. r \<noteq> None) s1"
        using Configure_total [OF p] by (simp add: wp_def case_prod_beta)
      moreover have "wp (Configure i x ''/etc/resolv.conf'') (\<lambda>_. same_wpa s) s1"
        by (rule keeps_wp [OF keeps_same_wpa_Configure 1(2)])
      ultimately have "wp (Configure i x ''/etc/resolv.conf'') (\<lambda>r s'. r \<noteq> None \<and> same_wpa s s') s1"
        unfolding wp_conj by simp
      then show ?thesis
        unfolding 2 option.case sum.case by (rule wp_step) (auto simp: wp_return)
    qed
  qed
qed

definition connect_script :: "string \<Rightarrow> string \<Rightarrow> string \<Rightarrow> string list" where
  "connect_script id0 ssid psk =
     [''ADD_NETWORK'',
      ''SET_NETWORK '' @ id0 @ '' '' @ ''ssid \"'' @ ssid @ ''\"'',
      ''SET_NETWORK '' @ id0 @ '' '' @ (if psk = [] then ''key_mgmt NONE'' else ''psk \"'' @ psk @ ''\"''),
      ''SELECT_NETWORK '' @ id0]"

text \<open>What the DHCP client has done.\<close>

definition dhcp_traces :: "net \<Rightarrow> bytes list \<times> bytes list \<times> (string \<times> string) list" where
  "dhcp_traces s = (outbox s, nlLog s, written s)"

definition connected :: "string \<Rightarrow> string \<Rightarrow> net \<Rightarrow> gerror option option \<Rightarrow> net \<Rightarrow> bool" where
  "connected ssid psk s r s' \<longleftrightarrow> r \<noteq> None \<and> openConns s' = openConns s
     \<and> (\<exists>id0 k n. wpaLog s' = rev (take k (connect_script id0 ssid psk) @ replicate n ''STATUS'') @ wpaLog s
          \<and> (0 < n \<longrightarrow> k = 4)
          \<and> (r = Some None \<or> dhcp_traces s' \<noteq> dhcp_traces s \<longrightarrow> k = 4 \<and> 0 < n \<and> completed_status s'))"

lemma commandedD:
  assumes "commanded cs s s'"
  shows "wpaLog s' = rev cs @ wpaLog s" and "openConns s' = openConns s" and "dhcp_traces s' = dhcp_traces s"
  using assms by (cases s; cases s'; simp add: commanded_def dhcp_traces_def)+

lemma connected_stop:
  assumes "commanded (take k (connect_script id0 ssid psk)) s s1"
  shows "wp (return (Some (Some err))) (connected ssid psk s) s1"
  unfolding wp_return connected_def
  using commandedD [OF assms] by (intro conjI exI [of _ id0] exI [of _ k] exI [of _ 0]) simp_all

lemma take_script:
  "take 1 (connect_script id0 ssid psk) = [''ADD_NETWORK'']"
  "take 2 (connect_script id0 ssid psk) = take 1 (connect_script id0 ssid psk) @ [''SET_NETWORK '' @ id0 @ '' '' @ ''ssid \"'' @ ssid @ ''\"'']"
  "take 3 (connect_script id0 ssid psk) = take 2 (connect_script id0 ssid psk)
     @ [''SET_NETWORK '' @ id0 @ '' '' @ (if psk = [] then ''key_mgmt NONE'' else ''psk \"'' @ psk @ ''\"'')]"
  "take 4 (connect_script id0 ssid psk) = take 3 (connect_script id0 ssid psk) @ [''SELECT_NETWORK '' @ id0]"
  by (simp_all add: connect_script_def numeral_eq_Suc)

lemma wp_setNetwork:
  assumes "commanded cs s s1"
  shows "wp (setNetwork id0 kv) (\<lambda>_ s'. commanded (cs @ [''SET_NETWORK '' @ id0 @ '' '' @ kv]) s s') s1"
  unfolding setNetwork_def
  by (rule wp_step [OF wp_cmd_after [OF assms]]) (intro wp_sumI wp_ifI; simp add: wp_return)

lemma wp_waitConnected:
  "wp (waitConnected c ctx0) (\<lambda>r s'. (\<exists>n. commanded (replicate n ''STATUS'') s s' \<and> (r = None \<longrightarrow> 0 < n \<and> completed_status s'))
     \<and> clock s' \<le> clock s + 34 * second) s"
proof (rule wp_runI)
  fix r s' assume "run_state (waitConnected c ctx0) s = (r, s')"
  then have w: "waitUntil ctx0 (iface c) (clock s + 30 * second) s = (r, s')" by (simp add: waitConnected_def)
  have "0 < second" by (simp add: second_def)
  then show "(\<exists>n. commanded (replicate n ''STATUS'') s s' \<and> (r = None \<longrightarrow> 0 < n \<and> completed_status s'))
     \<and> clock s' \<le> clock s + 34 * second"
    using waitUntil_ok [OF w] by auto
qed

lemma completed_status_same: "same_wpa s s' \<Longrightarrow> completed_status s \<Longrightarrow> completed_status s'"
  by (simp add: completed_status_def last_reply_def same_wpa_def)

lemma wp_await_lease:
  assumes c: "commanded (take 4 (connect_script id0 ssid psk)) s s1"
  shows "wp (waitConnected c ctx0 \<bind> (\<lambda>e. case e of Some err \<Rightarrow> return (Some (Some err)) | None \<Rightarrow> lease ctx0 (iface c)))
    (connected ssid psk s) s1"
proof (rule wp_guard [OF wp_waitConnected], elim conjE exE, goal_cases)
  case (1 s2 n)
  note d = commandedD [OF commanded_trans [OF c 1(2)]]
  from 1 have n: "0 < n" "completed_status s2" by simp_all
  show ?case
  proof (rule wp_mono [OF wp_lease], elim conjE, goal_cases)
    case (1 r s3)
    then show ?case
      unfolding connected_def using n d completed_status_same [OF 1(2) n(2)]
      by (intro conjI exI [of _ id0] exI [of _ 4] exI [of _ n]) (simp_all add: same_wpa_def)
  qed
next
  case (2 err s2)
  then obtain n where n: "commanded (replicate n ''STATUS'') s1 s2" by blast
  note d = commandedD [OF commanded_trans [OF c n]]
  show ?case
    unfolding wp_return connected_def using d
    by (intro conjI exI [of _ id0] exI [of _ 4] exI [of _ n]) simp_all
qed

lemma wp_connectConn: "wp (connectConn c ctx0 ssid psk) (connected ssid psk s) s"
  unfolding connectConn_def
proof (rule wp_try [OF wp_cmd_after [OF commanded_refl]], goal_cases)
  case (1 err s1)
  then show ?case by (intro connected_stop [of 1 "[]"]) (simp only: take_script append_Nil)
next
  case (2 reply s1)
  let ?id = "trimSpace reply"
  let ?c = "\<lambda>k. commanded (take k (connect_script ?id ssid psk)) s"
  from 2 have c1: "?c 1 s1" by (simp only: take_script append_Nil)
  show ?case
    unfolding Let_def wp_bind [of "gets _"] wp_gets
  proof (intro wp_ifI wp_guard [OF wp_setNetwork [OF c1]], unfold take_script(2) [symmetric], goal_cases)
    case (2 s2)
    show ?case
    proof (rule wp_guard [OF wp_setNetwork [OF 2(2)]], unfold take_script(3) [symmetric], goal_cases)
      case (1 s3)
      show ?case
        by (rule wp_try [OF wp_cmd_after [OF 1]], unfold take_script(4) [symmetric], elim conjE)
          (blast intro: connected_stop wp_await_lease)+
    qed (rule connected_stop)
  qed (rule connected_stop, use c1 in simp)+
qed

lemma wp_dialCtrl:
  "wp (dialCtrl c) (\<lambda>e s'. (e \<noteq> None \<longrightarrow> s' = s\<lparr>dials := Suc (dials s)\<rparr>)
     \<and> (e = None \<longrightarrow> s' = s\<lparr>dials := Suc (dials s), openConns := Suc (openConns s)\<rparr>)) s"
proof -
  have "openConns_update Suc (dials_update Suc s) = s\<lparr>dials := Suc (dials s), openConns := Suc (openConns s)\<rparr>"
    "dials_update Suc s = s\<lparr>dials := Suc (dials s)\<rparr>" by (cases s; simp)+
  then show ?thesis
    unfolding dialCtrl_def by (cases "wpaDial s (dials s)") (simp_all add: wp_simps)
qed

lemma connected_cleanup:
  assumes "connected ssid psk (s\<lparr>dials := d, openConns := Suc (openConns s)\<rparr>) r s1"
  shows "connected ssid psk s r (s1\<lparr>openConns := openConns s1 - 1\<rparr>)"
  using assms by (simp add: connected_def dhcp_traces_def completed_status_def last_reply_def)

lemma wp_Connect: "wp (Connect c ctx0 ssid psk) (connected ssid psk s) s"
  unfolding Connect_def
proof (rule wp_step [OF wp_dialCtrl], elim conjE, rule wp_optionI, goal_cases)
  case (1 e s1)
  then have s1: "s1 = s\<lparr>dials := Suc (dials s), openConns := Suc (openConns s)\<rparr>" by simp
  show ?case
    unfolding s1
  proof (rule wp_step [OF wp_connectConn], goal_cases)
    case (1 r s2)
    have "openConns_update (\<lambda>n. n - 1) s2 = s2\<lparr>openConns := openConns s2 - 1\<rparr>" by (cases s2) simp
    then show ?case unfolding cleanup_def wp_bind wp_modify wp_return by (simp only: connected_cleanup [OF 1])
  qed
next
  case (2 e s1 err)
  then have s1: "s1 = s\<lparr>dials := Suc (dials s)\<rparr>" by simp
  show ?case
    unfolding wp_return connected_def s1
    by (intro conjI exI [of _ "[]"] exI [of _ 0]) (simp_all add: dhcp_traces_def)
qed

text \<open>C29. A connection sends \<open>wpa_supplicant\<close> exactly these commands, in this order and as far as it
  gets: add a network, set its name, set its key or no key, select it, and then ask for the status
  until it is associated.  The DHCP client is used only after a status reply that says so, and
  success needs one.  The control connection is closed on every path, and nothing panics.\<close>

theorem Connect_correct:
  assumes "run_state (Connect c ctx0 ssid psk) s = (r, s')"
  shows "r \<noteq> None \<and> openConns s' = openConns s
     \<and> (\<exists>id0 k n. wpaLog s' = rev (take k (connect_script id0 ssid psk) @ replicate n ''STATUS'') @ wpaLog s
          \<and> (0 < n \<longrightarrow> k = 4)
          \<and> (r = Some None \<or> dhcp_traces s' \<noteq> dhcp_traces s \<longrightarrow> k = 4 \<and> 0 < n \<and> completed_status s'))"
  using wp_runD [OF wp_Connect assms] by (simp add: connected_def)

text \<open>Waiting for the association ends within 34 seconds (the deadline of 30, the second it may still
  sleep and the 3 seconds a command may take), and succeeds only on the state \<open>COMPLETED\<close>.\<close>

lemma waitConnected_bounded:
  assumes "run_state (waitConnected c ctx0) s = (r, s')"
  shows "clock s' \<le> clock s + 34 * second
     \<and> (\<exists>n. wpaLog s' = replicate n ''STATUS'' @ wpaLog s \<and> (r = None \<longrightarrow> 0 < n \<and> completed_status s'))"
  using wp_runD [OF wp_waitConnected assms] by (auto simp: commanded_def)

text \<open>The outcome of a scan.\<close>

definition scanned :: "net \<Rightarrow> gerror + network list \<Rightarrow> net \<Rightarrow> bool" where
  "scanned s r s' \<longleftrightarrow> openConns s' = openConns s
     \<and> (\<exists>k. wpaLog s' = rev (take k [''SCAN'', ''SCAN_RESULTS'']) @ wpaLog s
          \<and> (\<forall>nets. r = Inr nets \<longrightarrow> k = 2 \<and> clock s + 3 * second \<le> clock s'
               \<and> (\<exists>res. last_reply s' (Inr res) \<and> nets = parseScanResults res)))"

lemma scanned_early: "commanded [''SCAN''] s s' \<Longrightarrow> scanned s (Inl err) s'"
  using commandedD by (fastforce simp: scanned_def intro!: exI [of _ 1])

lemma wp_scanWait:
  assumes "commanded [''SCAN''] s s1"
  shows "wp (scanWait ctx0) (\<lambda>e s2. commanded [''SCAN''] s s2 \<and> (e = None \<longrightarrow> clock s + 3 * second \<le> clock s2)) s1"
proof -
  have "0 < second" by (simp add: second_def)
  with assms show ?thesis
    unfolding scanWait_def pass_def
    by (cases s; cases s1) (auto simp: wp_simps commanded_def split: option.split prod.split)
qed

lemma wp_scanResults:
  assumes c: "commanded [''SCAN''] s s1" and t: "clock s + 3 * second \<le> clock s1"
  shows "wp (cmd ''SCAN_RESULTS'' \<bind> (\<lambda>r. case r of Inl err \<Rightarrow> return (Inl err) | Inr res \<Rightarrow> return (Inr (parseScanResults res))))
    (scanned s) s1"
proof -
  have res: "wp (cmd ''SCAN_RESULTS'') (\<lambda>r s'. commanded ([''SCAN''] @ [''SCAN_RESULTS'']) s s' \<and> last_reply s' r \<and> clock s1 \<le> clock s') s1"
    by (rule wp_mono [OF wp_cmd]) (use commanded_trans [OF c] in \<open>auto simp: commanded_def\<close>)
  show ?thesis
  proof (rule wp_step [OF res], elim conjE, goal_cases)
    case (1 r s2)
    then show ?case
      using t commandedD [OF 1(1)] by (auto simp: scanned_def wp_return split: sum.split intro!: exI [of _ 2])
  qed
qed

lemma wp_scanConn: "wp (scanConn ctx0) (scanned s) s"
  unfolding scanConn_def
proof (rule wp_step [OF wp_cmd_after [OF commanded_refl]], goal_cases)
  case (1 r s1)
  then have c: "commanded [''SCAN''] s s1" by simp
  show ?case
    by (intro wp_sumI wp_step [OF wp_scanWait [OF c]] wp_optionI wp_scanResults)
      (auto simp: wp_return intro: scanned_early c)
qed

lemma wp_Scan: "wp (Scan c ctx0) (scanned s) s"
  unfolding Scan_def
proof (rule wp_step [OF wp_dialCtrl], elim conjE, rule wp_optionI, goal_cases)
  case (1 e s1)
  then have s1: "s1 = s\<lparr>dials := Suc (dials s), openConns := Suc (openConns s)\<rparr>" by simp
  show ?case
    unfolding s1 by (rule wp_step [OF wp_scanConn]) (auto simp: cleanup_def wp_simps last_reply_def scanned_def)
next
  case (2 e s1 err)
  then have s1: "s1 = s\<lparr>dials := Suc (dials s)\<rparr>" by simp
  show ?case unfolding wp_return s1 by (auto simp: scanned_def intro!: exI [of _ 0])
qed

text \<open>C39. A scan sends \<open>SCAN\<close>, waits three seconds or until it is cancelled, then asks for the results;
  networks are only what the reply to \<open>SCAN_RESULTS\<close> says, and the connection is closed on every path.\<close>

theorem Scan_correct:
  assumes "run_state (Scan c ctx0) s = (r, s')"
  shows "openConns s' = openConns s
     \<and> (\<exists>k. wpaLog s' = rev (take k [''SCAN'', ''SCAN_RESULTS'']) @ wpaLog s
          \<and> (\<forall>nets. r = Inr nets \<longrightarrow> k = 2 \<and> clock s + 3 * second \<le> clock s'
               \<and> (\<exists>res. last_reply s' (Inr res) \<and> nets = parseScanResults res)))"
  using wp_runD [OF wp_Scan assms] unfolding scanned_def .

section \<open>Replies\<close>

text \<open>A line of the table \<open>SCAN_RESULTS\<close>: address, frequency, signal, flags and name.\<close>

definition scan_row :: "string \<times> string \<times> network \<Rightarrow> string" where
  "scan_row r = (case r of (freq, flgs, n) \<Rightarrow> join [CHR 0x09] [BSSID n, freq, itoa (Signal n), flgs, SSID n])"

definition field_ok :: "string \<Rightarrow> bool" where
  "field_ok s \<longleftrightarrow> CHR 0x09 \<notin> set s \<and> CHR 0x0A \<notin> set s"

definition row_ok :: "string \<times> string \<times> network \<Rightarrow> bool" where
  "row_ok r = (case r of (freq, flgs, n) \<Rightarrow>
     field_ok (BSSID n) \<and> field_ok freq \<and> field_ok flgs \<and> field_ok (SSID n) \<and> is_int64 (Signal n)
     \<and> trimSpace (scan_row r) \<noteq> [] \<and> Secure n = (contains flgs ''WPA'' \<or> contains flgs ''WEP''))"

lemma set_itoa: "c \<in> set (itoa i) \<Longrightarrow> is_digit c \<or> c = CHR ''-''"
  by (auto simp: itoa_def split: if_splits dest: utoa_digits)

lemma field_ok_itoa: "field_ok (itoa i)"
  using set_itoa [of "CHR 0x09" i] set_itoa [of "CHR 0x0A" i] by (auto simp: field_ok_def is_digit_def)

lemma trimSpace_itoa: "trimSpace (itoa i) = itoa i"
proof (rule trimSpace_id)
  have p: "plain_char c" if "c \<in> set (itoa i)" for c
    using set_itoa [OF that] by (auto simp: plain_char_def is_digit_def)
  show "itoa i = [] \<or> plain_char (hd (itoa i)) \<and> plain_char (last (itoa i))"
    using p [of "hd (itoa i)"] p [of "last (itoa i)"] by (cases "itoa i = []") auto
qed

lemma parseLine_row: "row_ok r \<Longrightarrow> parseLine (scan_row r) = Some (snd (snd r))"
proof -
  obtain freq flgs n where r: "r = (freq, flgs, n)" by (cases r)
  assume ok: "row_ok r"
  let ?f = "[BSSID n, freq, itoa (Signal n), flgs, SSID n]"
  have "\<forall>x \<in> set ?f. CHR 0x09 \<notin> set x" using ok field_ok_itoa [of "Signal n"] by (auto simp: r row_ok_def field_ok_def)
  then have "split (CHR 0x09) (scan_row r) = ?f" unfolding scan_row_def r prod.case by (intro split_join) (auto simp: list_all_iff)
  moreover have "atoi (itoa (Signal n)) = (Signal n, None)" using ok by (intro atoi_itoa) (auto simp: r row_ok_def)
  ultimately show ?thesis
    using ok unfolding parseLine_def by (cases n) (simp add: r row_ok_def trimSpace_itoa)
qed

lemma newline_row: "row_ok r \<Longrightarrow> CHR 0x0A \<notin> set (scan_row r)"
  using field_ok_itoa by (cases r) (auto simp: row_ok_def scan_row_def field_ok_def)

text \<open>C40. Scan results are read back from the table they are printed in: one header line, then a line
  per network with fields free of tabs and newlines; a network counts as secure exactly when its
  flags mention WPA or WEP.\<close>

theorem parseScanResults_table:
  assumes "CHR 0x0A \<notin> set header_line" and "list_all row_ok rows"
  shows "parseScanResults (header_line @ concat (map (\<lambda>r. CHR 0x0A # scan_row r) rows) @ ''\<newline>'') = map (snd \<circ> snd) rows"
proof -
  have t: "header_line @ concat (map (\<lambda>r. CHR 0x0A # scan_row r) rows) @ ''\<newline>''
      = join [CHR 0x0A] (header_line # map scan_row rows @ [[]])" for header_line :: string
  proof (induction rows arbitrary: header_line)
    case (Cons r rows)
    from Cons [of "scan_row r"] show ?case by (cases "map scan_row rows @ [[]]") auto
  qed simp
  have s: "split (CHR 0x0A) (join [CHR 0x0A] (header_line # map scan_row rows @ [[]])) = header_line # map scan_row rows @ [[]]"
    using assms newline_row by (intro split_join) (auto simp: list_all_iff)
  have "List.map_filter parseLine (map scan_row rows @ [[]]) = map (snd \<circ> snd) rows"
    using assms(2)
  proof (induction rows)
    case Nil
    have "parseLine [] = None" using trimSpace_id [of "[]"] by (simp add: parseLine_def)
    then show ?case by (simp add: List.map_filter_def)
  next
    case (Cons r rows)
    then show ?case by (simp add: List.map_filter_def parseLine_row)
  qed
  then show ?thesis unfolding parseScanResults_def t s by simp
qed

definition ex_rows :: "(string \<times> string \<times> network) list" where
  "ex_rows = [(''2412'', ''[WPA2-PSK-CCMP][ESS]'', \<lparr>SSID = ''home'', BSSID = ''02:00:00:00:00:01'', Signal = -41, Secure = True\<rparr>),
     (''2437'', ''[ESS]'', \<lparr>SSID = '''', BSSID = ''02:00:00:00:00:02'', Signal = -70, Secure = False\<rparr>)]"

theorem parseScanResults_table_witness:
  "parseScanResults (''bssid'' @ concat (map (\<lambda>r. CHR 0x0A # scan_row r) ex_rows) @ ''\<newline>'')
   = [\<lparr>SSID = ''home'', BSSID = ''02:00:00:00:00:01'', Signal = -41, Secure = True\<rparr>,
      \<lparr>SSID = '''', BSSID = ''02:00:00:00:00:02'', Signal = -70, Secure = False\<rparr>]"
proof -
  have "CHR 0x0A \<notin> set ''bssid''" by simp
  moreover have "list_all row_ok ex_rows" by code_simp
  moreover have "map (snd \<circ> snd) ex_rows = [\<lparr>SSID = ''home'', BSSID = ''02:00:00:00:00:01'', Signal = -41, Secure = True\<rparr>,
      \<lparr>SSID = '''', BSSID = ''02:00:00:00:00:02'', Signal = -70, Secure = False\<rparr>]" by (simp add: ex_rows_def)
  ultimately show ?thesis using parseScanResults_table by metis
qed

theorem Connect_correct_witness:
  "openConns (snd (run_state (Connect (New ''wlan0'') background ''home'' ''secret'') ex_net)) = 0"
proof -
  have "openConns ex_net = 0" by (simp add: ex_net_def)
  with Connect_correct [OF prod.collapse [symmetric], of "New ''wlan0''" background "''home''" "''secret''" ex_net]
  show ?thesis by (elim conjE) simp
qed

theorem Scan_correct_witness:
  "openConns (snd (run_state (Scan (New ''wlan0'') background) ex_net)) = 0"
proof -
  have "openConns ex_net = 0" by (simp add: ex_net_def)
  with Scan_correct [OF prod.collapse [symmetric], of "New ''wlan0''" background ex_net] show ?thesis by (elim conjE) simp
qed

end
