(* ===== verification/Core.thy ===== *)
theory Core
  imports Lock Wifi
begin

text \<open>
  The recovery core (\<open>internal/recovery/core.go\<close>, \<open>internal/recovery/reinstall.go\<close>): the
  operations every front-end drives, over the files, the network and the staging library.

  The staging library \<open>atom\<close> is a third-party package.  It appears as the record \<open>atom\<close> of the five
  functions the program calls, and the deployment it loads as the fields the program reads.
\<close>

section \<open>The system\<close>

text \<open>The files and programs on one side, the network on the other.\<close>

record 'x sys =
  disk :: "'x world"
  netw :: net

type_synonym ('x, 'a) prog = "('x sys, 'a) state"

definition on_disk :: "('x, 'a) io \<Rightarrow> ('x, 'a) prog" where
  "on_disk m = State (\<lambda>s. case run_state m (disk s) of (a, w) \<Rightarrow> (a, s\<lparr>disk := w\<rparr>))"

definition on_net :: "'a netio \<Rightarrow> ('x, 'a) prog" where
  "on_net m = State (\<lambda>s. case run_state m (netw s) of (a, n) \<Rightarrow> (a, s\<lparr>netw := n\<rparr>))"

lemma run_on_disk [simp]:
  "run_state (on_disk m) s = (fst (run_state m (disk s)), s\<lparr>disk := snd (run_state m (disk s))\<rparr>)"
  by (simp add: on_disk_def case_prod_beta)

lemma run_on_net [simp]:
  "run_state (on_net m) s = (fst (run_state m (netw s)), s\<lparr>netw := snd (run_state m (netw s))\<rparr>)"
  by (simp add: on_net_def case_prod_beta)

lemma wp_on_disk [wp_simps]: "wp (on_disk m) Q = (\<lambda>s. wp m (\<lambda>a w. Q a (s\<lparr>disk := w\<rparr>)) (disk s))"
  by (simp add: wp_def fun_eq_iff case_prod_beta)

lemma wp_on_net [wp_simps]: "wp (on_net m) Q = (\<lambda>s. wp m (\<lambda>a n. Q a (s\<lparr>netw := n\<rparr>)) (netw s))"
  by (simp add: wp_def fun_eq_iff case_prod_beta)

section \<open>The staging library\<close>

record rootfsState =
  dCurrent :: string
  dPending :: string
  dRollback :: string
  dLastKnownGood :: string
  dBootAttempts :: int

record deployment =
  RootFS :: rootfsState
  RecoveryVersion :: string
  KernelcacheVersion :: int
  SecurityLevel :: int

record 'x atom =
  atomLoadDeployment :: "string \<Rightarrow> ('x, gerror + deployment) prog"
  atomStage :: "ctx \<Rightarrow> string \<Rightarrow> string \<Rightarrow> string \<Rightarrow> string \<Rightarrow> stageDirs \<Rightarrow> ('x, gerror + string) prog"
  atomSyncBootState :: "string \<Rightarrow> stageDirs \<Rightarrow> ('x, gerror option) prog"
  atomRollback :: "string \<Rightarrow> stageDirs \<Rightarrow> ('x, gerror + string) prog"
  atomRepairLoader :: "stageDirs \<Rightarrow> string \<Rightarrow> string \<Rightarrow> string \<Rightarrow> ('x, gerror + string) prog"

section \<open>The core\<close>

record core =
  cfg :: config
  wifiClient :: client

definition NewCore :: "config \<Rightarrow> core" where
  "NewCore c = \<lparr>cfg = c, wifiClient = New (Iface c)\<rparr>"

definition CoreScan :: "core \<Rightarrow> ctx \<Rightarrow> ('x, gerror + network list) prog" where
  "CoreScan c ctx0 = on_net (Scan (wifiClient c) ctx0)"

definition CoreConnect :: "core \<Rightarrow> ctx \<Rightarrow> string \<Rightarrow> string \<Rightarrow> ('x, gerror option option) prog" where
  "CoreConnect c ctx0 ssid psk = on_net (Connect (wifiClient c) ctx0 ssid psk)"

record statusInfo =
  stCurrent :: string
  stPending :: string
  stRollback :: string
  stLastKnownGood :: string
  stBootAttempts :: int
  stRecovery :: string
  stKernelcache :: int
  stSecurityLevel :: int

definition Status :: "'x atom \<Rightarrow> core \<Rightarrow> ('x, gerror + statusInfo) prog" where
  "Status lib c = do {
     r \<leftarrow> atomLoadDeployment lib (WALPath (cfg c));
     case r of
       Inl err \<Rightarrow> return (Inl err)
     | Inr d \<Rightarrow> return (Inr
         \<lparr>stCurrent = dCurrent (RootFS d), stPending = dPending (RootFS d), stRollback = dRollback (RootFS d),
          stLastKnownGood = dLastKnownGood (RootFS d), stBootAttempts = dBootAttempts (RootFS d),
          stRecovery = RecoveryVersion d, stKernelcache = KernelcacheVersion d, stSecurityLevel = SecurityLevel d\<rparr>)
   }"

definition RepairLoader :: "'x atom \<Rightarrow> core \<Rightarrow> ('x, gerror + string) prog" where
  "RepairLoader lib c = do {
     r1 \<leftarrow> on_disk (os_ReadFile (LoaderImage (cfg c)));
     case r1 of
       Inl err \<Rightarrow> return (Inl (Wrap ''this recovery image carries no boot loader: '' err))
     | Inr img \<Rightarrow> do {
     r2 \<leftarrow> on_disk (os_ReadFile (LoaderSig (cfg c)));
     case r2 of
       Inl err \<Rightarrow> return (Inl (Wrap ''this recovery image carries no boot loader signature: '' err))
     | Inr sig \<Rightarrow> atomRepairLoader lib (Dirs (cfg c)) img sig (RootPub (cfg c)) }
   }"

definition Reinstall :: "'x atom \<Rightarrow> ctx \<Rightarrow> string \<Rightarrow> string \<Rightarrow> string \<Rightarrow> string \<Rightarrow> stageDirs \<Rightarrow> ('x, gerror + string) prog" where
  "Reinstall lib ctx0 walPath manifestURL revocationURL rootPub dirs = do {
     r \<leftarrow> atomStage lib ctx0 walPath manifestURL revocationURL rootPub dirs;
     case r of
       Inl err \<Rightarrow> return (Inl (Wrap ''recovery reinstall: '' err))
     | Inr msg \<Rightarrow> do {
     e \<leftarrow> atomSyncBootState lib walPath dirs;
     case e of
       Some err \<Rightarrow> return (Inl (Wrap ''recovery reinstall: sync boot-state: '' err))
     | None \<Rightarrow> return (Inr msg) }
   }"

definition CoreReinstall :: "'x atom \<Rightarrow> core \<Rightarrow> ctx \<Rightarrow> ('x, gerror + string) prog" where
  "CoreReinstall lib c ctx0 =
     Reinstall lib ctx0 (WALPath (cfg c)) (ManifestURL (cfg c)) (RevocationURL (cfg c)) (RootPub (cfg c)) (Dirs (cfg c))"

definition CoreRollback :: "'x atom \<Rightarrow> core \<Rightarrow> ('x, gerror + string) prog" where
  "CoreRollback lib c = atomRollback lib (WALPath (cfg c)) (Dirs (cfg c))"

definition Repair :: "'x atom \<Rightarrow> core \<Rightarrow> ('x, gerror + string) prog" where
  "Repair lib c = do {
     r \<leftarrow> atomLoadDeployment lib (WALPath (cfg c));
     case r of
       Inl err \<Rightarrow> return (Inl err)
     | Inr d \<Rightarrow>
         if dLastKnownGood (RootFS d) = []
         then return (Inl (ErrText ''no last_known_good to repair to; a network reinstall is required''))
         else atomRollback lib (WALPath (cfg c)) (Dirs (cfg c))
   }"

end
