(* ===== verification/Threads.thy ===== *)
theory Threads
  imports Prelude
begin

text \<open>
  Goroutines.  A goroutine is a tree of atomic actions on a shared state, each of which decides how
  it goes on; it may start another one, and it ends, the handler of a request with a response.  A
  server interleaves the goroutines of any requests in any order.

  The rule for such servers is rely and guarantee with one relation \<open>R\<close> for both sides: if every
  action of every goroutine is a step of the preorder \<open>R\<close>, as long as all the others only make
  such steps, then so is every run of the server.  The locale \<open>served\<close> states what a handler has to
  promise, and proves the rule from it.
\<close>

section \<open>Threads and servers\<close>

datatype ('s, 'r) thread =
    Halt "'r option"
  | Act "'s \<Rightarrow> ('s, 'r) thread \<times> 's"
  | Fork "('s, 'r) thread" "('s, 'r) thread"

text \<open>One call that no other goroutine can interrupt.\<close>

definition atomic :: "('s, 'a) state \<Rightarrow> ('a \<Rightarrow> ('s, 'r) thread) \<Rightarrow> ('s, 'r) thread" where
  "atomic m k = Act (\<lambda>s. case run_state m s of (a, s') \<Rightarrow> (k a, s'))"

inductive server_step ::
    "('q \<Rightarrow> ('s, 'r) thread) \<Rightarrow> ('s, 'r) thread list \<times> 's \<Rightarrow> ('s, 'r) thread list \<times> 's \<Rightarrow> bool"
  for h where
  arrive: "server_step h (ts, s) (ts @ [h q], s)"
| act: "i < length ts \<Longrightarrow> ts ! i = Act f \<Longrightarrow> f s = (t, s') \<Longrightarrow> server_step h (ts, s) (ts[i := t], s')"
| fork: "i < length ts \<Longrightarrow> ts ! i = Fork j t \<Longrightarrow> server_step h (ts, s) (ts[i := t] @ [j], s)"

inductive_cases server_stepE: "server_step h (ts, s) c"

text \<open>
  A schedule names the goroutine that moves next; \<open>run_schedule\<close> executes it.
\<close>

fun move :: "nat \<Rightarrow> ('s, 'r) thread list \<times> 's \<Rightarrow> ('s, 'r) thread list \<times> 's" where
  "move i (ts, s) =
     (if i < length ts then
        (case ts ! i of
           Halt r \<Rightarrow> (ts, s)
         | Act f \<Rightarrow> (case f s of (t, s') \<Rightarrow> (ts[i := t], s'))
         | Fork j t \<Rightarrow> (ts[i := t] @ [j], s))
      else (ts, s))"

definition run_schedule :: "nat list \<Rightarrow> ('s, 'r) thread list \<times> 's \<Rightarrow> ('s, 'r) thread list \<times> 's" where
  "run_schedule is c = fold move is c"

lemma move_steps: "(server_step h)\<^sup>*\<^sup>* c (move i c)"
  by (cases c) (auto split: thread.split prod.split intro!: r_into_rtranclp intro: server_step.intros)

lemma run_schedule_steps: "(server_step h)\<^sup>*\<^sup>* c (run_schedule is c)"
  unfolding run_schedule_def
proof (induction "is" arbitrary: c)
  case (Cons i "is")
  then show ?case using move_steps [of h c i] by (simp add: rtranclp_trans)
qed simp

lemma arrive_steps: "(server_step h)\<^sup>*\<^sup>* (ts, s) (ts @ map h qs, s)"
proof (induction qs arbitrary: ts)
  case (Cons q qs)
  have "server_step h (ts, s) (ts @ [h q], s)" by (rule arrive)
  with Cons [of "ts @ [h q]"] show ?case by (simp add: converse_rtranclp_into_rtranclp)
qed simp

text \<open>Requests that arrive together, then a schedule of their handlers.\<close>

lemma schedule_steps: "(server_step h)\<^sup>*\<^sup>* ([], s) (run_schedule is (map h qs, s))"
  using rtranclp_trans [OF arrive_steps [of h "[]" s qs]] run_schedule_steps [of h "(map h qs, s)"] by simp

text \<open>A goroutine on its own, from its start to its end, with the goroutines it started.\<close>

primrec run_thread :: "('s, 'r) thread \<Rightarrow> 's \<Rightarrow> 'r option \<times> ('s, 'r) thread list \<times> 's" where
  "run_thread (Halt r) s = (r, [], s)"
| "run_thread (Act f) s = (case (map_prod run_thread id \<circ> f) s of (g, s') \<Rightarrow> g s')"
| "run_thread (Fork j t) s = (case run_thread t s of (r, js, s') \<Rightarrow> (r, j # js, s'))"

lemma run_thread_atomic [simp]:
  "run_thread (atomic m k) s = run_thread (k (fst (run_state m s))) (snd (run_state m s))"
  by (simp add: atomic_def case_prod_beta)

section \<open>Rely and guarantee\<close>

text \<open>
  \<open>guarantees R t s\<close>: from the state \<open>s\<close> on, and however others change it along \<open>R\<close>, every action of
  \<open>t\<close>, and of the goroutines it starts, is a step of \<open>R\<close>.
\<close>

primrec guarantees :: "('s \<Rightarrow> 's \<Rightarrow> bool) \<Rightarrow> ('s, 'r) thread \<Rightarrow> 's \<Rightarrow> bool" where
  "guarantees R (Halt r) s0 = True"
| "guarantees R (Act f) s0 =
     (\<forall>s. R s0 s \<longrightarrow> R s (snd (f s)) \<and> fst ((map_prod (guarantees R) id \<circ> f) s) (snd (f s)))"
| "guarantees R (Fork j t) s0 = (guarantees R j s0 \<and> guarantees R t s0)"

lemma guarantees_Act:
  "guarantees R (Act f) s0 \<longleftrightarrow> (\<forall>s. R s0 s \<longrightarrow> R s (snd (f s)) \<and> guarantees R (fst (f s)) (snd (f s)))"
  by simp

lemma guarantees_atomic:
  "guarantees R (atomic m k) s0 \<longleftrightarrow>
     (\<forall>s. R s0 s \<longrightarrow> wp m (\<lambda>a s'. R s s' \<and> guarantees R (k a) s') s)"
  unfolding atomic_def guarantees_Act by (simp add: wp_def case_prod_beta)

lemma guarantees_atomicI:
  "(\<And>s. R s0 s \<Longrightarrow> wp m (\<lambda>a s'. R s s' \<and> guarantees R (k a) s') s) \<Longrightarrow> guarantees R (atomic m k) s0"
  by (simp add: guarantees_atomic)

lemma guarantees_later:
  assumes "transp R" and "guarantees R t s0" and "R s0 s1"
  shows "guarantees R t s1"
  using assms(2,3)
proof (induction t arbitrary: s0 s1)
  case (Act f)
  from Act.prems show ?case unfolding guarantees_Act using transpD [OF assms(1)] by blast
qed auto

locale served =
  fixes R :: "'s \<Rightarrow> 's \<Rightarrow> bool" and h :: "'q \<Rightarrow> ('s, 'r) thread"
  assumes R_refl: "R s s" and R_trans: "transp R"
    and handler: "guarantees R (h q) s"
begin

definition good :: "'s \<Rightarrow> ('s, 'r) thread list \<times> 's \<Rightarrow> bool" where
  "good s0 c \<longleftrightarrow> R s0 (snd c) \<and> (\<forall>t \<in> set (fst c). guarantees R t (snd c))"

lemma good_start: "good s ([], s)"
  by (simp add: good_def R_refl)

lemma good_step:
  assumes "server_step h c c'" and "good s0 c"
  shows "good s0 c'"
  using assms
proof cases
  case (arrive ts s q)
  with assms(2) handler show ?thesis by (simp add: good_def)
next
  case (act i ts f s t s')
  have all: "\<forall>u \<in> set ts. guarantees R u s" using assms(2) act(1) by (simp add: good_def)
  from all have "guarantees R (Act f) s" using nth_mem [OF act(3)] unfolding act(4) by (rule bspec)
  then have "R s (snd (f s)) \<and> guarantees R (fst (f s)) (snd (f s))"
    unfolding guarantees_Act using R_refl by blast
  with act have st: "R s s'" "guarantees R t s'" by simp_all
  have "guarantees R u s'" if "u \<in> set ts" for u
    by (rule guarantees_later [OF R_trans _ st(1)]) (rule bspec [OF all that])
  moreover have "R s0 s" using assms(2) act(1) by (simp add: good_def)
  then have "R s0 s'" by (rule transpD [OF R_trans _ st(1)])
  ultimately show ?thesis using act st(2) by (auto simp: good_def dest: set_update_subset_insert [THEN subsetD])
next
  case (fork i ts j t s)
  have "\<forall>u \<in> set ts. guarantees R u s" using assms(2) fork(1) by (simp add: good_def)
  then have "guarantees R (Fork j t) s" using nth_mem [OF fork(3)] unfolding fork(4) by (rule bspec)
  with fork assms(2) show ?thesis by (auto simp: good_def dest: set_update_subset_insert [THEN subsetD])
qed

text \<open>Every run of the server is a step of the relation.\<close>

lemma runs:
  assumes "(server_step h)\<^sup>*\<^sup>* ([], s) (ts, s')"
  shows "R s s'"
proof -
  have "good s (ts, s')" using assms
    by (induction rule: rtranclp_induct) (auto intro: good_start good_step)
  then show ?thesis by (simp add: good_def)
qed

end

end
