(* ===== verification/Serve.thy ===== *)
theory Serve
  imports Core Threads
begin

text \<open>
  The local API (\<open>internal/recovery/serve.go\<close>): the state the user interface polls, one handler per
  route, the router and the restriction to the runtime policy, and the socket.

  A handler is a goroutine (\<open>Threads\<close>): every call of a method of \<open>uiState\<close> or of the core is one
  atomic action, so that requests and background jobs interleave between any two of them.  The
  methods of \<open>uiState\<close> and of the lock hold a mutex; the calls of the wireless client and of the
  staging library do not, and taking each of them as one action is the one simplification here.
\<close>

section \<open>The state of the user interface\<close>

record uiState =
  uState :: int
  uProgress :: int
  uMessage :: string
  uOnline :: bool

record 'x shared =
  ui :: uiState
  sys :: "'x sys"

type_synonym ('x, 'a) action = "('x shared, 'a) state"

definition on_sys :: "('x, 'a) prog \<Rightarrow> ('x, 'a) action" where
  "on_sys m = State (\<lambda>s. case run_state m (sys s) of (a, y) \<Rightarrow> (a, s\<lparr>sys := y\<rparr>))"

definition set_ui :: "int \<Rightarrow> int \<Rightarrow> string \<Rightarrow> ('x, unit) action" where
  "set_ui st pr msg = modify (\<lambda>s. s\<lparr>ui := (ui s)\<lparr>uState := st, uProgress := pr, uMessage := msg\<rparr>\<rparr>)"

definition setOnline :: "bool \<Rightarrow> ('x, unit) action" where
  "setOnline v = modify (\<lambda>s. s\<lparr>ui := (ui s)\<lparr>uOnline := v\<rparr>\<rparr>)"

definition working :: "('x, bool) action" where
  "working = gets (\<lambda>s. uState (ui s) = 2)"

definition snapshot :: "('x, int \<times> int \<times> string \<times> bool) action" where
  "snapshot = gets (\<lambda>s. (uState (ui s), uProgress (ui s), uMessage (ui s), uOnline (ui s)))"

text \<open>The state of a handler that has just been built.\<close>

definition initialUI :: uiState where
  "initialUI = \<lparr>uState = 0, uProgress = -1, uMessage = [], uOnline = False\<rparr>"

section \<open>Requests and responses\<close>

text \<open>
  What asking the kernel for the credentials of a unix socket comes to: one of the calls fails, or the
  kernel answers with the user id of the peer.
\<close>

datatype unixConn = SyscallConnErr gerror | ControlErr gerror | UcredErr gerror | Ucred "32 word"

datatype conn = UnixConn unixConn | OtherConn

fun peerUID :: "conn \<Rightarrow> int \<times> bool" where
  "peerUID (UnixConn (Ucred uid)) = (uint uid, True)"
| "peerUID _ = (0, False)"

text \<open>
  The body of a request is what arrives before its end.  \<open>ConnContext\<close> stores the peer of its
  connection, if there is one.  Paths are decoded and contain no escaped slash.
\<close>

record request =
  rMethod :: string
  rPath :: string
  rBody :: string
  rConn :: conn
  rCtx :: ctx

text \<open>A JSON response with its status code and its body, or one of the answers of the library.\<close>

datatype response = JSON nat string | NotFound | MethodNotAllowed | Redirect string

text \<open>\<open>json.Encoder\<close>: maps are written in the order of their keys.\<close>

fun json_print :: "json \<Rightarrow> string" where
  "json_print JNull = ''null''"
| "json_print (JBool b) = print_bool b"
| "json_print (JNum l) = l"
| "json_print (JStr s) = quote s"
| "json_print (JArr vs) = ''['' @ join '','' (map json_print vs) @ '']''"
| "json_print (JObj ms) = print_object (sort_key fst (map (\<lambda>m. (fst m, json_print (snd m))) ms))"

type_synonym 'x goroutine = "('x shared, response) thread"

definition writeJSON :: "nat \<Rightarrow> json \<Rightarrow> 'x goroutine" where
  "writeJSON status v = Halt (Some (JSON status (json_print v @ ''\<newline>'')))"

definition maxRequestBytes :: nat where
  "maxRequestBytes = 4096"

text \<open>The answer \<open>{"ok", "message"}\<close> of the lock routes.\<close>

definition okMessage :: "bool \<Rightarrow> string \<Rightarrow> json" where
  "okMessage ok msg = JObj [(''ok'', JBool ok), (''message'', JStr msg)]"

text \<open>
  Decoding a body: \<open>None\<close> is an error of the decoder, whose text depends on the offset and the kind
  of the error and is the parameter \<open>jsonErr\<close> of the environment below.
\<close>

definition decodeBody :: "'a field list \<Rightarrow> 'a \<Rightarrow> string \<Rightarrow> 'a option" where
  "decodeBody fs zero body =
     (case json_decode_body maxRequestBytes body of None \<Rightarrow> None | Some v \<Rightarrow> store_struct fs zero v)"

record connectReq =
  reqSSID :: string
  reqPSK :: string

definition connectFields :: "connectReq field list" where
  "connectFields =
     [(''ssid'', store_string (\<lambda>s r. r\<lparr>reqSSID := s\<rparr>)), (''psk'', store_string (\<lambda>s r. r\<lparr>reqPSK := s\<rparr>))]"

record armReq =
  reqArmed :: bool
  reqPIN :: string

definition armFields :: "armReq field list" where
  "armFields =
     [(''armed'', store_bool (\<lambda>b r. r\<lparr>reqArmed := b\<rparr>)), (''pin'', store_string (\<lambda>s r. r\<lparr>reqPIN := s\<rparr>))]"

record unlockReq =
  reqConfirm :: string
  reqUnlockPIN :: string

definition unlockFields :: "unlockReq field list" where
  "unlockFields =
     [(''confirm'', store_string (\<lambda>s r. r\<lparr>reqConfirm := s\<rparr>)), (''pin'', store_string (\<lambda>s r. r\<lparr>reqUnlockPIN := s\<rparr>))]"

section \<open>Handlers\<close>

text \<open>What a handler is built over: the core, the staging library, the cryptographic functions.\<close>

record 'x env =
  theCore :: core
  atomLib :: "'x atom"
  crypto :: "'x seam"
  jsonErr :: "string \<Rightarrow> string"

record HandlerPolicy =
  Runtime :: bool
  PolicyUID :: int

definition scanHandler :: "'x env \<Rightarrow> request \<Rightarrow> 'x goroutine" where
  "scanHandler ev r =
     atomic (on_sys (CoreScan (theCore ev) (rCtx r))) (\<lambda>res.
     case res of
       Inl err \<Rightarrow> writeJSON 500 (JObj [(''error'', JStr (error_text err))])
     | Inr nets \<Rightarrow> writeJSON 200 (JArr (map (\<lambda>n.
         JObj [(''ssid'', JStr (SSID n)), (''signal'', JNum (itoa (Signal n))), (''secure'', JBool (Secure n))]) nets)))"

text \<open>A panic in a handler ends it without a response.\<close>

definition connectHandler :: "'x env \<Rightarrow> request \<Rightarrow> 'x goroutine" where
  "connectHandler ev r =
     (case decodeBody connectFields \<lparr>reqSSID = [], reqPSK = []\<rparr> (rBody r) of
        None \<Rightarrow> writeJSON 400 (JObj [(''ok'', JBool False), (''error'', JStr (jsonErr ev (rBody r)))])
      | Some req \<Rightarrow>
          atomic (set_ui 1 (-1) (''Connecting to '' @ reqSSID req)) (\<lambda>_.
          atomic (on_sys (CoreConnect (theCore ev) (rCtx r) (reqSSID req) (reqPSK req))) (\<lambda>res.
          case res of
            None \<Rightarrow> Halt None
          | Some (Some err) \<Rightarrow>
              atomic (set_ui 4 (-1) (error_text err)) (\<lambda>_.
              writeJSON 200 (JObj [(''ok'', JBool False), (''error'', JStr (error_text err))]))
          | Some None \<Rightarrow>
              atomic (setOnline True) (\<lambda>_.
              atomic (set_ui 0 (-1) ''Connected'') (\<lambda>_.
              writeJSON 200 (JObj [(''ok'', JBool True)]))))))"

definition statusHandler :: "'x env \<Rightarrow> request \<Rightarrow> 'x goroutine" where
  "statusHandler ev r =
     atomic snapshot (\<lambda>(st, pr, msg, onl).
     atomic (on_sys (Status (atomLib ev) (theCore ev))) (\<lambda>res.
     let (cur, rb) = (case res of Inl err \<Rightarrow> ([], []) | Inr s \<Rightarrow> (stCurrent s, stRollback s)) in
     writeJSON 200 (JObj [(''online'', JBool onl), (''current'', JStr cur), (''rollback'', JStr rb),
       (''state'', JNum (itoa st)), (''progress'', JNum (itoa pr)), (''message'', JStr msg)])))"

text \<open>A background job, and the handler that starts it unless one is running.\<close>

definition job :: "('x, gerror + string) prog \<Rightarrow> 'x goroutine" where
  "job fn =
     atomic (on_sys fn) (\<lambda>res.
     case res of
       Inl err \<Rightarrow> atomic (set_ui 4 (-1) (error_text err)) (\<lambda>_. Halt None)
     | Inr msg \<Rightarrow> atomic (set_ui 3 100 msg) (\<lambda>_. Halt None))"

definition start :: "string \<Rightarrow> ('x, gerror + string) prog \<Rightarrow> request \<Rightarrow> 'x goroutine" where
  "start verb fn r =
     atomic working (\<lambda>busy.
     if busy then writeJSON 200 (JObj [(''started'', JBool False)])
     else atomic (set_ui 2 (-1) (verb @ ''...'')) (\<lambda>_.
       Fork (job fn) (writeJSON 200 (JObj [(''started'', JBool True)]))))"

definition lockStateHandler :: "'x env \<Rightarrow> request \<Rightarrow> 'x goroutine" where
  "lockStateHandler ev r =
     atomic (on_sys (on_disk (LockState (crypto ev) (cfg (theCore ev))))) (\<lambda>s.
     writeJSON 200 (JObj [(''locked'', JBool (Locked s)), (''unlock_armed'', JBool (UnlockArmed s)),
       (''unlock_count'', JNum (itoa (UnlockCount s)))]))"

text \<open>
  Arming in runtime mode, after the device was found locked: the owner is the configured one or the
  peer, and has to prove it with the PIN.
\<close>

definition armOwner :: "HandlerPolicy \<Rightarrow> request \<Rightarrow> int option" where
  "armOwner policy r =
     (if PolicyUID policy < 1000
      then (case peerUID (rConn r) of (uid, ok) \<Rightarrow> if \<not> ok \<or> uid < 1000 then None else Some uid)
      else Some (PolicyUID policy))"

definition armWithPIN :: "'x env \<Rightarrow> int \<Rightarrow> string \<Rightarrow> 'x goroutine" where
  "armWithPIN ev uid pin =
     (if length pin < 4 \<or> length pin > 256 \<or> containsAny pin [CHR 0x0D, CHR 0x0A]
      then writeJSON 200 (okMessage False ''Enter your PIN to allow bootloader unlock.'')
      else atomic (on_sys (on_disk (verifyPIN (crypto ev) uid pin))) (\<lambda>v.
        case v of
          Inl err \<Rightarrow> writeJSON 200 (okMessage False ''Your PIN could not be checked right now. Nothing was changed.'')
        | Inr valid \<Rightarrow>
            if \<not> valid then writeJSON 200 (okMessage False ''Incorrect PIN. Bootloader unlock was not allowed.'')
            else atomic (on_sys (on_disk (ArmUnlockForOwner (crypto ev) (cfg (theCore ev)) True uid))) (\<lambda>(ok, msg).
              writeJSON 200 (okMessage ok msg))))"

definition armUnlockHandler :: "'x env \<Rightarrow> HandlerPolicy \<Rightarrow> request \<Rightarrow> 'x goroutine" where
  "armUnlockHandler ev policy r =
     (case decodeBody armFields \<lparr>reqArmed = False, reqPIN = []\<rparr> (rBody r) of
        None \<Rightarrow> writeJSON 400 (okMessage False (jsonErr ev (rBody r)))
      | Some req \<Rightarrow>
          if Runtime policy \<and> reqArmed req then
            atomic (on_sys (on_disk (LockState (crypto ev) (cfg (theCore ev))))) (\<lambda>s.
            if \<not> Locked s then writeJSON 200 (okMessage False ''The bootloader is already unlocked.'')
            else (case armOwner policy r of
               None \<Rightarrow> writeJSON 200 (okMessage False ''The owner account could not be verified. Nothing was changed.'')
             | Some uid \<Rightarrow> armWithPIN ev uid (reqPIN req)))
          else
            atomic (on_sys (on_disk (ArmUnlock (crypto ev) (cfg (theCore ev)) (reqArmed req)))) (\<lambda>(ok, msg).
            writeJSON 200 (okMessage ok msg)))"

definition unlockHandler :: "'x env \<Rightarrow> request \<Rightarrow> 'x goroutine" where
  "unlockHandler ev r =
     (case decodeBody unlockFields \<lparr>reqConfirm = [], reqUnlockPIN = []\<rparr> (rBody r) of
        None \<Rightarrow> writeJSON 400 (okMessage False (jsonErr ev (rBody r)))
      | Some req \<Rightarrow>
          atomic (on_sys (on_disk (UnlockBootloader (crypto ev) (cfg (theCore ev)) (reqConfirm req) (reqUnlockPIN req))))
            (\<lambda>(ok, msg).
          if ok then atomic (set_ui 3 100 msg) (\<lambda>_. writeJSON 200 (okMessage ok msg))
          else writeJSON 200 (okMessage ok msg)))"

section \<open>Routing\<close>

definition routes :: "'x env \<Rightarrow> HandlerPolicy \<Rightarrow> ((string \<times> string) \<times> (request \<Rightarrow> 'x goroutine)) list" where
  "routes ev policy =
     [((''GET'', ''/scan''), scanHandler ev),
      ((''POST'', ''/connect''), connectHandler ev),
      ((''GET'', ''/status''), statusHandler ev),
      ((''POST'', ''/reinstall''), start ''Reinstalling'' (CoreReinstall (atomLib ev) (theCore ev) background)),
      ((''POST'', ''/repair''), start ''Repairing'' (Repair (atomLib ev) (theCore ev))),
      ((''POST'', ''/rollback''), start ''Rolling back'' (CoreRollback (atomLib ev) (theCore ev))),
      ((''POST'', ''/repair-loader''), start ''Repairing the boot loader'' (RepairLoader (atomLib ev) (theCore ev))),
      ((''GET'', ''/lock-state''), lockStateHandler ev),
      ((''POST'', ''/arm-unlock''), armUnlockHandler ev policy),
      ((''POST'', ''/unlock-bootloader''), unlockHandler ev)]"

text \<open>
  \<open>http.ServeMux\<close>: a path that is not clean is redirected, a \<open>GET\<close> route also answers \<open>HEAD\<close>, a path
  with another method is an error of its own.
\<close>

definition cleanURL :: "string \<Rightarrow> string" where
  "cleanURL p =
     (if p = [] then ''/''
      else let q = (if hd p = CHR ''/'' then p else CHR ''/'' # p); c = clean q in
        if last q = CHR ''/'' \<and> c \<noteq> ''/'' then c @ ''/'' else c)"

definition mux :: "((string \<times> string) \<times> (request \<Rightarrow> 'x goroutine)) list \<Rightarrow> request \<Rightarrow> 'x goroutine" where
  "mux rs r =
     (if rMethod r \<noteq> ''CONNECT'' \<and> cleanURL (rPath r) \<noteq> rPath r
      then Halt (Some (Redirect (cleanURL (rPath r))))
      else (case map_of rs (rMethod r, rPath r) of
         Some h \<Rightarrow> h r
       | None \<Rightarrow>
           (case (if rMethod r = ''HEAD'' then map_of rs (''GET'', rPath r) else None) of
              Some h \<Rightarrow> h r
            | None \<Rightarrow> if list_ex (\<lambda>(k, h). snd k = rPath r) rs then Halt (Some MethodNotAllowed) else Halt (Some NotFound))))"

definition newHandlerWithPolicy :: "'x env \<Rightarrow> HandlerPolicy \<Rightarrow> request \<Rightarrow> 'x goroutine" where
  "newHandlerWithPolicy ev policy r =
     (if \<not> Runtime policy then mux (routes ev policy) r
      else if rMethod r = ''GET'' \<and> rPath r = ''/lock-state'' \<or> rMethod r = ''POST'' \<and> rPath r = ''/arm-unlock''
      then mux (routes ev policy) r
      else Halt (Some NotFound))"

definition newHandler :: "'x env \<Rightarrow> request \<Rightarrow> 'x goroutine" where
  "newHandler ev = newHandlerWithPolicy ev \<lparr>Runtime = False, PolicyUID = 0\<rparr>"

section \<open>The socket\<close>

text \<open>
  Permissions are not part of the file tree; the listener carries the mode and the group that were
  set.  A new socket is an entry of the tree, and closing the listener removes it.
\<close>

record listener =
  lnPath :: string
  lnMode :: nat
  lnGroup :: "int option"

definition bind_at :: "string \<Rightarrow> inode \<Rightarrow> errno + inode" where
  "bind_at p r =
     (case resolve_entry r p of
        Inl e \<Rightarrow> Inl e
      | Inr (q, c) \<Rightarrow>
          (case lookup r q of
             Some (Dir d es) \<Rightarrow> if map_of es c \<noteq> None then Inl EEXIST else Inr (put (q @ [c]) (Some (Special d)) r)
           | _ \<Rightarrow> Inl ENOTDIR))"

text \<open>\<open>net.Listen\<close>; an address in use is \<open>EADDRINUSE\<close> there.\<close>

fun listen_error :: "string \<Rightarrow> gerror \<Rightarrow> gerror" where
  "listen_error p (PathError o1 q e) =
     (if e = EEXIST then Wrap (''listen unix '' @ p @ '': bind: '') (Errno 98)
      else Wrap (''listen unix '' @ p @ '': bind: '') (ErrText (errno_text e)))"
| "listen_error p err = err"

definition net_Listen :: "string \<Rightarrow> ('x, gerror option) io" where
  "net_Listen p = do { e \<leftarrow> perform ''bind'' p (bind_at p); return (map_option (listen_error p) e) }"

definition ln_Close :: "string \<Rightarrow> ('x, unit) io" where
  "ln_Close p = do { _ \<leftarrow> os_Remove p; return () }"

text \<open>\<open>os.Chmod\<close> and \<open>os.Chown\<close>, as far as they may fail.\<close>

definition os_Chmod :: "string \<Rightarrow> ('x, gerror option) io" where
  "os_Chmod p = do { r \<leftarrow> query ''chmod'' p (stat_at True p); return (case r of Inl err \<Rightarrow> Some err | Inr _ \<Rightarrow> None) }"

definition os_Chown :: "string \<Rightarrow> ('x, gerror option) io" where
  "os_Chown p = do { r \<leftarrow> query ''chown'' p (stat_at True p); return (case r of Inl err \<Rightarrow> Some err | Inr _ \<Rightarrow> None) }"

record ServePolicy =
  Handler :: HandlerPolicy
  SocketGroup :: string

text \<open>Access to the socket, before the first connection is accepted.  \<open>lookupGroup\<close> is the group database.\<close>

definition restrictSocket :: "(string \<Rightarrow> gerror + string) \<Rightarrow> string \<Rightarrow> string \<Rightarrow> ('x, gerror + listener) io" where
  "restrictSocket lookupGroup socketPath grp =
     (if grp = [] then do {
        e \<leftarrow> os_Chmod socketPath;
        case e of
          Some err \<Rightarrow> do { ln_Close socketPath; return (Inl err) }
        | None \<Rightarrow> return (Inr \<lparr>lnPath = socketPath, lnMode = 0x180, lnGroup = None\<rparr>)
      }
      else (case lookupGroup grp of
        Inl err \<Rightarrow> do { ln_Close socketPath; return (Inl (Wrap (''recovery socket group '' @ grp @ '': '') err)) }
      | Inr gidText \<Rightarrow>
      (case atoi gidText of
        (gid, Some _) \<Rightarrow> do { ln_Close socketPath; return (Inl (ErrText (''recovery socket group '' @ grp @ '' has invalid gid''))) }
      | (gid, None) \<Rightarrow> do {
          e1 \<leftarrow> os_Chown socketPath;
          case e1 of
            Some err \<Rightarrow> do { ln_Close socketPath; return (Inl err) }
          | None \<Rightarrow> do {
          e2 \<leftarrow> os_Chmod socketPath;
          case e2 of
            Some err \<Rightarrow> do { ln_Close socketPath; return (Inl err) }
          | None \<Rightarrow> return (Inr \<lparr>lnPath = socketPath, lnMode = 0x1b0, lnGroup = Some gid\<rparr>) }})))"

definition openSocket :: "(string \<Rightarrow> gerror + string) \<Rightarrow> string \<Rightarrow> string \<Rightarrow> ('x, gerror + listener) io" where
  "openSocket lookupGroup socketPath grp = do {
     _ \<leftarrow> os_Remove socketPath;
     e \<leftarrow> net_Listen socketPath;
     case e of
       Some err \<Rightarrow> return (Inl err)
     | None \<Rightarrow> restrictSocket lookupGroup socketPath grp
   }"

text \<open>
  \<open>Inl\<close> is an error the server ends with before it serves; otherwise it serves on the listener, with
  the given handler, until it is closed: the requests that arrive then run as \<open>server_step\<close> says.
\<close>

definition ServeWithPolicy ::
    "(string \<Rightarrow> gerror + string) \<Rightarrow> 'x env \<Rightarrow> string \<Rightarrow> ServePolicy \<Rightarrow>
     ('x, gerror + listener \<times> (request \<Rightarrow> 'x goroutine)) io" where
  "ServeWithPolicy lookupGroup ev socketPath policy = do {
     r \<leftarrow> openSocket lookupGroup socketPath (SocketGroup policy);
     case r of
       Inl err \<Rightarrow> return (Inl err)
     | Inr ln \<Rightarrow> return (Inr (ln, newHandlerWithPolicy ev (Handler policy)))
   }"

definition Serve ::
    "(string \<Rightarrow> gerror + string) \<Rightarrow> 'x env \<Rightarrow> string \<Rightarrow> ('x, gerror + listener \<times> (request \<Rightarrow> 'x goroutine)) io" where
  "Serve lookupGroup ev socketPath =
     ServeWithPolicy lookupGroup ev socketPath \<lparr>Handler = \<lparr>Runtime = False, PolicyUID = 0\<rparr>, SocketGroup = []\<rparr>"

end
