(* ===== verification/UnlockOrder.thy ===== *)
theory UnlockOrder
  imports Lock
begin

text \<open>
  In which order an unlock calls the cryptographic primitives, and how far it goes when one of
  them fails.  The statements hold for every schedule of failing system calls and for every
  agent behind the seam.
\<close>

section \<open>The order of the primitives\<close>

text \<open>\<open>silent m\<close>: the program leaves the call record alone.\<close>

definition silent :: "('x, 'a) io \<Rightarrow> bool" where
  "silent m \<longleftrightarrow> (\<forall>ev. keeps (\<lambda>w. events w = ev) m)"

named_theorems silent_intros "programs that leave the call record alone"

lemma silent_wp: "silent m \<Longrightarrow> wp m (\<lambda>_ w'. events w' = events w) w"
  by (auto simp: silent_def keeps_def)

lemma silentI: "(\<And>w. wp m (\<lambda>_ w'. events w' = events w) w) \<Longrightarrow> silent m"
  by (auto simp: silent_def keeps_def)

lemma silent_return [silent_intros]: "silent (return a)"
  by (simp add: silent_def keeps_return)

lemma silent_bind [silent_intros]: "silent m \<Longrightarrow> (\<And>a. silent (f a)) \<Longrightarrow> silent (m \<bind> f)"
  unfolding silent_def by (blast intro: keeps_bind)

lemma silent_if [silent_intros]: "(b \<Longrightarrow> silent m) \<Longrightarrow> (\<not> b \<Longrightarrow> silent n) \<Longrightarrow> silent (if b then m else n)"
  by simp

lemma silent_case [silent_intros]:
  "(\<And>e. r = Inl e \<Longrightarrow> silent (f e)) \<Longrightarrow> (\<And>a. r = Inr a \<Longrightarrow> silent (g a)) \<Longrightarrow>
     silent (case r of Inl e \<Rightarrow> f e | Inr a \<Rightarrow> g a)"
  "(x = None \<Longrightarrow> silent m) \<Longrightarrow> (\<And>a. x = Some a \<Longrightarrow> silent (h a)) \<Longrightarrow>
     silent (case x of None \<Rightarrow> m | Some a \<Rightarrow> h a)"
  "(\<And>a b. p = (a, b) \<Longrightarrow> silent (k a b)) \<Longrightarrow> silent (case p of (a, b) \<Rightarrow> k a b)"
  by ((cases r; simp), (cases x; simp), (cases p; simp))

lemma silent_gets [silent_intros]: "silent (gets f)"
  by (simp add: silent_def keeps_gets)

lemma silent_query [silent_intros]: "silent (query op p f)"
  by (simp add: silent_def keeps_query tickless_def)

lemma silent_perform [silent_intros]: "silent (perform op p f)"
  by (simp add: silent_def keeps_perform tickless_def)

lemma silent_syscall [silent_intros]: "silent syscall"
  by (rule silentI) (simp add: wp_simps)

lemma silent_root [silent_intros]: "silent (modify (root_update f))"
  "silent (modify (\<lambda>w. w\<lparr>root := r, tick := t\<rparr>))"
  by (rule silentI, simp add: wp_simps)+

lemma silent_reads [silent_intros]:
  "silent (os_Lstat p)" "silent (os_Stat p)" "silent (os_ReadFile p)" "silent (os_ReadDir p)" "silent (os_Open p)"
  "silent (file_Chmod f)" "silent (file_Sync f)" "silent (file_Close f)" "silent (os_Mkdir p)" "silent (os_Remove p)"
  unfolding os_Lstat_def os_Stat_def os_ReadFile_def os_ReadDir_def os_Open_def
    file_Chmod_def file_Sync_def file_Close_def os_Mkdir_def os_Remove_def
  by (rule silent_intros)+

lemma silent_RemoveAll [silent_intros]: "silent (os_RemoveAll p)"
  by (rule silentI)
    (auto simp: os_RemoveAll_def wp_simps split: sum.split option.split inode.split prod.split)

lemma silent_Write [silent_intros]: "silent (file_Write f b)"
  unfolding file_Write_def by (intro silent_intros)

lemma silent_Rename [silent_intros]: "silent (os_Rename p q)"
  unfolding os_Rename_def by (intro silent_intros)

lemma silent_mkdirAll [silent_intros]: "silent (os_MkdirAll p)"
proof -
  have "silent (mkdirAll_comps r cs)" for r cs
    by (induction cs) (auto simp: mkdir_or_dir_def Let_def intro!: silent_intros)
  then show ?thesis by (simp add: os_MkdirAll_def)
qed

lemma silent_CreateTemp [silent_intros]: "silent (os_CreateTemp dir pre)"
proof -
  have "silent (createTemp_try j dir pre)" for j
    by (induction j) (auto simp: Let_def intro!: silent_intros)
  then show ?thesis by (simp add: os_CreateTemp_def)
qed

lemma silent_loops [silent_intros]: "silent (checkArtifacts dir ns)" "silent (removeEntries dir K ns)"
  by (induction ns) (auto intro!: silent_intros)

lemma silent_wipe [silent_intros]:
  "silent (validateDataDir cfg)" "silent (prepareDataWipe cfg)" "silent (finishDataWipe cfg)" "silent (syncDir dir)"
  unfolding validateDataDir_def validateLayout_def readInstallID_def requireRealDir_def checkMount_def
    prepareDataWipe_def finishDataWipe_def scrubBootArtifacts_def removeChildrenExcept_def syncDir_def Let_def
  by (intro silent_intros)+

lemma silent_flag [silent_intros]:
  "silent (readUnlockFlag cfg)" "silent (writeUnlockFlag cfg f)" "silent (finalizeUnlockFlag cfg f)"
  unfolding readUnlockFlag_def writeUnlockFlag_def finalizeUnlockFlag_def fillTemp_def Let_def
  by (intro silent_intros)+


text \<open>
  A record \<open>follows\<close> a script of calls with the results they must have: it does what the script
  says, call by call, and ends where a call had another result, or earlier.
\<close>

fun same_call :: "event \<Rightarrow> event \<Rightarrow> bool" where
  "same_call (ReadLockBit _) (ReadLockBit _) = True"
| "same_call (ReadVerityOff _) (ReadVerityOff _) = True"
| "same_call (VerifyPIN u p _) (VerifyPIN u' p' _) = (u = u' \<and> p = p')"
| "same_call (WipeVar _) (WipeVar _) = True"
| "same_call (SetUnlockBit _) (SetUnlockBit _) = True"
| "same_call (DisableVerity _) (DisableVerity _) = True"
| "same_call _ _ = False"

fun follows :: "event list \<Rightarrow> event list \<Rightarrow> bool" where
  "follows script [] = True"
| "follows [] (e # es) = False"
| "follows (s # script) (e # es) = (if e = s then follows script es else same_call s e \<and> es = [])"

definition wipe_script :: "event list" where
  "wipe_script = [WipeVar None, SetUnlockBit None]"

definition begin_script :: "int \<Rightarrow> string \<Rightarrow> event list" where
  "begin_script uid pin = [VerifyPIN uid pin (Inr True), DisableVerity None, ReadVerityOff (Inr True)]"

text \<open>\<open>since w es w'\<close>: between the two worlds the calls \<open>es\<close> were made.\<close>

definition since :: "'x world \<Rightarrow> event list \<Rightarrow> 'x world \<Rightarrow> bool" where
  "since w es w' \<longleftrightarrow> events w' = rev es @ events w"

definition silent_seam :: "'x seam \<Rightarrow> bool" where
  "silent_seam sm \<longleftrightarrow>
     silent (cryptoReadLockBit sm) \<and> silent (cryptoReadVerityOff sm)
     \<and> (\<forall>uid pin. silent (cryptoVerifyPIN sm uid pin)) \<and> silent (cryptoWipeVar sm)
     \<and> silent (cryptoSetUnlockBit sm) \<and> silent (cryptoDisableVerity sm)"

lemma since_silent: "silent m \<Longrightarrow> since w es w1 \<Longrightarrow> wp m (\<lambda>_ w2. since w es w2) w1"
  by (rule wp_mono [OF silent_wp]) (simp_all add: since_def)

lemma since_logged:
  assumes "silent m" and "since w es w1"
  shows "wp (logged ev m) (\<lambda>a w2. since w (es @ [ev a]) w2) w1"
  unfolding logged_def wp_bind
  by (rule wp_mono [OF silent_wp [OF assms(1)]]) (use assms(2) in \<open>simp add: since_def wp_simps\<close>)

lemma since_seam:
  assumes "silent_seam sm" and "since w es w1"
  shows "wp (readLockBit sm) (\<lambda>a w2. since w (es @ [ReadLockBit a]) w2) w1"
    and "wp (readVerityOff sm) (\<lambda>a w2. since w (es @ [ReadVerityOff a]) w2) w1"
    and "wp (verifyPIN sm uid pin) (\<lambda>a w2. since w (es @ [VerifyPIN uid pin a]) w2) w1"
    and "wp (wipeVar sm) (\<lambda>a w2. since w (es @ [WipeVar a]) w2) w1"
    and "wp (setUnlockBit sm) (\<lambda>a w2. since w (es @ [SetUnlockBit a]) w2) w1"
    and "wp (disableVerity sm) (\<lambda>a w2. since w (es @ [DisableVerity a]) w2) w1"
  unfolding readLockBit_def readVerityOff_def verifyPIN_def wipeVar_def setUnlockBit_def disableVerity_def
  by (rule since_logged; use assms in \<open>simp add: silent_seam_def\<close>)+

lemma since_clearConsent:
  assumes "since w es w1"
  shows "wp (clearConsent cfg) (\<lambda>r w2. since w es w2 \<and> fst r) w1"
  unfolding clearConsent_def
  by (rule wp_step [OF since_silent [OF silent_flag(1) assms]], rule wp_step [OF since_silent [OF silent_flag(3)]], assumption)
    (auto simp: wp_return split: option.split)

lemma wp_completeUnlock:
  assumes sm: "silent_seam sm" and w: "since w es w1"
  shows "wp (completeUnlock sm cfg) (\<lambda>r w2. \<exists>es'. since w (es @ es') w2 \<and> follows wipe_script es'
           \<and> (fst r \<longleftrightarrow> es' = wipe_script)) w1"
    (is "wp _ ?Q w1")
proof -
  have stop: "wp (return (False, msg)) ?Q w2" if "since w es w2" for w2 msg
    using that by (auto simp: wp_return wipe_script_def intro: exI [of _ "[]"])
  show ?thesis
    unfolding completeUnlock_def
  proof (rule wp_step [OF since_silent [OF silent_wipe(2) w]], goal_cases)
    case (1 e1 w2)
    show ?case
    proof (cases e1)
      case None
      show ?thesis
        unfolding None option.case
      proof (rule wp_step [OF since_seam(4) [OF sm 1]], goal_cases)
        case (1 e2 w3)
        show ?case
        proof (cases e2)
          case None
          show ?thesis
            unfolding None option.case
          proof (rule wp_step [OF since_silent [OF silent_wipe(3) 1]], goal_cases)
            case (1 e3 w4)
            show ?case
            proof (cases e3)
              case None
              show ?thesis
                unfolding None option.case
              proof (rule wp_step [OF since_seam(5) [OF sm 1]], goal_cases)
                case (1 e4 w5)
                with \<open>e2 = None\<close> have w5: "since w (es @ [WipeVar None, SetUnlockBit e4]) w5" by simp
                show ?case
                proof (cases e4)
                  case None
                  show ?thesis
                    unfolding None option.case
                    by (rule wp_mono [OF since_clearConsent [OF w5]])
                      (auto simp: None wipe_script_def intro!: exI [of _ wipe_script])
                qed (use w5 in \<open>auto simp: wp_return wipe_script_def intro: exI [of _ "[WipeVar None, SetUnlockBit e4]"]\<close>)
              qed
            qed (use 1 \<open>e2 = None\<close> in \<open>auto simp: wp_return wipe_script_def intro: exI [of _ "[WipeVar None]"]\<close>)
          qed
        qed (use 1 in \<open>auto simp: wp_return wipe_script_def intro: exI [of _ "[WipeVar e2]"]\<close>)
      qed
    qed (use 1 stop in auto)
  qed
qed


lemma notnotI: "b \<Longrightarrow> \<not> \<not> b"
  by simp

lemma follows_more: "follows s es \<Longrightarrow> follows (s @ t) es"
  by (induction s es rule: follows.induct) auto

lemma follows_same [simp]: "follows (s @ t) (s @ es) = follows t es"
  by (induction s) auto

lemma wp_recordTransaction:
  assumes sm: "silent_seam sm" and w: "since w es w1"
  shows "wp (recordTransaction sm cfg f) (\<lambda>r w2. \<exists>es'. since w (es @ es') w2
           \<and> follows [DisableVerity None, ReadVerityOff (Inr True)] es'
           \<and> (r = None \<longrightarrow> es' = [DisableVerity None, ReadVerityOff (Inr True)])) w1"
    (is "wp _ ?Q w1")
proof -
  have stop: "wp (return (Some msg)) ?Q w2"
    if "since w (es @ es') w2" "follows [DisableVerity None, ReadVerityOff (Inr True)] es'" for w2 es' and msg :: string
    using that by (auto simp: wp_return)
  have rec: "wp (readUnlockFlag cfg \<bind> (\<lambda>current. if \<not> consentHolds f current
        then return (Some ''The unlock consent changed before the transaction was recorded. User data was not erased.'')
        else writeUnlockFlag cfg (current\<lparr>Phase := unlockPhaseVerityOff\<rparr>) \<bind> (\<lambda>e3. case e3 of
          Some err \<Rightarrow> return (Some (''unlock: record transaction: '' @ error_text err))
        | None \<Rightarrow> return None))) ?Q w2" if w2: "since w (es @ [DisableVerity None, ReadVerityOff (Inr True)]) w2" for w2
  proof (rule wp_step [OF since_silent [OF silent_flag(1) w2]], goal_cases)
    case (1 c w3)
    have "wp (writeUnlockFlag cfg (c\<lparr>Phase := unlockPhaseVerityOff\<rparr>))
        (\<lambda>_. since w (es @ [DisableVerity None, ReadVerityOff (Inr True)])) w3"
      by (rule since_silent [OF silent_flag(2) 1])
    then have "wp (writeUnlockFlag cfg (c\<lparr>Phase := unlockPhaseVerityOff\<rparr>) \<bind> (\<lambda>e3. case e3 of
          Some err \<Rightarrow> return (Some (''unlock: record transaction: '' @ error_text err))
        | None \<Rightarrow> return None)) ?Q w3"
      by (rule wp_step)
        (auto simp: wp_return intro!: exI [of _ "[DisableVerity None, ReadVerityOff (Inr True)]"] split: option.split)
    then show ?case by (intro wp_ifI stop [OF 1]) simp_all
  qed
  show ?thesis
    unfolding recordTransaction_def
  proof (rule wp_step [OF since_seam(6) [OF sm w]], goal_cases)
    case (1 e2 w2)
    show ?case
    proof (cases e2)
      case None
      show ?thesis
        unfolding None option.case
      proof (rule wp_step [OF since_seam(2) [OF sm 1]], goal_cases)
        case (1 vo w3)
        then have w3: "since w (es @ [DisableVerity None, ReadVerityOff vo]) w3" using None by simp
        with rec stop [OF w3] show ?case by (cases "vo = Inr True") simp_all
      qed
    qed (use stop [OF 1] in simp)
  qed
qed

lemma wp_beginUnlock:
  assumes sm: "silent_seam sm" and w: "since w [] w1"
  shows "wp (beginUnlock sm cfg f pin) (\<lambda>r w2. \<exists>es. since w es w2 \<and> follows (begin_script (OwnerUID f) pin) es
           \<and> (r = None \<longrightarrow> es = begin_script (OwnerUID f) pin)) w1"
    (is "wp _ ?Q w1")
proof (cases "length pin < 4 \<or> length pin > 256 \<or> containsAny pin [CHR 0x0D, CHR 0x0A]")
  case True
  then show ?thesis using w by (auto simp: beginUnlock_def wp_return)
next
  case False
  let ?v = "VerifyPIN (OwnerUID f) pin (Inr True)"
  have stop: "wp (return (Some msg)) ?Q w2" if "since w [e] w2" "same_call ?v e" for w2 e and msg :: string
    using that by (auto simp: wp_return begin_script_def)
  have rec: "wp (recordTransaction sm cfg f) ?Q w2" if "since w [?v] w2" for w2
    by (rule wp_mono [OF wp_recordTransaction [OF sm that]]) (auto simp: begin_script_def)
  show ?thesis
    unfolding beginUnlock_def if_not_P [OF False]
  proof (rule wp_step [OF since_seam(3) [OF sm w]], goal_cases)
    case (1 v w2)
    show ?case
    proof (cases "v = Inr True")
      case False
      with stop 1 show ?thesis by (cases v) auto
    next
      case True
      with 1 have w2: "since w [?v] w2" by simp
      show ?thesis
        unfolding True sum.case not_True_eq_False if_False
      proof (rule wp_step [OF since_silent [OF silent_flag(1) w2]], goal_cases)
        case (1 c w3)
        have "wp (validateDataDir cfg \<bind> (\<lambda>e1. case e1 of
            Some err \<Rightarrow> return (Some (''unlock: validate data wipe: '' @ error_text err))
          | None \<Rightarrow> recordTransaction sm cfg f)) ?Q w3"
          by (rule wp_step [OF since_silent [OF silent_wipe(1) 1]]) (use rec stop in \<open>auto split: option.split\<close>)
        note go = this
        show ?case by (intro wp_ifI go stop [OF 1]) simp
      qed
    qed
  qed
qed

text \<open>The calls an unlock may make, given the flag it found.\<close>

definition unlock_script :: "unlockFlag \<Rightarrow> string \<Rightarrow> event list" where
  "unlock_script f pin =
     (if \<not> Armed f \<or> OwnerUID f < 1000 then []
      else if Phase f = [] then begin_script (OwnerUID f) pin @ wipe_script
      else if Phase f = unlockPhaseVerityOff then ReadVerityOff (Inr True) # wipe_script
      else [])"

text \<open>The outcome of a run that was to make the calls \<open>script\<close>: it made a beginning of them, and it
  reports success exactly when it made them all.\<close>

definition follows_to :: "'x world \<Rightarrow> event list \<Rightarrow> bool \<times> string \<Rightarrow> 'x world \<Rightarrow> bool" where
  "follows_to w script r w' \<longleftrightarrow>
     (\<exists>es. since w es w' \<and> follows script es \<and> (fst r \<longleftrightarrow> es \<noteq> [] \<and> es = script))"

lemma wp_fresh_order:
  assumes sm: "silent_seam sm" and w1: "since w [] w1"
  shows "wp (beginUnlock sm cfg f pin \<bind> (\<lambda>e. case e of Some msg \<Rightarrow> return (False, msg) | None \<Rightarrow> completeUnlock sm cfg))
    (follows_to w (begin_script (OwnerUID f) pin @ wipe_script)) w1"
proof (rule wp_step [OF wp_beginUnlock [OF sm w1]], elim exE conjE, rule wp_optionI, goal_cases)
  case (1 e w2 es)
  then have w2: "since w (begin_script (OwnerUID f) pin) w2" by simp
  show ?case
    by (rule wp_mono [OF wp_completeUnlock [OF sm w2]]) (auto simp: begin_script_def follows_to_def)
next
  case (2 e w2 es msg)
  then show ?case
    by (auto simp: wp_return follows_to_def intro!: exI [of _ es] follows_more)
      (auto simp: wipe_script_def begin_script_def split: if_splits)
qed

lemma wp_resume_order:
  assumes sm: "silent_seam sm" and w1: "since w [] w1"
  shows "wp (readVerityOff sm \<bind> (\<lambda>vo. if vo \<noteq> Inr True then return (False, msg) else completeUnlock sm cfg))
    (follows_to w (ReadVerityOff (Inr True) # wipe_script)) w1"
proof (rule wp_step [OF since_seam(2) [OF sm w1]], rule wp_ifI, goal_cases)
  case (1 vo w2)
  then show ?case by (auto simp: wp_return follows_to_def intro!: exI [of _ "[ReadVerityOff vo]"])
next
  case (2 vo w2)
  then have w2: "since w [ReadVerityOff (Inr True)] w2" by simp
  show ?case by (rule wp_mono [OF wp_completeUnlock [OF sm w2]]) (auto simp: follows_to_def)
qed

lemma wp_UnlockBootloader_script:
  assumes cfg: "flag_paths cfg S" and esp: "esp_state S (root w)" and sm: "silent_seam sm"
  shows "wp (UnlockBootloader sm cfg confirm pin) (follows_to w (unlock_script (stored S (root w)) pin)) w"
    (is "wp _ ?Q w")
proof (rule wp_UnlockBootloaderI [OF cfg esp], goal_cases)
  case (1 w1 msg)
  then show ?case by (auto simp: follows_to_def since_def dest: tickedD)
next
  case (2 f w1)
  then have "since w [] w1" by (auto simp: since_def dest: tickedD)
  from wp_fresh_order [OF sm this, of cfg f pin] 2 show ?case by (auto simp: unlock_script_def)
next
  case (3 f w1)
  then have "since w [] w1" by (auto simp: since_def dest: tickedD)
  from wp_resume_order [OF sm this] 3 show ?case by (auto simp: unlock_script_def unlockPhaseVerityOff_def)
qed

lemma wp_UnlockBootloader_order:
  assumes cfg: "flag_paths cfg S" and esp: "esp_state S (root w)" and sm: "silent_seam sm"
  shows "wp (UnlockBootloader sm cfg confirm pin) (\<lambda>r w'. \<exists>es. since w es w'
     \<and> (if confirm = ''UNLOCK'' then follows (unlock_script (stored S (root w)) pin) es else es = [])
     \<and> (fst r \<longleftrightarrow> es \<noteq> [] \<and> es = unlock_script (stored S (root w)) pin)) w"
proof (cases "confirm = ''UNLOCK''")
  case False
  then show ?thesis by (auto simp: UnlockBootloader_def wp_return since_def)
next
  case True
  then show ?thesis using wp_mono [OF wp_UnlockBootloader_script [OF assms]] by (simp add: follows_to_def)
qed

end
