(* ===== verification/UnlockSafety.thy ===== *)
theory UnlockSafety
  imports UnlockOrder
begin

text \<open>
  What an unlock does to the device: the consent flag, the data volume and the system partition
  through all its steps, with an agent that keeps to its contract.
\<close>

section \<open>The file tree stays well-formed\<close>

definition well_formed :: "'x world \<Rightarrow> bool" where
  "well_formed w \<longleftrightarrow> wf_tree (root w)"

lemma tickless_well_formed [simp]: "tickless well_formed"
  by (simp add: tickless_def well_formed_def)

lemma split_no_slash: "c \<in> set (split x s) \<Longrightarrow> x \<notin> set c"
  by (induction s arbitrary: c) (auto split: if_splits list.splits)

lemma split_path_no_slash: "c \<in> set (split_path p) \<Longrightarrow> c \<noteq> [] \<and> CHR ''/'' \<notin> set c"
  using split_no_slash by (auto simp: split_path_def)

lemma resolve_entry_proper:
  assumes "resolve_entry r p = Inr (q, c)"
  shows "proper c" and "is_dir (lookup r q)"
proof -
  have ne: "split_path p \<noteq> []" using assms by (auto simp: resolve_entry_def)
  have d: "\<not> (last (split_path p) = ''.'' \<or> last (split_path p) = ''..'')"
    using assms by (auto simp: resolve_entry_def split: if_splits)
  then have c: "c = last (split_path p)" and "is_dir (lookup r q)"
    using assms ne by (auto simp: resolve_entry_def split: if_splits sum.splits)
  then show "is_dir (lookup r q)" by simp
  have "c \<in> set (split_path p)" using ne c by simp
  then have "c \<noteq> [] \<and> CHR ''/'' \<notin> set c" by (rule split_path_no_slash)
  moreover have "c \<noteq> ''.''" "c \<noteq> ''..''" using d c by auto
  ultimately show "proper c" unfolding proper_def by blast
qed

lemma wf_tree_put_entry:
  assumes r: "wf_tree r" and e: "resolve_entry r p = Inr (q, c)" and m: "wf_tree m"
  shows "wf_tree (put (q @ [c]) (Some m) r)"
proof -
  have "is_dir (lookup r q)" "proper c" using resolve_entry_proper [OF e] by simp_all
  moreover then obtain d es where "lookup r q = Some (Dir d es)" by (auto elim: is_dirE)
  ultimately show ?thesis using wf_tree_path [OF r] by (intro wf_tree_put [OF r m]) auto
qed

lemma wf_tree_delete_entry:
  assumes r: "wf_tree r" and e: "resolve_entry r p = Inr (q, c)"
  shows "wf_tree (put (q @ [c]) None r)"
  using resolve_entry_proper [OF e] wf_tree_delete [OF r] by (auto elim: is_dirE)

lemma keeps_wf_looking [keeps_intros]:
  "keeps well_formed (os_Lstat p)" "keeps well_formed (os_Stat p)" "keeps well_formed (os_ReadFile p)"
  "keeps well_formed (os_ReadDir p)" "keeps well_formed (os_Open p)" "keeps well_formed (file_Chmod f)"
  "keeps well_formed (file_Sync f)" "keeps well_formed (file_Close f)"
  unfolding os_Lstat_def os_Stat_def os_ReadFile_def os_ReadDir_def os_Open_def
    file_Chmod_def file_Sync_def file_Close_def
  by (auto intro!: keeps_query keeps_perform)

lemma keeps_wf_Mkdir [keeps_intros]: "keeps well_formed (os_Mkdir p)"
  unfolding os_Mkdir_def
  by (rule keeps_perform) (auto simp: well_formed_def split: sum.splits option.splits inode.splits
      intro!: wf_tree_put_entry)

lemma keeps_wf_MkdirAll [keeps_intros]: "keeps well_formed (os_MkdirAll p)"
proof -
  have "keeps well_formed (mkdirAll_comps r cs)" for r cs
    by (induction cs) (auto simp: mkdir_or_dir_def Let_def intro!: keeps_intros)
  then show ?thesis by (simp add: os_MkdirAll_def)
qed

lemma keeps_wf_RemoveAll [keeps_intros]: "keeps well_formed (os_RemoveAll p)"
proof (rule keepsI)
  fix w :: "'a world"
  assume "well_formed w"
  then have "wp (os_RemoveAll p) (\<lambda>_. only_deletes (root w)) w"
    by (intro keeps_wp [OF keeps_RemoveAll]) (simp add: only_deletes_def well_formed_def)
  then show "wp (os_RemoveAll p) (\<lambda>_. well_formed) w"
    by (rule wp_mono) (simp add: only_deletes_def well_formed_def)
qed

lemma keeps_wf_Remove [keeps_intros]: "keeps well_formed (os_Remove p)"
  unfolding os_Remove_def
  by (rule keeps_perform) (auto simp: well_formed_def split: sum.splits option.splits inode.splits if_splits
      intro: wf_tree_delete_entry)

lemma keeps_wf_Write [keeps_intros]: "keeps well_formed (file_Write f b)"
proof (rule keepsI)
  fix w :: "'a world"
  assume w: "well_formed w"
  have "wf_tree (put q (Some (Reg d s)) (root w))" if "lookup (root w) q = Some n" for q d s n
    using w that wf_tree_path by (intro wf_tree_put) (auto simp: well_formed_def)
  with w show "wp (file_Write f b) (\<lambda>_. well_formed) w"
    by (auto simp: file_Write_def write_at_def well_formed_def wp_simps split: option.split inode.split)
qed

lemma keeps_wf_create [keeps_intros]: "keeps well_formed (perform op p (create_excl p'))"
  by (rule keeps_perform) (auto simp: well_formed_def create_excl_def
      split: sum.splits option.splits inode.splits intro!: wf_tree_put_entry)

lemma keeps_wf_CreateTemp [keeps_intros]: "keeps well_formed (os_CreateTemp dir pre)"
proof -
  have "keeps well_formed (createTemp_try j dir pre)" for j
    by (induction j) (auto simp: Let_def intro!: keeps_intros)
  then show ?thesis by (simp add: os_CreateTemp_def)
qed


lemma keeps_wf_Rename [keeps_intros]: "keeps well_formed (os_Rename p p')"
proof (rule keepsI)
  fix w :: "'a world"
  assume w: "well_formed w"
  have "wf_tree r'" if r: "rename_at p p' (root w) = Inr r'" for r'
  proof -
    from r obtain q c q' c' n where
        e: "resolve_entry (root w) p = Inr (q, c)" "resolve_entry (root w) p' = Inr (q', c')"
        and n: "lookup (root w) (q @ [c]) = Some n"
        and r': "r' = put (q' @ [c']) (Some n) (put (q @ [c]) None (root w))"
      by (auto simp: rename_at_def split: sum.splits option.splits if_splits)
    have wf: "wf_tree (root w)" using w by (simp add: well_formed_def)
    obtain d es where q': "lookup (root w) q' = Some (Dir d es)"
      using resolve_entry_proper(2) [OF e(2)] by (rule is_dirE)
    have "list_all proper (q' @ [c'])"
      using wf_tree_path [OF wf q'] resolve_entry_proper(1) [OF e(2)] by simp
    then show ?thesis
      unfolding r' by (rule wf_tree_put [OF wf_tree_delete_entry [OF wf e(1)] wf_tree_lookup [OF wf n]])
  qed
  with w show "wp (os_Rename p p') (\<lambda>_. well_formed) w"
    by (auto simp: os_Rename_def wp_simps well_formed_def split: sum.split)
qed

lemma keeps_wf_loops [keeps_intros]:
  "keeps well_formed (checkArtifacts dir ns)" "keeps well_formed (removeEntries dir K ns)"
  by (induction ns) (auto intro!: keeps_intros)

lemma keeps_wf_wipe [keeps_intros]:
  "keeps well_formed (validateDataDir cfg)" "keeps well_formed (prepareDataWipe cfg)"
  "keeps well_formed (finishDataWipe cfg)" "keeps well_formed (syncDir dir)"
  unfolding validateDataDir_def validateLayout_def readInstallID_def requireRealDir_def checkMount_def
    prepareDataWipe_def finishDataWipe_def scrubBootArtifacts_def removeChildrenExcept_def syncDir_def Let_def
  by (intro keeps_intros)+

lemma keeps_wf_flag [keeps_intros]:
  "keeps well_formed (readUnlockFlag cfg)" "keeps well_formed (writeUnlockFlag cfg f)"
  "keeps well_formed (finalizeUnlockFlag cfg f)"
  unfolding readUnlockFlag_def writeUnlockFlag_def finalizeUnlockFlag_def fillTemp_def Let_def
  by (intro keeps_intros)+

section \<open>The device\<close>

text \<open>
  The data volume at \<open>D\<close>, the system partition's directory at \<open>E\<close>: it is mounted at \<open>boot/efi\<close> of
  the volume, or neither lies inside the other.
\<close>

definition layout :: "string list \<Rightarrow> string list \<Rightarrow> bool" where
  "layout D E \<longleftrightarrow>
     prefix (D @ [''boot'', ''efi'']) E \<or> \<not> prefix D (E @ [''state'']) \<and> \<not> prefix (E @ [''state'']) D"

definition device :: "string list \<Rightarrow> string list \<Rightarrow> inode \<Rightarrow> bool" where
  "device D E r \<longleftrightarrow> present D E r \<and> wf_tree r \<and> esp_state (E @ [''state'']) r"

lemma parallel_prefix: "\<not> prefix D S \<Longrightarrow> \<not> prefix S D \<Longrightarrow> \<not> prefix D (S @ q)"
  using prefix_same_cases [of D "S @ q" S] by auto

lemma layout_apart: "layout D E \<Longrightarrow> esp_apart D E"
  unfolding layout_def esp_apart_def
  using parallel_prefix [of D "E @ [''state'']" "[''install-id'']", unfolded append_assoc append.simps] by blast

lemma flag_paths_volume: "volume_paths cfg D E \<Longrightarrow> flag_paths cfg (E @ [''state''])"
  by (auto simp: volume_paths_def flag_paths_def)

lemma is_dir_shallow': "map_option shallow n = map_option shallow n' \<Longrightarrow> is_dir n' \<Longrightarrow> is_dir n"
  using is_dir_shallow by blast

text \<open>A pass over the volume leaves the state directory as it is.\<close>

lemma state_dir_kept:
  assumes l: "layout D E" and D: "lookup (root w) D = Some n" and v: "at_volume D n' w w'" and b: "boot_safe n n'"
  shows "map_option shallow (lookup (root w') (E @ [''state''] @ q)) = map_option shallow (lookup (root w) (E @ [''state''] @ q))"
proof (cases "prefix (D @ [''boot'', ''efi'']) E")
  case True
  then obtain x where E: "E = D @ [''boot'', ''efi''] @ x" by (auto simp: prefix_def)
  show ?thesis
    using at_volume_lookup [OF D v, of "[''boot'', ''efi''] @ x @ [''state''] @ q"] boot_safe_efi [OF b, of "x @ [''state''] @ q"]
    by (simp add: E lookup_append [of _ D] D)
next
  case False
  with l have p: "\<not> prefix D (E @ [''state''])" "\<not> prefix (E @ [''state'']) D" unfolding layout_def by blast+
  have "\<not> prefix D (E @ [''state''] @ q)" using parallel_prefix [OF p, of q] unfolding append_assoc .
  then show ?thesis using lookup_put_outside [OF D] v unfolding at_volume_def by auto
qed

lemma flag_in_shallow: "map_option shallow n = map_option shallow n' \<Longrightarrow> flag_in n = flag_in n'"
  by (cases n; cases n') (auto simp: flag_in_def elim!: shallow.elims)

lemma is_reg_shallow: "map_option shallow n = map_option shallow n' \<Longrightarrow> is_reg n = is_reg n'"
  by (cases n; cases n') (auto simp: is_reg_def elim!: shallow.elims)

lemma esp_state_shallow:
  assumes "\<And>q. map_option shallow (lookup r' (S @ q)) = map_option shallow (lookup r (S @ q))"
  shows "esp_state S r' = esp_state S r" and "stored S r' = stored S r"
proof -
  have d: "is_dir (lookup r' S) = is_dir (lookup r S)" using is_dir_shallow [OF assms [of "[]"]] by simp
  have f: "is_reg (lookup r' (S @ [flag_name])) = is_reg (lookup r (S @ [flag_name]))"
    by (rule is_reg_shallow [OF assms])
  have "(lookup r' (S @ [flag_name]) = None) = (lookup r (S @ [flag_name]) = None)"
    using assms [of "[flag_name]"] by (metis option.map_disc_iff)
  with d f show "esp_state S r' = esp_state S r" by (simp add: esp_state_def)
  show "stored S r' = stored S r" unfolding stored_def by (rule flag_in_shallow [OF assms])
qed

lemma passed_device:
  assumes l: "layout D E" and p: "passed cfg D E R f n n' w e w'" and R: "boot_safe n n'"
    and dev: "device D E (root w)" and wf: "wf_tree (root w')"
  shows "device D E (root w')" and "stored (E @ [''state'']) (root w') = stored (E @ [''state'']) (root w)"
proof -
  have D: "lookup (root w) D = Some n" and a: "at_volume D n' w w'" and n: "is_dir (Some n)"
    using p by (auto simp: passed_def)
  have s: "map_option shallow (lookup (root w') ((E @ [''state'']) @ q)) = map_option shallow (lookup (root w) ((E @ [''state'']) @ q))" for q
    using state_dir_kept [OF l D a R, of q] by simp
  note es = esp_state_shallow [of "root w'" "E @ [''state'']" "root w", OF s]
  have "is_dir (lookup (root w') D)"
    using at_volume_lookup [OF D a, of "[]"] R n by (simp add: boot_safe_def)
  with dev es(1) wf show "device D E (root w')"
    by (simp add: device_def present_def esp_state_def)
  show "stored (E @ [''state'']) (root w') = stored (E @ [''state'']) (root w)" by (rule es(2))
qed

subsection \<open>Writing the flag\<close>

text \<open>The paths of the volume that validation looks at.\<close>

definition probes :: "string list list" where
  "probes =
     [[], [dataMarker], [installIDMarker], [''boot''], [''boot'', ''rootfs''], [''lib''], [''lib'', ''sinty'']]
       @ map (\<lambda>a. [''boot'', ''rootfs'', a]) artifacts"

text \<open>The state directory is the same in two trees.\<close>

definition same_state :: "string list \<Rightarrow> inode \<Rightarrow> inode \<Rightarrow> bool" where
  "same_state S r r' \<longleftrightarrow>
     (\<forall>q. map_option shallow (lookup r' (S @ q)) = map_option shallow (lookup r (S @ q)))"

definition no_temps :: "string list \<Rightarrow> inode \<Rightarrow> bool" where
  "no_temps S r \<longleftrightarrow> (\<forall>k. lookup r (S @ [temp_name k]) = None)"

lemma same_state_trans: "same_state S a b \<Longrightarrow> same_state S b c \<Longrightarrow> same_state S a c"
  by (simp add: same_state_def)

lemma same_stateD:
  assumes "same_state S r r'"
  shows "stored S r' = stored S r" and "esp_state S r' = esp_state S r" and "no_temps S r' = no_temps S r"
proof -
  have s: "map_option shallow (lookup r' (S @ q)) = map_option shallow (lookup r (S @ q))" for q
    using assms by (simp add: same_state_def)
  show "stored S r' = stored S r" "esp_state S r' = esp_state S r" by (rule esp_state_shallow [OF s])+
  have "(lookup r' (S @ q) = None) = (lookup r (S @ q) = None)" for q
    using s [of q] by (metis option.map_disc_iff)
  then show "no_temps S r' = no_temps S r" by (simp add: no_temps_def)
qed

lemma valid_volume_shallow:
  assumes v: "\<And>q. q \<in> set probes \<Longrightarrow> map_option shallow (lookup r' (D @ q)) = map_option shallow (lookup r (D @ q))"
    and i: "map_option shallow (lookup r' (E @ [''state'', ''install-id''])) = map_option shallow (lookup r (E @ [''state'', ''install-id'']))"
    and b: "map_option shallow (lookup r' (butlast D)) = map_option shallow (lookup r (butlast D))"
  shows "valid_volume cfg D E r' = valid_volume cfg D E r"
proof -
  have reg: "is_reg (lookup r' (D @ q)) = is_reg (lookup r (D @ q))" if "q \<in> set probes" for q
    by (rule is_reg_shallow [OF v [OF that]])
  have dir: "is_dir (lookup r' (D @ q)) = is_dir (lookup r (D @ q))" if "q \<in> set probes" for q
    by (rule is_dir_shallow [OF v [OF that]])
  have non: "(lookup r' (D @ q) = None) = (lookup r (D @ q) = None)" if "q \<in> set probes" for q
    using v [OF that] by (metis option.map_disc_iff)
  have ids: "install_id (lookup r' (D @ [installIDMarker])) = install_id (lookup r (D @ [installIDMarker]))"
    "install_id (lookup r' (E @ [''state'', ''install-id''])) = install_id (lookup r (E @ [''state'', ''install-id'']))"
    using install_id_shallow [OF v [of "[installIDMarker]"]] install_id_shallow [OF i] by (simp_all add: probes_def)
  have dev: "map_option dev_of n = map_option dev_of n'" if "map_option shallow n = map_option shallow n'" for n n'
    using that by (cases n; cases n') (auto dest: shallow_dev)
  have devs: "map_option dev_of (lookup r' D) = map_option dev_of (lookup r D)"
    "map_option dev_of (lookup r' (butlast D)) = map_option dev_of (lookup r (butlast D))"
    using dev [OF v [of "[]"]] dev [OF b] by (simp_all add: probes_def)
  have arts: "list_all (\<lambda>x. is_reg (lookup r' (D @ [''boot'', ''rootfs'', x]))) artifacts
      = list_all (\<lambda>x. is_reg (lookup r (D @ [''boot'', ''rootfs'', x]))) artifacts"
    using reg by (auto simp: list_all_iff probes_def)
  show ?thesis
    unfolding valid_volume_def ids devs arts
    using reg [of "[dataMarker]"] dir [of "[''boot'']"] dir [of "[''boot'', ''rootfs'']"] dir [of "[''lib'']"]
      dir [of "[''lib'', ''sinty'']"] non [of "[''lib'']"] non [of "[''lib'', ''sinty'']"]
    by (simp add: probes_def)
qed

lemma probes_outside:
  assumes "layout D E" and "q \<in> set probes"
  shows "\<not> prefix (E @ [''state'']) (D @ q)"
proof (cases "prefix (D @ [''boot'', ''efi'']) E")
  case True
  then obtain x where E: "E = D @ [''boot'', ''efi''] @ x" by (auto simp: prefix_def)
  have "\<not> prefix (''boot'' # ''efi'' # y) q" for y
    using assms(2) by (auto simp: probes_def wipe_names)
  then show ?thesis by (simp add: E)
next
  case False
  with assms(1) have "\<not> prefix (E @ [''state'']) D" "\<not> prefix D (E @ [''state''])" unfolding layout_def by blast+
  then show ?thesis by (rule parallel_prefix)
qed

lemma dir_map_same:
  assumes dm: "dir_map S d m' w w'" and l: "lookup (root w) S = Some (Dir d es)"
  shows "\<not> prefix S p \<Longrightarrow> map_option shallow (lookup (root w') p) = map_option shallow (lookup (root w) p)"
    and "m' c = map_of es c \<Longrightarrow> lookup (root w') (S @ c # q) = lookup (root w) (S @ c # q)"
    and "lookup (root w') (S @ [c]) = m' c" and "is_dir (lookup (root w') S)"
proof -
  from dm obtain es' t where w': "w' = w\<lparr>root := put S (Some (Dir d es')) (root w), tick := t\<rparr>" and m: "map_of es' = m'"
    by (auto simp: dir_map_def)
  show "\<not> prefix S p \<Longrightarrow> map_option shallow (lookup (root w') p) = map_option shallow (lookup (root w) p)"
    by (simp add: w' lookup_put_outside [OF l])
  show "lookup (root w') (S @ c # q) = lookup (root w) (S @ c # q)" if "m' c = map_of es c"
    using lookup_put_entry [OF l, of es' c q] that by (simp add: w' m)
  show "lookup (root w') (S @ [c]) = m' c"
    using lookup_put_under [OF l, of "Dir d es'" "[c]"] by (simp add: w' m [symmetric] split: option.split)
  show "is_dir (lookup (root w') S)" using lookup_put_same [OF l] by (simp add: w' is_dir_def)
qed

text \<open>
  Writing the flag \<open>f\<close> on a device: the flag is the old one or \<open>f\<close>, and it is \<open>f\<close> on success; the
  device stays one, and a valid volume stays valid.
\<close>

text \<open>
  Only the flag itself changes: nothing outside the state directory, and no other file in it, with
  everything below, but, unless \<open>whole\<close>, temporary files of writing the flag.
\<close>

definition untouched :: "string list \<Rightarrow> bool \<Rightarrow> inode \<Rightarrow> inode \<Rightarrow> bool" where
  "untouched E whole r r' \<longleftrightarrow>
     (\<forall>q. \<not> prefix (E @ [''state'']) q \<longrightarrow> map_option shallow (lookup r' q) = map_option shallow (lookup r q))
     \<and> (\<forall>c q. c \<noteq> flag_name \<longrightarrow> whole \<or> \<not> is_temp c \<longrightarrow>
          lookup r' (E @ [''state''] @ c # q) = lookup r (E @ [''state''] @ c # q))"

lemma untouched_same [simp]: "untouched E whole r r"
  by (simp add: untouched_def)

lemma untouched_trans: "untouched E whole a b \<Longrightarrow> untouched E whole b c \<Longrightarrow> untouched E whole a c"
  by (simp add: untouched_def)

text \<open>
  \<open>flag_moved\<close>: from \<open>w\<close> the flag was to become \<open>g\<close>.  Either it has, or it is as it was and the
  call did not succeed; without failing calls it has.
\<close>

definition flag_moved ::
    "config \<Rightarrow> string list \<Rightarrow> string list \<Rightarrow> unlockFlag \<Rightarrow> bool \<Rightarrow> 'x world \<Rightarrow> 'x world \<Rightarrow> bool" where
  "flag_moved cfg D E g ok w w' \<longleftrightarrow>
     (let S = E @ [''state''] in
      device D E (root w') \<and> quiet w' = quiet w \<and> untouched E (quiet w) (root w) (root w')
      \<and> valid_volume cfg D E (root w') = valid_volume cfg D E (root w)
      \<and> (stored S (root w') = stored S (root w) \<or> stored S (root w') = g)
      \<and> (ok \<longrightarrow> stored S (root w') = g)
      \<and> (quiet w \<longrightarrow> no_temps S (root w) \<longrightarrow> ok \<and> no_temps S (root w')))"

text \<open>The layout checks see the same volume.\<close>

lemma dir_map_valid_volume:
  assumes la: "layout D E" and dm: "dir_map (E @ [''state'']) d m w w'" and l: "lookup (root w) (E @ [''state'']) = Some (Dir d es)"
    and id: "m ''install-id'' = map_of es ''install-id''"
  shows "valid_volume cfg D E (root w') = valid_volume cfg D E (root w)"
proof -
  note same = dir_map_same [OF dm l]
  have "prefix (butlast D) D" by (metis append_butlast_last_id butlast.simps(1) prefixI prefix_order.refl)
  then have "\<not> prefix (E @ [''state'']) (butlast D)"
    using probes_outside [OF la, of "[]"] prefix_order.trans by (auto simp: probes_def simp del: prefix_snoc)
  then have bl: "map_option shallow (lookup (root w') (butlast D)) = map_option shallow (lookup (root w) (butlast D))"
    by (rule same(1))
  have "lookup (root w') (E @ [''state'', ''install-id'']) = lookup (root w) (E @ [''state'', ''install-id''])"
    using same(2) [OF id, of "[]"] by simp
  then show ?thesis by (intro valid_volume_shallow [OF same(1) [OF probes_outside [OF la]] _ bl]) simp_all
qed

lemma flag_saved_moved:
  assumes la: "layout D E" and dev: "device D E (root w)" and f: "flag_ok f"
    and l: "lookup (root w) (E @ [''state'']) = Some (Dir d es)"
    and fs: "flag_saved (E @ [''state'']) d (marshalFlag f) (map_of es) w e w'" and wf: "wf_tree (root w')"
  shows "flag_moved cfg D E f (e = None) w w'"
proof -
  let ?S = "E @ [''state'']"
  from fs obtain m where dm: "dir_map ?S d m w w'" and fw: "flag_written d (marshalFlag f) (map_of es) m e"
      and cl: "quiet w \<longrightarrow> (\<forall>c. c \<noteq> flag_name \<longrightarrow> m c = map_of es c)"
      and lv: "quiet w \<longrightarrow> (\<forall>k. map_of es (temp_name k) = None) \<longrightarrow> e = None" by (auto simp: flag_saved_def)
  note same = dir_map_same [OF dm l]
  have fl: "lookup (root w) (?S @ [c]) = map_of es c" for c using lookup_snoc [OF l] by simp
  have fm: "m flag_name = map_of es flag_name \<or> m flag_name = Some (Reg d (marshalFlag f))"
    using fw by (simp add: flag_written_def)
  have st: "stored ?S (root w') = flag_in (m flag_name)" "stored ?S (root w) = flag_in (map_of es flag_name)"
    "flag_in (Some (Reg d (marshalFlag f))) = f"
    unfolding stored_def same(3) fl by (simp_all add: flag_in_def unmarshal_marshal [OF f])
  have "is_dir (lookup (root w') D)"
    using is_dir_shallow [OF same(1) [OF probes_outside [OF la, of "[]"]]] dev by (simp add: probes_def device_def present_def)
  moreover have "esp_state ?S (root w')"
    using same(3) [of flag_name] same(4) fm dev fl [of flag_name] by (auto simp: device_def esp_state_def is_reg_def)
  ultimately have "device D E (root w')" using wf same(4) by (simp add: device_def present_def)
  moreover have "m ''install-id'' = map_of es ''install-id''"
    using fw by (simp add: flag_written_def is_temp_def flag_name_def)
  with dir_map_valid_volume [OF la dm l] have "valid_volume cfg D E (root w') = valid_volume cfg D E (root w)" .
  moreover have "e = None \<and> no_temps ?S (root w')" if "quiet w" "no_temps ?S (root w)"
    using that lv fw unfolding no_temps_def same(3) fl by (simp add: flag_written_def)
  moreover have "untouched E (quiet w) (root w) (root w')"
    unfolding untouched_def
  proof (intro conjI allI impI same(1))
    fix c q assume c: "c \<noteq> flag_name" "quiet w \<or> \<not> is_temp c"
    then have "m c = map_of es c" using cl fw by (auto simp: flag_written_def)
    from same(2) [OF this] show "lookup (root w') (E @ [''state''] @ c # q) = lookup (root w) (E @ [''state''] @ c # q)" by simp
  qed
  ultimately show ?thesis
    unfolding flag_moved_def Let_def using fm st fw dir_map_quiet [OF dm] by (auto simp: flag_written_def)
qed

lemma wp_write_device:
  assumes vp: "volume_paths cfg D E" and la: "layout D E" and dev: "device D E (root w)" and f: "flag_ok f"
  shows "wp (writeUnlockFlag cfg f) (\<lambda>e. flag_moved cfg D E f (e = None) w) w"
proof -
  let ?S = "E @ [''state'']"
  have esp: "esp_state ?S (root w)" and wf: "wf_tree (root w)" using dev by (auto simp: device_def)
  then obtain d es where l: "lookup (root w) ?S = Some (Dir d es)" by (auto simp: esp_state_def elim: is_dirE)
  have nd: "\<not> is_dir (map_of es flag_name)"
    using esp lookup_snoc [OF l, of flag_name]
    by (auto simp: esp_state_def is_dir_def is_reg_def split: option.splits inode.splits)
  have "wp (writeUnlockFlag cfg f) (\<lambda>_. well_formed) w"
    using keeps_wp [OF keeps_wf_flag(2)] wf by (simp add: well_formed_def)
  with wp_writeUnlockFlag [OF flag_paths_volume [OF vp] l nd, of f]
  have "wp (writeUnlockFlag cfg f) (\<lambda>e w'. flag_saved ?S d (marshalFlag f) (map_of es) w e w' \<and> well_formed w') w"
    unfolding wp_conj by simp
  then show ?thesis by (rule wp_mono) (auto simp: well_formed_def intro: flag_saved_moved [OF la dev f l])
qed


subsection \<open>The passes and the agent\<close>

lemma passed_same_state:
  assumes "layout D E" and "passed cfg D E R f n n' w e w'" and "boot_safe n n'"
  shows "same_state (E @ [''state'']) (root w) (root w')"
proof -
  from assms(2) have D: "lookup (root w) D = Some n" and a: "at_volume D n' w w'" by (simp_all add: passed_def)
  show ?thesis
    unfolding same_state_def append_assoc using state_dir_kept [OF assms(1) D a assms(3)] by blast
qed

lemma passed_quiet: "passed cfg D E R f n n' w e w' \<Longrightarrow> quiet w' = quiet w"
  by (auto simp: passed_def at_volume_def)

text \<open>What every step of the wipe keeps of the device \<open>r\<close>.\<close>

definition wipe_step :: "config \<Rightarrow> string list \<Rightarrow> string list \<Rightarrow> 'x world \<Rightarrow> 'x world \<Rightarrow> bool" where
  "wipe_step cfg D E w w' \<longleftrightarrow>
     device D E (root w') \<and> same_state (E @ [''state'']) (root w) (root w') \<and> quiet w' = quiet w
     \<and> (valid_volume cfg D E (root w) \<longrightarrow> valid_volume cfg D E (root w'))"

lemma wipe_step_trans: "wipe_step cfg D E a b \<Longrightarrow> wipe_step cfg D E b c \<Longrightarrow> wipe_step cfg D E a c"
  by (auto simp: wipe_step_def intro: same_state_trans)

lemma wipe_step_same: "device D E (root w) \<Longrightarrow> root w' = root w \<Longrightarrow> quiet w' = quiet w \<Longrightarrow> wipe_step cfg D E w w'"
  by (simp add: wipe_step_def same_state_def)

lemma wp_prepare_device:
  assumes vp: "volume_paths cfg D E" and la: "layout D E" and dev: "device D E (root w)"
  shows "wp (prepareDataWipe cfg) (\<lambda>e w'. wipe_step cfg D E w w' \<and> (e = None \<longrightarrow> valid_volume cfg D E (root w))) w"
proof -
  have pr: "present D E (root w)" and wf: "wf_tree (root w)" using dev by (auto simp: device_def)
  have wfw: "wp (prepareDataWipe cfg) (\<lambda>_. well_formed) w"
    using keeps_wp [OF keeps_wf_wipe(2)] wf by (simp add: well_formed_def)
  show ?thesis
  proof (rule wp_runI)
    fix e w' assume run: "run_state (prepareDataWipe cfg) w = (e, w')"
    obtain n n' where p: "passed cfg D E wipe_safe prepared n n' w e w'"
      using wp_runD [OF wp_prepareDataWipe [OF vp pr wf] run] by auto
    then have b: "boot_safe n n'" by (simp add: passed_def wipe_safe_def)
    have "wf_tree (root w')" using wp_runD [OF wfw run] by (simp add: well_formed_def)
    then have "device D E (root w')" using passed_device(1) [OF la p b dev] by simp
    moreover have "valid_volume cfg D E (root w')" if v: "valid_volume cfg D E (root w)"
      by (rule passed_wipe_valid [OF vp layout_apart [OF la] p v])
    ultimately show "wipe_step cfg D E w w' \<and> (e = None \<longrightarrow> valid_volume cfg D E (root w))"
      using passed_same_state [OF la p b] passed_quiet [OF p] p by (auto simp: wipe_step_def passed_def)
  qed
qed

definition erased :: "string list \<Rightarrow> inode \<Rightarrow> bool" where
  "erased D r \<longleftrightarrow> (\<forall>c q. lookup r (D @ c # q) \<noteq> None \<longrightarrow> c \<in> {''boot'', dataMarker, installIDMarker})"

lemma wp_finish_device:
  assumes vp: "volume_paths cfg D E" and la: "layout D E" and dev: "device D E (root w)"
  shows "wp (finishDataWipe cfg) (\<lambda>e w'. wipe_step cfg D E w w' \<and> (e = None \<longrightarrow> erased D (root w'))) w"
proof -
  have pr: "present D E (root w)" and wf: "wf_tree (root w)" using dev by (auto simp: device_def)
  have wfw: "wp (finishDataWipe cfg) (\<lambda>_. well_formed) w"
    using keeps_wp [OF keeps_wf_wipe(3)] wf by (simp add: well_formed_def)
  show ?thesis
  proof (rule wp_runI)
    fix e w' assume run: "run_state (finishDataWipe cfg) w = (e, w')"
    obtain n n' where p: "passed cfg D E boot_safe finished n n' w e w'"
      using wp_runD [OF wp_finishDataWipe [OF vp pr wf] run] by auto
    then have b: "boot_safe n n'" by (simp add: passed_def)
    have "wf_tree (root w')" using wp_runD [OF wfw run] by (simp add: well_formed_def)
    then have "device D E (root w')" using passed_device(1) [OF la p b dev] by simp
    moreover have "valid_volume cfg D E (root w')" if v: "valid_volume cfg D E (root w)"
      by (rule passed_finish_valid [OF vp layout_apart [OF la] p v])
        (use keeps_run [OF keeps_finishDataWipe _ run, of "root w"] wf in \<open>simp add: only_deletes_def\<close>)
    moreover have "erased D (root w')" if "e = None"
      unfolding erased_def passed_lookup [OF p] using p that finished_paths(1) [of n] by (fastforce simp: passed_def)
    ultimately show "wipe_step cfg D E w w' \<and> (e = None \<longrightarrow> erased D (root w'))"
      using passed_same_state [OF la p b] passed_quiet [OF p] by (simp add: wipe_step_def)
  qed
qed


text \<open>The agent erases key custody; the rest of the device does not notice.\<close>

lemma custody_change_volume:
  assumes c: "custody_change D r r'" and D: "lookup r D = Some n"
    and l: "lookup n [''lib''] = None \<or> is_dir (lookup n [''lib''])"
    and s: "lookup n [''lib'', ''sinty''] = None \<or> is_dir (lookup n [''lib'', ''sinty''])"
  obtains n' where "r' = put D (Some n') r" and "boot_safe n n'"
    and "lookup n' [''lib''] = None \<or> is_dir (lookup n' [''lib''])"
    and "lookup n' [''lib'', ''sinty''] = None \<or> is_dir (lookup n' [''lib'', ''sinty''])"
proof (cases "r' = r")
  case True
  then show thesis using that [of n] D l s by (simp add: put_id)
next
  case False
  with c obtain m v where m: "lookup r (D @ custody_dir) = Some m" and r': "r' = put (D @ custody_dir) v r"
      and v: "case v of None \<Rightarrow> True | Some m \<Rightarrow> is_dir (Some m) \<and> wf_tree m"
    by (auto simp: custody_change_def)
  have nm: "lookup n [''lib'', ''sinty''] = Some m" using m D by (simp add: lookup_append custody_dir_def)
  then have "is_dir (lookup n [''lib''])" using lookup_snoc_dir [of n "[''lib'']" "''sinty''"] by simp
  then obtain d es where lib: "lookup n [''lib''] = Some (Dir d es)" by (rule is_dirE)
  define es' where "es' = (case v of None \<Rightarrow> AList.delete ''sinty'' es | Some x \<Rightarrow> AList.update ''sinty'' x es)"
  let ?n = "put [''lib''] (Some (Dir d es')) n"
  have "put custody_dir v n = ?n"
    using put_snoc [OF lib, of "''sinty''" v] by (simp add: custody_dir_def es'_def)
  then have "r' = put D (Some ?n) r"
    unfolding r' using put_append [of r D n custody_dir v] D by (simp add: custody_dir_def)
  moreover have o: "lookup ?n (c # q) = lookup n (c # q)" if "c \<noteq> ''lib''" for c q
    using that by (intro lookup_put_fork) auto
  then have "boot_safe n ?n"
    using put_node [OF lib] by (auto simp: boot_safe_def kept_paths_def list_all_iff wipe_names)
  moreover have "is_dir (lookup ?n [''lib''])" using lookup_put_same [OF lib] by (simp add: is_dir_def)
  moreover have "lookup ?n [''lib'', ''sinty''] = None \<or> is_dir (lookup ?n [''lib'', ''sinty''])"
    using lookup_put_under [OF lib, of "Dir d es'" "[''sinty'']"] v
    by (auto simp: es'_def update_conv' delete_conv' split: option.splits)
  ultimately show thesis using that by blast
qed

lemma custody_change_wf: "custody_change D r r' \<Longrightarrow> wf_tree r \<Longrightarrow> wf_tree r'"
proof (cases "r' = r")
  case False
  assume c: "custody_change D r r'" and wf: "wf_tree r"
  from c False obtain m v where m: "lookup r (D @ custody_dir) = Some m" and r': "r' = put (D @ custody_dir) v r"
      and v: "case v of None \<Rightarrow> True | Some m \<Rightarrow> is_dir (Some m) \<and> wf_tree m"
    by (auto simp: custody_change_def)
  show ?thesis
  proof (cases v)
    case None
    have "is_dir (lookup r (D @ [''lib'']))"
      using lookup_snoc_dir [of r "D @ [''lib'']" "''sinty''"] m by (simp add: custody_dir_def)
    then obtain d es where "lookup r (D @ [''lib'']) = Some (Dir d es)" by (rule is_dirE)
    from wf_tree_delete [OF wf this, of "''sinty''"] show ?thesis by (simp add: r' None custody_dir_def)
  next
    case (Some x)
    with v show ?thesis using wf_tree_put [OF wf _ wf_tree_path [OF wf m]] by (simp add: r')
  qed
qed simp

lemma custody_change_step:
  assumes vp: "volume_paths cfg D E" and la: "layout D E" and dev: "device D E (root w)"
    and v: "valid_volume cfg D E (root w)" and c: "custody_change D (root w) (root w')" and q: "quiet w' = quiet w"
  shows "wipe_step cfg D E w w'"
proof -
  from dev obtain n where D: "lookup (root w) D = Some n" and n: "is_dir (Some n)"
    by (auto simp: device_def present_def is_dir_iff)
  have L: "lookup (root w) (D @ p) = lookup n p" for p using D by (simp add: lookup_append)
  have ls: "lookup n [''lib''] = None \<or> is_dir (lookup n [''lib''])"
    "lookup n [''lib'', ''sinty''] = None \<or> is_dir (lookup n [''lib'', ''sinty''])"
    using v by (auto simp: valid_volume_def L)
  obtain n' where r': "root w' = put D (Some n') (root w)" and b: "boot_safe n n'"
      and ls': "lookup n' [''lib''] = None \<or> is_dir (lookup n' [''lib''])"
        "lookup n' [''lib'', ''sinty''] = None \<or> is_dir (lookup n' [''lib'', ''sinty''])"
    using custody_change_volume [OF c D ls] .
  define w1 where "w1 = w\<lparr>root := root w', tick := tick w\<rparr>"
  have a: "at_volume D n' w w1" unfolding at_volume_def w1_def r' by blast
  have R: "root w1 = root w'" by (simp add: w1_def)
  have ss: "same_state (E @ [''state'']) (root w) (root w')"
    unfolding same_state_def append_assoc using state_dir_kept [OF la D a b] R by simp
  have "is_dir (lookup (root w') D)" using lookup_put_same [OF D] b n by (simp add: r' boot_safe_def)
  then have "device D E (root w')"
    using dev same_stateD(2) [OF ss] custody_change_wf [OF c] by (simp add: device_def present_def esp_state_def)
  moreover have "valid_volume cfg D E (root w')"
    using valid_volume_kept [OF vp layout_apart [OF la] D a b ls' v] R by simp
  ultimately show ?thesis using ss q by (simp add: wipe_step_def)
qed


subsection \<open>The unlock\<close>

lemma erased_shallow:
  assumes "erased D r"
    and "\<And>c q. c \<noteq> ''boot'' \<Longrightarrow> map_option shallow (lookup r' (D @ c # q)) = map_option shallow (lookup r (D @ c # q))"
  shows "erased D r'"
  unfolding erased_def
proof (intro allI impI)
  fix c q assume l: "lookup r' (D @ c # q) \<noteq> None"
  show "c \<in> {''boot'', dataMarker, installIDMarker}"
  proof (cases "c = ''boot''")
    case False
    from assms(2) [OF False, of q] l have "lookup r (D @ c # q) \<noteq> None" by (metis option.map_disc_iff)
    with assms(1) show ?thesis by (auto simp: erased_def)
  qed simp
qed

lemma state_outside_volume:
  assumes "layout D E" and "c \<noteq> ''boot''"
  shows "\<not> prefix (E @ [''state'']) (D @ c # q)"
proof (cases "prefix (D @ [''boot'', ''efi'']) E")
  case True
  then obtain x where E: "E = D @ [''boot'', ''efi''] @ x" by (auto simp: prefix_def)
  then show ?thesis using assms(2) by simp
next
  case False
  with assms(1) have "\<not> prefix (E @ [''state'']) D" "\<not> prefix D (E @ [''state''])" unfolding layout_def by blast+
  then show ?thesis by (rule parallel_prefix)
qed

text \<open>The flag that closes a transaction.\<close>

definition closed_flag :: "unlockFlag \<Rightarrow> unlockFlag" where
  "closed_flag f =
     (if Phase f \<noteq> [] then f\<lparr>Count := go_int (Count f + 1)\<rparr> else f)\<lparr>Armed := False, OwnerUID := 0, Phase := []\<rparr>"

lemma finalize_closed: "finalizeUnlockFlag cfg f = writeUnlockFlag cfg (closed_flag f)"
  by (simp add: finalizeUnlockFlag_def closed_flag_def Let_def)

lemma flag_ok_closed: "int_fields f \<Longrightarrow> flag_ok (closed_flag f)"
proof -
  have "is_int64 0" by (simp add: is_int64_def)
  then show "int_fields f \<Longrightarrow> ?thesis"
    by (auto simp: closed_flag_def flag_ok_def int_fields_def go_int_range)
qed

lemma closed_zero: "closed_flag zeroFlag = zeroFlag"
  by (simp add: closed_flag_def zeroFlag_def)

lemma wp_clear_device:
  assumes vp: "volume_paths cfg D E" and la: "layout D E" and dev: "device D E (root w)"
  shows "wp (clearConsent cfg) (\<lambda>r w'. fst r \<and> device D E (root w')
     \<and> (erased D (root w) \<longrightarrow> erased D (root w'))
     \<and> valid_volume cfg D E (root w') = valid_volume cfg D E (root w) \<and> quiet w' = quiet w
     \<and> stored (E @ [''state'']) (root w') \<in>
         {stored (E @ [''state'']) (root w), closed_flag (stored (E @ [''state'']) (root w))} \<union> (if quiet w then {} else {zeroFlag})
     \<and> (quiet w \<longrightarrow> no_temps (E @ [''state'']) (root w) \<longrightarrow>
          stored (E @ [''state'']) (root w') = closed_flag (stored (E @ [''state'']) (root w)))) w"
proof -
  let ?S = "E @ [''state'']"
  have esp: "esp_state ?S (root w)" using dev by (simp add: device_def)
  show ?thesis
    unfolding clearConsent_def
  proof (rule wp_step [OF wp_readUnlockFlag [OF flag_paths_volume [OF vp] esp]], goal_cases)
    case (1 f w1)
    then have r: "root w1 = root w" and q: "quiet w1 = quiet w" and i: "int_fields f"
      by (auto dest: tickedD)
    from 1 have f: "f = zeroFlag \<or> f = stored ?S (root w)" "quiet w \<longrightarrow> f = stored ?S (root w)" by simp_all
    have dev1: "device D E (root w1)" using dev r by simp
    show ?case
      unfolding finalize_closed
    proof (rule wp_step [OF wp_write_device [OF vp la dev1 flag_ok_closed [OF i]]], goal_cases)
      case (1 e w2)
      note m = this [unfolded flag_moved_def untouched_def Let_def]
      have "erased D (root w2)" if "erased D (root w)"
        using that by (rule erased_shallow) (use m r state_outside_volume [OF la] in simp)
      moreover have "stored ?S (root w2) \<in> {stored ?S (root w), closed_flag (stored ?S (root w))} \<union> (if quiet w then {} else {zeroFlag})"
        using m f r by (auto simp: closed_zero)
      moreover have "stored ?S (root w2) = closed_flag (stored ?S (root w))" if "quiet w" "no_temps ?S (root w)"
        using m f r q that by simp
      ultimately show ?case using m r q by (cases e) (simp_all add: wp_return)
    qed
  qed
qed

text \<open>
  The second half of an unlock on a device: it stays a device; a valid volume stays valid; the
  flag changes only at the very end, and success means an empty volume.
\<close>

definition completed ::
    "config \<Rightarrow> string list \<Rightarrow> string list \<Rightarrow> 'x world \<Rightarrow> bool \<times> string \<Rightarrow> 'x world \<Rightarrow> bool" where
  "completed cfg D E w r w' \<longleftrightarrow> device D E (root w') \<and> quiet w' = quiet w
     \<and> (fst r \<longrightarrow> stored (E @ [''state'']) (root w') \<in>
          {stored (E @ [''state'']) (root w), closed_flag (stored (E @ [''state'']) (root w))} \<union> (if quiet w then {} else {zeroFlag}))
     \<and> (valid_volume cfg D E (root w) \<or> fst r \<longrightarrow> valid_volume cfg D E (root w'))
     \<and> (\<not> fst r \<longrightarrow> same_state (E @ [''state'']) (root w) (root w'))
     \<and> (fst r \<longrightarrow> erased D (root w'))
     \<and> (fst r \<longrightarrow> quiet w \<longrightarrow> no_temps (E @ [''state'']) (root w) \<longrightarrow>
          stored (E @ [''state'']) (root w') = closed_flag (stored (E @ [''state'']) (root w)))"

lemma wp_complete_device:
  assumes sm: "crypto_seam D sm" and vp: "volume_paths cfg D E" and la: "layout D E" and dev: "device D E (root w)"
  shows "wp (completeUnlock sm cfg) (completed cfg D E w) w"
    (is "wp _ ?Q w")
proof -
  have stop: "wp (return (False, msg)) ?Q w1" if "wipe_step cfg D E w w1" for w1 msg
    using that by (auto simp: completed_def wp_return wipe_step_def)
  have fin: "wp (clearConsent cfg) ?Q w1"
    if s: "wipe_step cfg D E w w1" and e: "erased D (root w1)" and v: "valid_volume cfg D E (root w)" for w1
  proof -
    have dev1: "device D E (root w1)" and ss: "same_state (E @ [''state'']) (root w) (root w1)"
      using s by (simp_all add: wipe_step_def)
    show ?thesis
      by (rule wp_mono [OF wp_clear_device [OF vp la dev1]])
        (use s e v same_stateD [OF ss] in \<open>auto simp: completed_def wipe_step_def\<close>)
  qed
  show ?thesis
    unfolding completeUnlock_def
  proof (rule wp_guard [OF wp_prepare_device [OF vp la dev]], goal_cases)
    case (1 w1)
    then have s1: "wipe_step cfg D E w w1" and dev1: "device D E (root w1)" and v: "valid_volume cfg D E (root w)"
        and v1: "valid_volume cfg D E (root w1)" by (auto simp: wipe_step_def)
    have s2: "wipe_step cfg D E w w2" if "custody_change D (root w1) (root w2)" "quiet w2 = quiet w1" for w2
      by (rule wipe_step_trans [OF s1 custody_change_step [OF vp la dev1 v1 that]])
    have "wp (wipeVar sm) (\<lambda>e. wipe_step cfg D E w) w1"
      by (rule wp_mono [OF crypto_seam.wp_wipeVar [OF sm]]) (auto simp: quiet_def intro!: s2)
    then show ?case
    proof (rule wp_guard, goal_cases)
      case (1 w2)
      then have dev2: "device D E (root w2)" by (simp add: wipe_step_def)
      show ?case
      proof (rule wp_guard [OF wp_finish_device [OF vp la dev2]], goal_cases)
        case (1 w3)
        with wipe_step_trans [OF \<open>wipe_step cfg D E w w2\<close>] have s3: "wipe_step cfg D E w w3" "erased D (root w3)" by simp_all
        have "wp (setUnlockBit sm) (\<lambda>e w4. wipe_step cfg D E w w4 \<and> erased D (root w4)) w3"
          by (rule wp_mono [OF crypto_seam.wp_setUnlockBit [OF sm]]) (use s3 in \<open>auto simp: wipe_step_def quiet_def\<close>)
        then show ?case by (rule wp_guard) (use fin v stop in auto)
      qed (use wipe_step_trans [OF \<open>wipe_step cfg D E w w2\<close>] stop in auto)
    qed (rule stop)
  qed (use stop in auto)
qed


text \<open>
  The first half: nothing of the user's is touched, and the record of the phase is the last thing
  it does.
\<close>

definition user_data_kept :: "string list \<Rightarrow> inode \<Rightarrow> inode \<Rightarrow> bool" where
  "user_data_kept D r r' \<longleftrightarrow>
     (\<forall>c q. c \<noteq> ''boot'' \<longrightarrow> map_option shallow (lookup r' (D @ c # q)) = map_option shallow (lookup r (D @ c # q)))"

definition begun :: "config \<Rightarrow> string list \<Rightarrow> string list \<Rightarrow> 'x world \<Rightarrow> string option \<Rightarrow> 'x world \<Rightarrow> bool" where
  "begun cfg D E w r w' \<longleftrightarrow>
     (let S = E @ [''state'']; f = stored S (root w) in
      device D E (root w') \<and> quiet w' = quiet w \<and> user_data_kept D (root w) (root w')
      \<and> valid_volume cfg D E (root w') = valid_volume cfg D E (root w)
      \<and> (stored S (root w') = f \<or> stored S (root w') = f\<lparr>Phase := unlockPhaseVerityOff\<rparr>)
      \<and> (r = None \<longrightarrow> valid_volume cfg D E (root w) \<and> stored S (root w') = f\<lparr>Phase := unlockPhaseVerityOff\<rparr>)
      \<and> (quiet w \<longrightarrow> no_temps S (root w) \<longrightarrow> no_temps S (root w')))"

lemma begun_same:
  "device D E (root w) \<Longrightarrow> root w' = root w \<Longrightarrow> quiet w' = quiet w \<Longrightarrow> begun cfg D E w (Some msg) w'"
  by (simp add: begun_def user_data_kept_def Let_def)

lemma flag_ok_phase: "int_fields f \<Longrightarrow> flag_ok (f\<lparr>Phase := unlockPhaseVerityOff\<rparr>)"
proof -
  have "list_all json_plain unlockPhaseVerityOff" by code_simp
  then show "int_fields f \<Longrightarrow> ?thesis" by (simp add: flag_ok_def int_fields_def)
qed

lemma wp_record_phase:
  assumes vp: "volume_paths cfg D E" and la: "layout D E" and dev: "device D E (root w)"
    and f: "f = stored (E @ [''state'']) (root w)" and v: "valid_volume cfg D E (root w)"
    and r: "root w1 = root w" "quiet w1 = quiet w"
  shows "wp (writeUnlockFlag cfg (f\<lparr>Phase := unlockPhaseVerityOff\<rparr>) \<bind> (\<lambda>e. case e of
      Some err \<Rightarrow> return (Some (msg err)) | None \<Rightarrow> return None)) (begun cfg D E w) w1"
proof -
  have dev1: "device D E (root w1)" using dev r by simp
  have ok: "flag_ok (f\<lparr>Phase := unlockPhaseVerityOff\<rparr>)" unfolding f by (rule flag_ok_phase) simp
  show ?thesis
  proof (rule wp_step [OF wp_write_device [OF vp la dev1 ok]], goal_cases)
    case (1 e w2)
    note m = this [unfolded flag_moved_def untouched_def Let_def]
    have k: "user_data_kept D (root w) (root w2)"
      unfolding user_data_kept_def using m r state_outside_volume [OF la] by simp
    show ?case using m k r f v by (cases e) (auto simp: wp_return begun_def Let_def)
  qed
qed

lemma wp_record_device:
  assumes sm: "crypto_seam D sm" and vp: "volume_paths cfg D E" and la: "layout D E" and dev: "device D E (root w)"
    and f: "f = stored (E @ [''state'']) (root w)" and v: "valid_volume cfg D E (root w)"
    and r: "root w1 = root w" "quiet w1 = quiet w"
  shows "wp (recordTransaction sm cfg f) (begun cfg D E w) w1"
proof -
  have esp: "esp_state (E @ [''state'']) (root w)" using dev by (simp add: device_def)
  have stop: "wp (return (Some msg)) (begun cfg D E w) w1" if "root w1 = root w" "quiet w1 = quiet w" for w1 msg
    using begun_same [OF dev that] by (simp add: wp_return)
  have rec: "wp (readUnlockFlag cfg \<bind> (\<lambda>current. if \<not> consentHolds f current then return (Some m1)
        else writeUnlockFlag cfg (current\<lparr>Phase := unlockPhaseVerityOff\<rparr>) \<bind> (\<lambda>e. case e of
          Some err \<Rightarrow> return (Some (m2 err)) | None \<Rightarrow> return None))) (begun cfg D E w) w1"
    if r: "root w1 = root w" "quiet w1 = quiet w" for w1 m1 m2
  proof (rule wp_step [OF wp_readUnlockFlag [OF flag_paths_volume [OF vp]]], goal_cases)
    case (2 c w2)
    then have r2: "root w2 = root w" "quiet w2 = quiet w" using r by (auto dest: tickedD)
    have "c = f" if "consentHolds f c" using that 2 r f by (auto simp: consentHolds_def zeroFlag_def)
    then show ?case using wp_record_phase [OF vp la dev f v r2] by (intro wp_ifI stop [OF r2]) auto
  qed (use esp r in simp)
  show ?thesis
    unfolding recordTransaction_def
    by (rule wp_guard [OF crypto_seam.wp_disableVerity [OF sm]],
        rule wp_step [OF crypto_seam.wp_readVerityOff [OF sm]], intro wp_ifI stop rec)
      (use r in \<open>auto simp: quiet_def intro!: stop\<close>)
qed

lemma wp_begin_device:
  assumes sm: "crypto_seam D sm" and vp: "volume_paths cfg D E" and la: "layout D E" and dev: "device D E (root w)"
    and f: "f = stored (E @ [''state'']) (root w)"
  shows "wp (beginUnlock sm cfg f pin) (begun cfg D E w) w"
proof (cases "length pin < 4 \<or> length pin > 256 \<or> containsAny pin [CHR 0x0D, CHR 0x0A]")
  case True
  then show ?thesis using begun_same [OF dev] by (simp add: beginUnlock_def wp_return)
next
  case False
  have esp: "esp_state (E @ [''state'']) (root w)" and pr: "present D E (root w)" using dev by (simp_all add: device_def)
  have stop: "wp (return (Some msg)) (begun cfg D E w) w1" if "root w1 = root w" "quiet w1 = quiet w" for w1 msg
    using begun_same [OF dev that] by (simp add: wp_return)
  have check: "wp (validateDataDir cfg \<bind> (\<lambda>e1. case e1 of
          Some err \<Rightarrow> return (Some (''unlock: validate data wipe: '' @ error_text err))
        | None \<Rightarrow> recordTransaction sm cfg f)) (begun cfg D E w) w1"
    if r: "root w1 = root w" "quiet w1 = quiet w" for w1
  proof -
    have "present D E (root w1)" using pr r by simp
    note val = checks_wp [OF checks_validateDataDir [OF vp this] refl]
    show ?thesis
    proof (rule wp_step [OF val], goal_cases)
      case (1 e1 w2)
      then have r2: "root w2 = root w" "quiet w2 = quiet w" using r by (auto dest: tickedD)
      show ?case
        by (intro wp_optionI stop [OF r2] wp_record_device [OF sm vp la dev f _ r2]) (use 1 r in simp)
    qed
  qed
  show ?thesis
    unfolding beginUnlock_def if_not_P [OF False]
  proof (rule wp_step [OF crypto_seam.wp_verifyPIN [OF sm]], goal_cases)
    case (1 v w1)
    then have r1: "root w1 = root w" "quiet w1 = quiet w" by (auto simp: quiet_def)
    have "wp (readUnlockFlag cfg \<bind> (\<lambda>current. if \<not> consentHolds f current
        then return (Some ''The unlock consent changed. Nothing was changed.'')
        else validateDataDir cfg \<bind> (\<lambda>e1. case e1 of
          Some err \<Rightarrow> return (Some (''unlock: validate data wipe: '' @ error_text err))
        | None \<Rightarrow> recordTransaction sm cfg f))) (begun cfg D E w) w1"
    proof (rule wp_step [OF wp_readUnlockFlag [OF flag_paths_volume [OF vp]]], goal_cases)
      case (2 c w2)
      then have r2: "root w2 = root w" "quiet w2 = quiet w" using r1 by (auto dest: tickedD)
      show ?case by (intro wp_ifI stop [OF r2] check [OF r2])
    qed (use esp r1 in simp)
    then show ?case by (intro wp_sumI wp_ifI stop [OF r1])
  qed
qed


lemma begun_valid: "begun cfg D E w r w' \<Longrightarrow> valid_volume cfg D E (root w') = valid_volume cfg D E (root w)"
  by (simp add: begun_def Let_def)

text \<open>
  A call of \<open>UnlockBootloader\<close> on a device, whatever fails on the way.  \<open>eligible\<close>: the flag that
  a call needs to do anything at all.
\<close>

definition eligible :: "unlockFlag \<Rightarrow> bool" where
  "eligible f \<longleftrightarrow> Armed f \<and> 1000 \<le> OwnerUID f \<and> (Phase f = [] \<or> Phase f = unlockPhaseVerityOff)"

definition unlock_outcome ::
    "config \<Rightarrow> string list \<Rightarrow> string list \<Rightarrow> 'x world \<Rightarrow> bool \<times> string \<Rightarrow> 'x world \<Rightarrow> bool" where
  "unlock_outcome cfg D E w r w' \<longleftrightarrow>
     (let S = E @ [''state'']; f = stored S (root w); f' = f\<lparr>Phase := unlockPhaseVerityOff\<rparr> in
      device D E (root w') \<and> quiet w' = quiet w
      \<and> (\<not> eligible f \<longrightarrow> \<not> fst r \<and> root w' = root w)
      \<and> (valid_volume cfg D E (root w) \<or> fst r \<longrightarrow> valid_volume cfg D E (root w'))
      \<and> (\<not> fst r \<longrightarrow> stored S (root w') = f \<or> stored S (root w') = f')
      \<and> (fst r \<longrightarrow> erased D (root w'))
      \<and> (fst r \<longrightarrow> stored S (root w') \<in> {f', closed_flag f'} \<union> (if quiet w then {} else {zeroFlag}))
      \<and> (fst r \<longrightarrow> quiet w \<longrightarrow> no_temps S (root w) \<longrightarrow> stored S (root w') = closed_flag f'))"

lemma outcome_same:
  "device D E (root w) \<Longrightarrow> root w' = root w \<Longrightarrow> quiet w' = quiet w \<Longrightarrow> unlock_outcome cfg D E w (False, msg) w'"
  by (simp add: unlock_outcome_def Let_def)

lemma completed_outcome:
  assumes c: "completed cfg D E w1 r w'" and el: "eligible (stored (E @ [''state'']) (root w))"
    and v: "valid_volume cfg D E (root w) \<Longrightarrow> valid_volume cfg D E (root w1)" and q: "quiet w1 = quiet w"
    and f: "stored (E @ [''state'']) (root w1) = (stored (E @ [''state'']) (root w))\<lparr>Phase := unlockPhaseVerityOff\<rparr>"
    and n: "quiet w \<Longrightarrow> no_temps (E @ [''state'']) (root w) \<Longrightarrow> no_temps (E @ [''state'']) (root w1)"
  shows "unlock_outcome cfg D E w r w'"
proof -
  have "stored (E @ [''state'']) (root w') = stored (E @ [''state'']) (root w1)" if "\<not> fst r"
    using c that by (auto simp: completed_def intro: same_stateD(1))
  then show ?thesis
    using c v n el unfolding completed_def unlock_outcome_def Let_def q f by blast
qed

lemma wp_UnlockBootloader_device:
  assumes sm: "crypto_seam D sm" and vp: "volume_paths cfg D E" and la: "layout D E" and dev: "device D E (root w)"
  shows "wp (UnlockBootloader sm cfg confirm pin) (unlock_outcome cfg D E w) w"
proof (rule wp_UnlockBootloaderI [OF flag_paths_volume [OF vp]], goal_cases)
  case 1
  show ?case using dev by (simp add: device_def)
next
  case (2 w1 msg)
  then show ?case by (intro outcome_same [OF dev] tickedD)
next
  case (3 f w1)
  then have r: "root w1 = root w" "quiet w1 = quiet w" and f: "f = stored (E @ [''state'']) (root w1)" by (auto dest: tickedD)
  have el: "eligible (stored (E @ [''state'']) (root w))" using 3 by (simp add: eligible_def)
  have dev1: "device D E (root w1)" using dev r by simp
  show ?case
  proof (rule wp_guard [OF wp_begin_device [OF sm vp la dev1 f]], goal_cases)
    case (1 w2)
    then have dev2: "device D E (root w2)" by (simp add: begun_def Let_def)
    with 1 show ?case
      by (intro wp_mono [OF wp_complete_device [OF sm vp la dev2]], elim completed_outcome)
        (simp_all add: begun_def Let_def r el)
  next
    case (2 msg w2)
    then show ?case by (simp add: wp_return unlock_outcome_def begun_def Let_def r el)
  qed
next
  case (4 f w1 msg)
  then have r: "root w1 = root w" "quiet w1 = quiet w" by (auto dest: tickedD)
  have el: "eligible (stored (E @ [''state'']) (root w))" using 4 by (simp add: eligible_def)
  have "wp (readVerityOff sm) (\<lambda>_ w2. root w2 = root w \<and> quiet w2 = quiet w) w1"
    by (rule wp_mono [OF crypto_seam.wp_readVerityOff [OF sm]]) (use r in \<open>auto simp: quiet_def\<close>)
  then show ?case
  proof (rule wp_step, elim conjE, intro wp_ifI, goal_cases)
    case (1 vo w2)
    then show ?case using outcome_same [OF dev] by (simp add: wp_return)
  next
    case (2 vo w2)
    then have dev2: "device D E (root w2)" using dev by simp
    have "(stored (E @ [''state'']) (root w))\<lparr>Phase := unlockPhaseVerityOff\<rparr> = stored (E @ [''state'']) (root w)" using 4 by simp
    then show ?case
      by (intro wp_mono [OF wp_complete_device [OF sm vp la dev2]], elim completed_outcome) (simp_all add: 2 el)
  qed
qed

end
