(* ===== verification/Consent.thy ===== *)
theory Consent
  imports UnlockSafety
begin

text \<open>
  The owner's consent as a state machine.  The public operations of the lock move the stored flag
  only along the steps of a small abstract machine, whatever order they are called in; what the
  machine's states have in common then holds of every device.
\<close>

section \<open>The agent leaves the record to the caller\<close>

lemma confined_silent: "confined m \<Longrightarrow> silent m"
  unfolding confined_def by (rule silentI) (fastforce elim: wp_mono)

lemma seam_silent:
  assumes "crypto_seam D sm"
  shows "silent_seam sm"
proof -
  have "silent (cryptoWipeVar sm)"
    by (rule silentI) (rule wp_mono [OF crypto_seam.wipe_custody [OF assms]], auto)
  then show ?thesis
    unfolding silent_seam_def
    using crypto_seam.confined_lock [OF assms] crypto_seam.confined_verity [OF assms]
      crypto_seam.confined_pin [OF assms] crypto_seam.confined_set [OF assms]
      crypto_seam.confined_disable [OF assms]
    by (simp add: confined_silent)
qed

section \<open>User data\<close>

lemma wp_UnlockBootloader_data:
  assumes sm: "crypto_seam D sm" and vp: "volume_paths cfg D E" and la: "layout D E" and dev: "device D E (root w)"
  shows "wp (UnlockBootloader sm cfg confirm pin) (\<lambda>r w'. user_data_kept D (root w) (root w')
     \<or> (\<exists>es. since w es w' \<and> ReadVerityOff (Inr True) \<in> set es)) w"
    (is "wp _ ?Q w")
proof (rule wp_UnlockBootloaderI [OF flag_paths_volume [OF vp]], goal_cases)
  case 1
  show ?case using dev by (simp add: device_def)
next
  case (2 w1 msg)
  then show ?case by (simp add: user_data_kept_def tickedD)
next
  case (3 f w1)
  then have r1: "root w1 = root w" and s1: "since w [] w1" and f: "f = stored (E @ [''state'']) (root w1)"
    by (auto simp: since_def dest: tickedD)
  note ss = seam_silent [OF sm]
  have dev1: "device D E (root w1)" using dev r1 by simp
  have "wp (beginUnlock sm cfg f pin) (\<lambda>e w2. begun cfg D E w1 e w2 \<and>
      (\<exists>es. since w es w2 \<and> follows (begin_script (OwnerUID f) pin) es
       \<and> (e = None \<longrightarrow> es = begin_script (OwnerUID f) pin))) w1"
    unfolding wp_conj by (rule conjI [OF wp_begin_device [OF sm vp la dev1 f] wp_beginUnlock [OF ss s1]])
  then show ?case
  proof (rule wp_guard, goal_cases)
    case (1 w2)
    then have "since w (begin_script (OwnerUID f) pin) w2" by simp
    from wp_completeUnlock [OF ss this] show ?case by (rule wp_mono) (auto simp: begin_script_def)
  next
    case (2 msg w2)
    then show ?case by (simp add: wp_return begun_def Let_def r1)
  qed
next
  case (4 f w1 msg)
  then have r1: "root w1 = root w" and s1: "since w [] w1" by (auto simp: since_def dest: tickedD)
  note ss = seam_silent [OF sm]
  have "wp (readVerityOff sm) (\<lambda>_ w2. root w2 = root w) w1"
    by (rule wp_mono [OF crypto_seam.wp_readVerityOff [OF sm]]) (use r1 in auto)
  then have "wp (readVerityOff sm) (\<lambda>vo w2. since w [ReadVerityOff vo] w2 \<and> root w2 = root w) w1"
    unfolding wp_conj using since_seam(2) [OF ss s1] by simp
  then show ?case
  proof (rule wp_step, elim conjE, intro wp_ifI, goal_cases)
    case (1 vo w2)
    then show ?case by (simp add: wp_return user_data_kept_def)
  next
    case (2 vo w2)
    then have "since w [ReadVerityOff (Inr True)] w2" by simp
    from wp_completeUnlock [OF ss this] show ?case by (rule wp_mono) auto
  qed
qed

section \<open>The machine\<close>

definition armed_flag :: "int \<Rightarrow> unlockFlag \<Rightarrow> unlockFlag" where
  "armed_flag uid f = f\<lparr>Armed := True, OwnerUID := uid, Phase := []\<rparr>"

definition disarmed_flag :: "unlockFlag \<Rightarrow> unlockFlag" where
  "disarmed_flag f = f\<lparr>Armed := False, OwnerUID := 0, Phase := []\<rparr>"

text \<open>
  Consent is given for an account and withdrawn; an unlock records that its transaction has
  started; only the end of the transaction, which counts it, takes that record away again.
\<close>

inductive consent_step :: "unlockFlag \<Rightarrow> unlockFlag \<Rightarrow> bool" where
  arm: "1000 \<le> uid \<Longrightarrow> is_int64 uid \<Longrightarrow> \<not> (Armed f \<and> Phase f \<noteq> []) \<Longrightarrow> consent_step f (armed_flag uid f)"
| disarm: "Phase f = [] \<Longrightarrow> consent_step f (disarmed_flag f)"
| transact: "Armed f \<Longrightarrow> 1000 \<le> OwnerUID f \<Longrightarrow> Phase f = [] \<Longrightarrow>
    consent_step f (f\<lparr>Phase := unlockPhaseVerityOff\<rparr>)"
| close: "Phase f \<noteq> [] \<Longrightarrow> consent_step f (closed_flag f)"

inductive_cases consent_stepE: "consent_step f g"

text \<open>The flag of a fresh device, and what the machine keeps of it.\<close>

definition consent_inv :: "unlockFlag \<Rightarrow> bool" where
  "consent_inv f \<longleftrightarrow>
     (if Armed f then 1000 \<le> OwnerUID f else OwnerUID f = 0 \<and> Phase f = [])
     \<and> (Phase f = [] \<or> Phase f = unlockPhaseVerityOff) \<and> is_int64 (Count f)"

lemma consent_inv_zero: "consent_inv zeroFlag"
  by (simp add: consent_inv_def zeroFlag_def is_int64_def)

lemma consent_inv_step: "consent_step f g \<Longrightarrow> consent_inv f \<Longrightarrow> consent_inv g"
  by (erule consent_stepE)
    (auto simp: consent_inv_def armed_flag_def disarmed_flag_def closed_flag_def go_int_range split: if_splits)

text \<open>
  With calls that fail: a failed read is taken for an empty flag, so that a step may also start from
  that one, and what was stored is lost.  The invariant holds all the same.
\<close>

definition lossy_step :: "unlockFlag \<Rightarrow> unlockFlag \<Rightarrow> bool" where
  "lossy_step f g \<longleftrightarrow> consent_step f g \<or> consent_step zeroFlag g"

lemma lossy_reach: "consent_step\<^sup>*\<^sup>* f g \<Longrightarrow> lossy_step\<^sup>*\<^sup>* f g"
  by (erule mono_rtranclp [rule_format, rotated]) (simp add: lossy_step_def)

lemma lossy_zero: "lossy_step f zeroFlag"
  using disarm [of zeroFlag] by (simp add: lossy_step_def disarmed_flag_def zeroFlag_def)

lemma consent_inv_lossy: "lossy_step\<^sup>*\<^sup>* f g \<Longrightarrow> consent_inv f \<Longrightarrow> consent_inv g"
  by (induction rule: rtranclp_induct) (auto simp: lossy_step_def intro: consent_inv_step consent_inv_zero)

text \<open>The count: the end of a transaction adds one, nothing else touches it.\<close>

lemma consent_count_step:
  "consent_step f g \<Longrightarrow> Count g = Count f \<or> Phase f \<noteq> [] \<and> Count g = go_int (Count f + 1)"
  by (erule consent_stepE) (auto simp: armed_flag_def disarmed_flag_def closed_flag_def)

section \<open>Arming\<close>

text \<open>What a call of \<open>ArmUnlockForOwner\<close> makes of the flag, \<open>None\<close> for a refusal.\<close>

definition arm_spec :: "bool \<Rightarrow> int \<Rightarrow> bool \<Rightarrow> unlockFlag \<Rightarrow> unlockFlag option" where
  "arm_spec armed uid unlocked f =
     (if armed then if uid < 1000 \<or> Armed f \<and> Phase f \<noteq> [] then None else Some (armed_flag uid f)
      else if Phase f = [] then Some (disarmed_flag f)
      else if unlocked then Some (closed_flag f) else None)"

lemma arm_spec_step: "arm_spec armed uid v f = Some g \<Longrightarrow> is_int64 uid \<Longrightarrow> consent_step f g"
  by (auto simp: arm_spec_def split: if_splits intro: consent_step.intros)

lemma arm_spec_ok: "arm_spec armed uid v f = Some g \<Longrightarrow> is_int64 uid \<Longrightarrow> int_fields f \<Longrightarrow> flag_ok g"
proof -
  have "is_int64 0" by (simp add: is_int64_def)
  then show "arm_spec armed uid v f = Some g \<Longrightarrow> is_int64 uid \<Longrightarrow> int_fields f \<Longrightarrow> ?thesis"
    by (auto simp: arm_spec_def armed_flag_def disarmed_flag_def flag_ok_closed split: if_splits)
      (auto simp: flag_ok_def int_fields_def)
qed

lemma wp_write_moved:
  assumes vp: "volume_paths cfg D E" and la: "layout D E" and dev: "device D E (root w)" and g: "flag_ok g"
    and r: "root w1 = root w" "quiet w1 = quiet w"
  shows "wp (writeUnlockFlag cfg g) (\<lambda>e w'. flag_moved cfg D E g (e = None) w w' \<and> events w' = events w1) w1"
proof -
  have dev1: "device D E (root w1)" using dev r by simp
  have "wp (writeUnlockFlag cfg g) (\<lambda>e. flag_moved cfg D E g (e = None) w) w1"
    by (rule wp_mono [OF wp_write_device [OF vp la dev1 g]])
      (simp add: flag_moved_def Let_def r)
  then show ?thesis unfolding wp_conj using silent_wp [OF silent_flag(2)] by blast
qed

text \<open>
  The agent is asked for the lock bit exactly when a recorded transaction is to be withdrawn, and its
  answer \<open>v\<close> decides.
\<close>

definition lock_asked :: "bool \<Rightarrow> unlockFlag \<Rightarrow> gerror + bool \<Rightarrow> event list" where
  "lock_asked armed f v = (if \<not> armed \<and> Phase f \<noteq> [] then [ReadLockBit v] else [])"

definition arm_outcome ::
    "config \<Rightarrow> string list \<Rightarrow> string list \<Rightarrow> bool \<Rightarrow> int \<Rightarrow> 'x world \<Rightarrow> bool \<times> string \<Rightarrow> 'x world \<Rightarrow> bool" where
  "arm_outcome cfg D E armed uid w r w' \<longleftrightarrow>
     (\<exists>f v. (f = zeroFlag \<or> f = stored (E @ [''state'']) (root w)) \<and> (quiet w \<longrightarrow> f = stored (E @ [''state'']) (root w))
        \<and> events w' = lock_asked armed f v @ events w
        \<and> (case arm_spec armed uid (v = Inr False) f of
             None \<Rightarrow> \<not> fst r \<and> root w' = root w \<and> quiet w' = quiet w
           | Some g \<Rightarrow> flag_moved cfg D E g (fst r) w w'))"

lemma arm_outcomeE:
  assumes "arm_outcome cfg D E armed uid w r w'"
  obtains f v where "f = zeroFlag \<or> f = stored (E @ [''state'']) (root w)" and "quiet w \<longrightarrow> f = stored (E @ [''state'']) (root w)"
    and "events w' = lock_asked armed f v @ events w"
    and "case arm_spec armed uid (v = Inr False) f of
        None \<Rightarrow> \<not> fst r \<and> root w' = root w \<and> quiet w' = quiet w | Some g \<Rightarrow> flag_moved cfg D E g (fst r) w w'"
  using assms unfolding arm_outcome_def by (elim exE conjE) (rule that)

lemma arm_refused:
  assumes "f = zeroFlag \<or> f = stored (E @ [''state'']) (root w)" "quiet w \<longrightarrow> f = stored (E @ [''state'']) (root w)"
    and "arm_spec armed uid (v = Inr False) f = None" "root w1 = root w" "quiet w1 = quiet w"
    and "events w1 = lock_asked armed f v @ events w"
  shows "wp (return (False, msg)) (arm_outcome cfg D E armed uid w) w1"
  unfolding wp_return arm_outcome_def using assms by (intro exI [of _ f] exI [of _ v]) simp

lemma wp_arm_write:
  assumes vp: "volume_paths cfg D E" and la: "layout D E" and dev: "device D E (root w)" and uid: "is_int64 uid"
    and f: "f = zeroFlag \<or> f = stored (E @ [''state'']) (root w)" "quiet w \<longrightarrow> f = stored (E @ [''state'']) (root w)"
    and g: "arm_spec armed uid (v = Inr False) f = Some g" and r: "root w1 = root w" "quiet w1 = quiet w"
    and ev: "events w1 = lock_asked armed f v @ events w"
  shows "wp (do { e \<leftarrow> writeUnlockFlag cfg g; case e of Some err \<Rightarrow> return (False, m1 err) | None \<Rightarrow> return (True, m2) })
    (arm_outcome cfg D E armed uid w) w1"
proof (rule wp_step [OF wp_write_moved [OF vp la dev arm_spec_ok [OF g uid] r]], goal_cases)
  case 1
  show ?case using f(1) by auto
next
  case (2 e w2)
  have "arm_outcome cfg D E armed uid w (e = None, m) w2" for m
    unfolding arm_outcome_def using f 2 g ev by (intro exI [of _ f] exI [of _ v]) simp
  then show ?case by (cases e) (simp_all add: wp_return)
qed

lemma wp_ArmUnlockForOwner:
  assumes sm: "crypto_seam D sm" and vp: "volume_paths cfg D E" and la: "layout D E" and dev: "device D E (root w)"
    and uid: "is_int64 uid"
  shows "wp (ArmUnlockForOwner sm cfg armed uid) (arm_outcome cfg D E armed uid w) w"
  unfolding ArmUnlockForOwner_def
proof (rule wp_step [OF wp_readUnlockFlag [OF flag_paths_volume [OF vp]]], goal_cases)
  case 1
  show ?case using dev by (simp add: device_def)
next
  case (2 f w1)
  then have f: "f = zeroFlag \<or> f = stored (E @ [''state'']) (root w)" "quiet w \<longrightarrow> f = stored (E @ [''state'']) (root w)"
    and r: "root w1 = root w" "quiet w1 = quiet w" and ev: "events w1 = events w" by (auto dest: tickedD)
  note refuse = arm_refused [OF f] and wr = wp_arm_write [OF vp la dev uid f]
  have fin: "wp (readLockBit sm \<bind> (\<lambda>v. if v = Inr False then finalizeUnlockFlag cfg f \<bind> (\<lambda>e. case e of
       None \<Rightarrow> return (True, m1) | Some err \<Rightarrow> return (False, m2 err)) else return (False, m3)))
    (arm_outcome cfg D E armed uid w) w1" if "\<not> armed" "Phase f \<noteq> []" for m1 m2 m3
  proof (rule wp_step [OF crypto_seam.wp_readLockBit [OF sm]], goal_cases)
    case (1 v w2)
    then have r2: "root w2 = root w" "quiet w2 = quiet w" "events w2 = ReadLockBit v # events w"
      using r ev by (auto simp: quiet_def)
    have "arm_spec armed uid False f = None" "arm_spec armed uid True f = Some (closed_flag f)" "lock_asked armed f v = [ReadLockBit v]"
      using that by (simp_all add: arm_spec_def lock_asked_def)
    then show ?case
      unfolding finalize_closed by (intro wp_ifI refuse [where v = v, OF _ r2(1,2)] wr [where v = v, OF _ r2(1,2)]) (use r2 in simp_all)
  qed
  show ?case
    by (intro wp_ifI refuse [where v = "Inr True", OF _ r] wr [where v = "Inr True", OF _ r] fin)
      (simp_all add: arm_spec_def armed_flag_def disarmed_flag_def lock_asked_def ev)
qed

section \<open>Looking at the lock\<close>

text \<open>
  The lock bit is reported as locked whenever the agent did not say otherwise.  Looking is not
  quite free of effect: it closes a transaction that ended with the bit flipped.
\<close>

definition look_outcome ::
    "config \<Rightarrow> string list \<Rightarrow> string list \<Rightarrow> 'x world \<Rightarrow> lockStateInfo \<Rightarrow> 'x world \<Rightarrow> bool" where
  "look_outcome cfg D E w info w' \<longleftrightarrow>
     (let S = E @ [''state'']; f = stored S (root w) in
      device D E (root w') \<and> quiet w' = quiet w \<and> untouched E (quiet w) (root w) (root w')
      \<and> valid_volume cfg D E (root w') = valid_volume cfg D E (root w)
      \<and> (\<exists>v. events w' = ReadLockBit v # events w \<and> (Locked info \<longleftrightarrow> v \<noteq> Inr False))
      \<and> (stored S (root w') = f
         \<or> \<not> Locked info \<and> Armed f \<and> Phase f = unlockPhaseVerityOff \<and> stored S (root w') = closed_flag f)
      \<and> (Locked info \<longrightarrow> root w' = root w)
      \<and> (quiet w \<and> no_temps S (root w) \<and> \<not> Locked info \<and> Armed f \<and> Phase f = unlockPhaseVerityOff \<longrightarrow>
           stored S (root w') = closed_flag f)
      \<and> (UnlockArmed info \<longrightarrow> Armed f \<and> 1000 \<le> OwnerUID f)
      \<and> (quiet w \<longrightarrow> UnlockArmed info = (Armed (stored S (root w')) \<and> 1000 \<le> OwnerUID (stored S (root w')))
           \<and> UnlockCount info = Count (stored S (root w'))))"

text \<open>What the fields of the answer are, when the flag read is \<open>f\<close>.\<close>

definition lock_info :: "bool \<Rightarrow> unlockFlag \<Rightarrow> lockStateInfo" where
  "lock_info locked f = \<lparr>Locked = locked, UnlockArmed = Armed f \<and> OwnerUID f \<ge> 1000, UnlockCount = Count f\<rparr>"

lemma wp_look_closed:
  assumes vp: "volume_paths cfg D E" and la: "layout D E" and dev: "device D E (root w)"
    and f: "f = stored (E @ [''state'']) (root w)" "Armed f" "Phase f = unlockPhaseVerityOff"
    and r: "root w1 = root w" "quiet w1 = quiet w" "events w1 = ReadLockBit (Inr False) # events w"
  shows "wp (do { _ \<leftarrow> finalizeUnlockFlag cfg f; readUnlockFlag cfg }) (\<lambda>f'. look_outcome cfg D E w (lock_info False f')) w1"
  unfolding finalize_closed
proof (rule wp_step [OF wp_write_moved [OF vp la dev flag_ok_closed r(1,2)]], goal_cases)
  case 1
  show ?case using f(1) by simp
next
  case (2 e w2)
  then have m: "flag_moved cfg D E (closed_flag f) (e = None) w w2" and ev: "events w2 = events w1" by simp_all
  have esp: "esp_state (E @ [''state'']) (root w2)" using m by (simp add: flag_moved_def device_def Let_def)
  show ?case
  proof (rule wp_mono [OF wp_readUnlockFlag [OF flag_paths_volume [OF vp] esp]], goal_cases)
    case (1 f' w3)
    then have r3: "root w3 = root w2" "quiet w3 = quiet w2" "events w3 = events w1" using ev by (auto dest: tickedD)
    have "f' = zeroFlag \<or> f' = f \<or> f' = closed_flag f"
      using 1 m f(1) by (auto simp: flag_moved_def Let_def)
    then have "Armed f \<and> 1000 \<le> OwnerUID f" if "Armed f'" "1000 \<le> OwnerUID f'"
      using that by (auto simp: zeroFlag_def closed_flag_def)
    then show ?case
      using 1 m f(2,3) unfolding look_outcome_def flag_moved_def lock_info_def Let_def r3 r f(1) [symmetric] by simp
  qed
qed

lemma wp_LockState:
  assumes sm: "crypto_seam D sm" and vp: "volume_paths cfg D E" and la: "layout D E" and dev: "device D E (root w)"
  shows "wp (LockState sm cfg) (look_outcome cfg D E w) w"
  unfolding LockState_def
proof (rule wp_step [OF crypto_seam.wp_readLockBit [OF sm]], goal_cases)
  case (1 v w1)
  let ?S = "E @ [''state'']"
  define locked where "locked = (case v of Inl _ \<Rightarrow> True | Inr v \<Rightarrow> v)"
  have lv: "locked \<longleftrightarrow> v \<noteq> Inr False" by (auto simp: locked_def split: sum.split)
  from 1 have r1: "root w1 = root w" "quiet w1 = quiet w" "events w1 = ReadLockBit v # events w" by (auto simp: quiet_def)
  have esp: "esp_state ?S (root w1)" using dev r1 by (simp add: device_def)
  show ?case
    unfolding Let_def locked_def [symmetric] lock_info_def [symmetric]
  proof (rule wp_step [OF wp_readUnlockFlag [OF flag_paths_volume [OF vp] esp]], goal_cases)
    case (1 f w2)
    then have f: "f = zeroFlag \<or> f = stored ?S (root w)" "quiet w \<longrightarrow> f = stored ?S (root w)"
      and r2: "root w2 = root w" "quiet w2 = quiet w" "events w2 = ReadLockBit v # events w"
      using r1 by (auto dest: tickedD)
    have "wp (if \<not> locked \<and> Armed f \<and> Phase f = unlockPhaseVerityOff
          then do { _ \<leftarrow> finalizeUnlockFlag cfg f; readUnlockFlag cfg } else return f)
        (\<lambda>f'. look_outcome cfg D E w (lock_info locked f')) w2"
    proof (rule wp_ifI)
      assume c: "\<not> locked \<and> Armed f \<and> Phase f = unlockPhaseVerityOff"
      then show "wp (do { _ \<leftarrow> finalizeUnlockFlag cfg f; readUnlockFlag cfg }) (\<lambda>f'. look_outcome cfg D E w (lock_info locked f')) w2"
        using wp_look_closed [OF vp la dev _ _ _ r2(1,2), of f] f(1) lv r2(3) by (auto simp: zeroFlag_def)
    next
      assume c: "\<not> (\<not> locked \<and> Armed f \<and> Phase f = unlockPhaseVerityOff)"
      have "Armed (stored ?S (root w)) \<and> 1000 \<le> OwnerUID (stored ?S (root w))" if "Armed f" "1000 \<le> OwnerUID f"
        using f(1) that by (auto simp: zeroFlag_def)
      then show "wp (return f) (\<lambda>f'. look_outcome cfg D E w (lock_info locked f')) w2"
        using dev f(2) lv c unfolding look_outcome_def lock_info_def Let_def wp_return r2 by auto
    qed
    then show ?case by (rule wp_step) (simp add: wp_return)
  qed
qed

section \<open>Any sequence of operations\<close>

datatype lock_op = OpLockState | OpArm bool int | OpUnlock string string

fun run_op :: "'x seam \<Rightarrow> config \<Rightarrow> lock_op \<Rightarrow> ('x, unit) io" where
  "run_op sm cfg OpLockState = do { _ \<leftarrow> LockState sm cfg; return () }"
| "run_op sm cfg (OpArm armed uid) = do { _ \<leftarrow> ArmUnlockForOwner sm cfg armed uid; return () }"
| "run_op sm cfg (OpUnlock confirm pin) = do { _ \<leftarrow> UnlockBootloader sm cfg confirm pin; return () }"

fun run_ops :: "'x seam \<Rightarrow> config \<Rightarrow> lock_op list \<Rightarrow> ('x, unit) io" where
  "run_ops sm cfg [] = return ()"
| "run_ops sm cfg (op # ops) = do { _ \<leftarrow> run_op sm cfg op; run_ops sm cfg ops }"

fun op_ok :: "lock_op \<Rightarrow> bool" where
  "op_ok (OpArm armed uid) = is_int64 uid"
| "op_ok _ = True"

text \<open>\<open>consented\<close>: the flag went along the machine, with losses only where calls fail.\<close>

definition consented :: "string list \<Rightarrow> string list \<Rightarrow> 'x world \<Rightarrow> 'x world \<Rightarrow> bool" where
  "consented D E w w' \<longleftrightarrow> device D E (root w') \<and> quiet w' = quiet w
     \<and> (quiet w \<longrightarrow> consent_step\<^sup>*\<^sup>* (stored (E @ [''state'']) (root w)) (stored (E @ [''state'']) (root w')))
     \<and> lossy_step\<^sup>*\<^sup>* (stored (E @ [''state'']) (root w)) (stored (E @ [''state'']) (root w'))"

lemma consentedI:
  assumes "device D E (root w')" and "quiet w' = quiet w"
    and "consent_step\<^sup>*\<^sup>* (stored (E @ [''state'']) (root w)) (stored (E @ [''state'']) (root w'))"
  shows "consented D E w w'"
  using assms lossy_reach [OF assms(3)] by (simp add: consented_def)

lemma transacted:
  assumes "eligible f"
  shows "consent_step\<^sup>*\<^sup>* f (f\<lparr>Phase := unlockPhaseVerityOff\<rparr>)"
    and "consent_step\<^sup>*\<^sup>* f (closed_flag (f\<lparr>Phase := unlockPhaseVerityOff\<rparr>))"
proof -
  show a: "consent_step\<^sup>*\<^sup>* f (f\<lparr>Phase := unlockPhaseVerityOff\<rparr>)"
  proof (cases "Phase f = []")
    case True
    with assms show ?thesis by (intro r_into_rtranclp transact) (simp_all add: eligible_def)
  next
    case False
    with assms have "f\<lparr>Phase := unlockPhaseVerityOff\<rparr> = f" by (cases f) (simp add: eligible_def)
    then show ?thesis by simp
  qed
  have "unlockPhaseVerityOff \<noteq> []" by (simp add: unlockPhaseVerityOff_def)
  then have "consent_step (f\<lparr>Phase := unlockPhaseVerityOff\<rparr>) (closed_flag (f\<lparr>Phase := unlockPhaseVerityOff\<rparr>))"
    by (intro close) simp
  with a show "consent_step\<^sup>*\<^sup>* f (closed_flag (f\<lparr>Phase := unlockPhaseVerityOff\<rparr>))" by (rule rtranclp.rtrancl_into_rtrancl)
qed

lemma unlock_consented:
  assumes o: "unlock_outcome cfg D E w r w'"
  shows "consented D E w w'"
proof (cases "eligible (stored (E @ [''state'']) (root w))")
  case True
  let ?f = "stored (E @ [''state'']) (root w)" and ?f' = "stored (E @ [''state'']) (root w')"
  from o have dev: "device D E (root w')" "quiet w' = quiet w"
    unfolding unlock_outcome_def Let_def by blast+
  from o have "?f' = ?f \<or> ?f' = ?f\<lparr>Phase := unlockPhaseVerityOff\<rparr>
      \<or> ?f' = closed_flag (?f\<lparr>Phase := unlockPhaseVerityOff\<rparr>) \<or> \<not> quiet w \<and> ?f' = zeroFlag"
    unfolding unlock_outcome_def Let_def by (cases "fst r"; cases "quiet w") auto
  then consider "consent_step\<^sup>*\<^sup>* ?f ?f'" | "\<not> quiet w" "?f' = zeroFlag"
    using transacted [OF True] by (metis rtranclp.rtrancl_refl)
  then show ?thesis
  proof cases
    case 1
    with dev show ?thesis by (rule consentedI)
  next
    case 2
    with dev lossy_zero show ?thesis by (simp add: consented_def r_into_rtranclp)
  qed
next
  case False
  with o have "root w' = root w" "quiet w' = quiet w" "device D E (root w')"
    unfolding unlock_outcome_def Let_def by blast+
  then show ?thesis by (simp add: consented_def)
qed

lemma look_consented:
  assumes o: "look_outcome cfg D E w r w'"
  shows "consented D E w w'"
proof -
  let ?f = "stored (E @ [''state'']) (root w)" and ?f' = "stored (E @ [''state'']) (root w')"
  have ne: "unlockPhaseVerityOff \<noteq> []" by (simp add: unlockPhaseVerityOff_def)
  from o have dev: "device D E (root w')" "quiet w' = quiet w"
    unfolding look_outcome_def Let_def by blast+
  from o have "?f' = ?f \<or> Phase ?f = unlockPhaseVerityOff \<and> ?f' = closed_flag ?f"
    unfolding look_outcome_def Let_def by blast
  then have "consent_step\<^sup>*\<^sup>* ?f ?f'" using close [of ?f] ne by (elim disjE conjE) simp_all
  with dev show ?thesis by (rule consentedI)
qed

lemma arm_consented:
  assumes o: "arm_outcome cfg D E armed uid w r w'" and uid: "is_int64 uid" and dev: "device D E (root w)"
  shows "consented D E w w'"
proof -
  let ?f = "stored (E @ [''state'']) (root w)" and ?f' = "stored (E @ [''state'']) (root w')"
  from o obtain f v where f: "f = zeroFlag \<or> f = ?f" "quiet w \<longrightarrow> f = ?f"
    and "events w' = lock_asked armed f v @ events w"
    and c: "case arm_spec armed uid (v = Inr False) f of
      None \<Rightarrow> \<not> fst r \<and> root w' = root w \<and> quiet w' = quiet w | Some g \<Rightarrow> flag_moved cfg D E g (fst r) w w'"
    by (rule arm_outcomeE)
  show ?thesis
  proof (cases "arm_spec armed uid (v = Inr False) f")
    case None
    with c dev show ?thesis by (simp add: consented_def)
  next
    case (Some g)
    with c have "flag_moved cfg D E g (fst r) w w'" by simp
    then have m: "device D E (root w')" "quiet w' = quiet w" "?f' = ?f \<or> ?f' = g"
      unfolding flag_moved_def Let_def by blast+
    have "consent_step f g" by (rule arm_spec_step [OF Some uid])
    then have "lossy_step ?f g" and "quiet w \<longrightarrow> consent_step ?f g" using f by (auto simp: lossy_step_def)
    with m(1,2) show ?thesis using m(3) unfolding consented_def by (metis r_into_rtranclp rtranclp.rtrancl_refl)
  qed
qed

lemma wp_run_op:
  assumes sm: "crypto_seam D sm" and vp: "volume_paths cfg D E" and la: "layout D E" and dev: "device D E (root w)"
    and op: "op_ok op"
  shows "wp (run_op sm cfg op) (\<lambda>_. consented D E w) w"
proof (cases op)
  case OpLockState
  show ?thesis unfolding OpLockState run_op.simps
    by (rule wp_step [OF wp_LockState [OF sm vp la dev]]) (simp add: wp_return look_consented)
next
  case (OpArm armed uid)
  with op have uid: "is_int64 uid" by simp
  show ?thesis unfolding OpArm run_op.simps
    by (rule wp_step [OF wp_ArmUnlockForOwner [OF sm vp la dev uid]]) (simp add: wp_return arm_consented [OF _ uid dev])
next
  case (OpUnlock confirm pin)
  show ?thesis unfolding OpUnlock run_op.simps
    by (rule wp_step [OF wp_UnlockBootloader_device [OF sm vp la dev]]) (simp add: wp_return unlock_consented)
qed

lemma wp_run_ops:
  assumes sm: "crypto_seam D sm" and vp: "volume_paths cfg D E" and la: "layout D E"
  shows "device D E (root w) \<Longrightarrow> list_all op_ok ops \<Longrightarrow> wp (run_ops sm cfg ops) (\<lambda>_. consented D E w) w"
proof (induction ops arbitrary: w)
  case Nil
  then show ?case by (simp add: wp_return consented_def)
next
  case (Cons op ops)
  then have op: "op_ok op" and ops: "list_all op_ok ops" by simp_all
  show ?case
    unfolding run_ops.simps
  proof (rule wp_step [OF wp_run_op [OF sm vp la Cons.prems(1) op]], goal_cases)
    case (1 u w1)
    then have "device D E (root w1)" by (simp add: consented_def)
    from Cons.IH [OF this ops] show ?case
      by (rule wp_mono) (use 1 in \<open>auto simp: consented_def\<close>)
  qed
qed

end
