(* ===== verification/ExampleAgent.thy ===== *)
theory ExampleAgent
  imports Consent
begin

text \<open>
  A small agent behind the seam, and the installation of \<open>DataWipe\<close> with the owner's consent on it:
  the concrete device on which the theorems about the lock are tried.
\<close>

section \<open>An agent\<close>

text \<open>A TPM with the two bits, the owner's PIN 2468, and key custody under \<open>/var/lib/sinty\<close>.\<close>

record tpm =
  tpm_locked :: bool
  tpm_verity_off :: bool

definition ok_proc :: "string \<Rightarrow> proc_result" where
  "ok_proc out = \<lparr>proc_stdout = out, proc_combined = out, proc_err = None\<rparr>"

definition failed_proc :: proc_result where
  "failed_proc = \<lparr>proc_stdout = [], proc_combined = [], proc_err = Some (ExitError ''exit status 1'')\<rparr>"

definition ex_custody :: "string list" where
  "ex_custody = [''var''] @ custody_dir"

definition empty_custody :: "inode \<Rightarrow> inode" where
  "empty_custody r =
     (case lookup r ex_custody of Some (Dir d es) \<Rightarrow> put ex_custody (Some (Dir d [])) r | _ \<Rightarrow> r)"

definition ex_exec :: "tpm exec" where
  "ex_exec args inp =
     (if args ! 1 = ''lock-state'' then
        gets (\<lambda>w. ok_proc (if tpm_locked (ext w) then ''version=1\<newline>locked=true\<newline>'' else ''version=1\<newline>locked=false\<newline>''))
      else if args ! 1 = ''verity-state'' then
        gets (\<lambda>w. ok_proc (if tpm_verity_off (ext w) then ''verity=off\<newline>'' else ''verity=on\<newline>''))
      else if args ! 1 = ''verify-pin'' then return (if inp = ''2468\<newline>'' then ok_proc [] else failed_proc)
      else if args ! 1 = ''disable-verity'' then
        do { modify (ext_update (tpm_verity_off_update (\<lambda>_. True))); return (ok_proc []) }
      else if args ! 1 = ''set-unlock'' then
        do { modify (ext_update (tpm_locked_update (\<lambda>_. False))); return (ok_proc []) }
      else if args ! 1 = ''wipe-var'' then do { modify (root_update empty_custody); return (ok_proc []) }
      else return failed_proc)"

definition ex_seam :: "tpm seam" where
  "ex_seam = EnableSintykeyCrypto ex_exec []"

lemma custody_change_empty: "custody_change [''var''] r (empty_custody r)"
proof (cases "is_dir (lookup r ex_custody)")
  case True
  then obtain d es where l: "lookup r ex_custody = Some (Dir d es)" by (rule is_dirE)
  have "is_dir (Some (Dir d [])) \<and> wf_tree (Dir d [])" by (simp add: is_dir_def)
  then show ?thesis
    unfolding empty_custody_def custody_change_def l option.case inode.case
    using l unfolding ex_custody_def by (intro disjI2 exI [of _ "Dir d es"] exI [of _ "Some (Dir d [])"]) simp
next
  case False
  then have "empty_custody r = r"
    unfolding empty_custody_def is_dir_def by (simp split: option.splits inode.splits)
  then show ?thesis by (simp add: custody_change_def)
qed

lemma confined_gets: "confined (gets f)"
  unfolding confined_def wp_gets using ext_same(1) by blast

lemma confined_ext: "confined (modify (ext_update f))"
  unfolding confined_def wp_modify by (metis world.update_convs(2) world.surjective world.ext_inject world.fold_congs(2))

interpretation ex: sintykey_program "[''var'']" ex_exec "[]"
proof unfold_locales
  fix sub bin inp and args :: "string list" and w :: "tpm world"
  show "confined (ex_exec (bin # sub # args) inp)"
    if "sub \<in> {''lock-state'', ''verity-state'', ''verify-pin'', ''set-unlock'', ''disable-verity''}"
    using that by (auto simp: ex_exec_def intro!: confined_gets confined_bind confined_ext)
  have "root_update empty_custody w = w\<lparr>ext := ext w, root := empty_custody (root w)\<rparr>" by (cases w) simp
  then have "\<exists>x r. root_update empty_custody w = w\<lparr>ext := x, root := r\<rparr> \<and> custody_change [''var''] (root w) r"
    using custody_change_empty by blast
  then show "wp (ex_exec [bin, ''wipe-var''] [])
      (\<lambda>_ w'. \<exists>x r. w' = w\<lparr>ext := x, root := r\<rparr> \<and> custody_change [''var''] (root w) r) w"
    by (simp add: ex_exec_def wp_simps)
qed

definition ex_armed :: string where
  "ex_armed = ''{\"armed\":true,\"count\":4,\"owner_uid\":1000}''"

definition ex_start :: "(nat \<Rightarrow> bool) \<Rightarrow> tpm world" where
  "ex_start flt = ex_world \<lparr>tpm_locked = True, tpm_verity_off = False\<rparr> ex_armed flt"

lemma ex_crypto: "crypto_seam [''var''] ex_seam"
  unfolding ex_seam_def by (rule ex.enabled.crypto_seam_axioms)

lemma ex_layout: "layout [''var''] [''efi'']"
  by code_simp

lemma ex_device: "device [''var''] [''efi''] (root (ex_start flt))"
  by code_simp

lemma ex_flag: "stored ([''efi''] @ [''state'']) (root (ex_start flt)) = \<lparr>Armed = True, Count = 4, OwnerUID = 1000, Phase = []\<rparr>"
  by code_simp

lemma ex_quiet: "quiet (ex_start (\<lambda>t. False))"
  by (simp add: quiet_def ex_start_def ex_world_def)

lemma ex_no_temps: "no_temps ([''efi''] @ [''state'']) (root (ex_start flt))"
  by (simp add: no_temps_def ex_start_def ex_world_def ex_root_def temp_name_def)

lemma ex_flag_paths: "flag_paths ex_cfg ([''efi''] @ [''state''])"
  by (rule flag_paths_volume [OF ex_paths])

lemma ex_esp_state: "esp_state ([''efi''] @ [''state'']) (root (ex_start flt))"
  using ex_device by (simp add: device_def)

lemma ex_run: "run_state m w = ((fst (fst (run_state m w)), snd (fst (run_state m w))), snd (run_state m w))"
  by simp

end
