(* ===== verification/Unlock.thy ===== *)
theory Unlock
  imports ExampleAgent
begin

text \<open>
  The theorems about the bootloader lock: the unlock with everything it does to the device, the
  consent flag on disk, the consent machine, and the agent's answers.
\<close>

section \<open>The unlock\<close>

text \<open>C1. An unlock calls the agent exactly in the order of its script, which is fixed by the stored
  flag: check the owner's PIN, turn verity off, confirm that, wipe, flip the lock bit; a recorded
  transaction is resumed with the confirmation.  A call whose result is not the required one is the
  last.  The unlock succeeds if and only if the whole script ran.  Without the owner's consent, or
  without the typed confirmation, nothing is called.\<close>

theorem UnlockBootloader_order:
  assumes "flag_paths cfg S" and "esp_state S (root w)" and "silent_seam sm"
    and "run_state (UnlockBootloader sm cfg confirm pin) w = ((ok, msg), w')"
  shows "\<exists>es. events w' = rev es @ events w
     \<and> (if confirm = ''UNLOCK'' then follows (unlock_script (stored S (root w)) pin) es else es = [])
     \<and> (ok \<longleftrightarrow> es \<noteq> [] \<and> es = unlock_script (stored S (root w)) pin)"
  using wp_runD [OF wp_UnlockBootloader_order [OF assms(1-3)] assms(4)] by (simp add: since_def)

lemma ex_unlock: "fst (fst (run_state (UnlockBootloader ex_seam ex_cfg ''UNLOCK'' ''2468'') (ex_start (\<lambda>t. False))))"
  by code_simp

theorem UnlockBootloader_order_witness:
  "events (snd (run_state (UnlockBootloader ex_seam ex_cfg ''UNLOCK'' ''2468'') (ex_start (\<lambda>t. False))))
   = rev [VerifyPIN 1000 ''2468'' (Inr True), DisableVerity None, ReadVerityOff (Inr True), WipeVar None, SetUnlockBit None]"
proof -
  have e: "events (ex_start (\<lambda>t. False)) = []" by (simp add: ex_start_def ex_world_def)
  let ?r = "run_state (UnlockBootloader ex_seam ex_cfg ''UNLOCK'' ''2468'') (ex_start (\<lambda>t. False))"
  obtain es where "events (snd ?r) = rev es" and "fst (fst ?r) \<longrightarrow> es = unlock_script \<lparr>Armed = True, Count = 4, OwnerUID = 1000, Phase = []\<rparr> ''2468''"
    using UnlockBootloader_order [OF ex_flag_paths ex_esp_state seam_silent [OF ex_crypto] ex_run, of "''UNLOCK''" "''2468''" "\<lambda>t. False"]
    unfolding e ex_flag by auto
  then show ?thesis using ex_unlock by (simp add: unlock_script_def begin_script_def wipe_script_def)
qed



text \<open>C3. An unlock that fails, wherever that is and whatever stops working from then on, leaves a
  device on which it can be tried again: the volume is valid if it was, and the stored flag is the
  old one or the old one with the transaction recorded.  Nothing of the user's is lost unless the
  agent has confirmed that verity is off.\<close>

theorem UnlockBootloader_failure_safe:
  assumes "crypto_seam D sm" and "volume_paths cfg D E" and "layout D E" and "device D E (root w)"
    and "run_state (UnlockBootloader sm cfg confirm pin) w = ((False, msg), w')"
  shows "device D E (root w')
     \<and> (valid_volume cfg D E (root w) \<longrightarrow> valid_volume cfg D E (root w'))
     \<and> stored (E @ [''state'']) (root w') \<in>
         {stored (E @ [''state'']) (root w), (stored (E @ [''state'']) (root w))\<lparr>Phase := unlockPhaseVerityOff\<rparr>}
     \<and> (user_data_kept D (root w) (root w') \<or> (\<exists>es. events w' = es @ events w \<and> ReadVerityOff (Inr True) \<in> set es))"
proof -
  have o: "unlock_outcome cfg D E w (False, msg) w'"
    by (rule wp_runD [OF wp_UnlockBootloader_device [OF assms(1-4)] assms(5)])
  have "user_data_kept D (root w) (root w') \<or> (\<exists>es. since w es w' \<and> ReadVerityOff (Inr True) \<in> set es)"
    by (rule wp_runD [OF wp_UnlockBootloader_data [OF assms(1-4)] assms(5)])
  then have "user_data_kept D (root w) (root w') \<or> (\<exists>es. events w' = es @ events w \<and> ReadVerityOff (Inr True) \<in> set es)"
    unfolding since_def by (metis set_rev)
  with o show ?thesis unfolding unlock_outcome_def Let_def fst_conv by blast
qed

text \<open>The power fails in the middle of the wipe.\<close>

lemma ex_power_loss: "\<not> fst (fst (run_state (UnlockBootloader ex_seam ex_cfg ''UNLOCK'' ''2468'') (ex_start (\<lambda>t. 45 \<le> t))))"
  by code_simp

theorem UnlockBootloader_failure_safe_witness:
  "let w' = snd (run_state (UnlockBootloader ex_seam ex_cfg ''UNLOCK'' ''2468'') (ex_start (\<lambda>t. 45 \<le> t))) in
   device [''var''] [''efi''] (root w') \<and> Count (stored [''efi'', ''state''] (root w')) = 4"
proof -
  let ?r = "run_state (UnlockBootloader ex_seam ex_cfg ''UNLOCK'' ''2468'') (ex_start (\<lambda>t. 45 \<le> t))"
  have r: "?r = ((False, snd (fst ?r)), snd ?r)" by (intro prod_eqI) (simp_all add: ex_power_loss)
  show ?thesis
    using UnlockBootloader_failure_safe [OF ex_crypto ex_paths ex_layout ex_device r]
    unfolding ex_flag by (auto simp: Let_def)
qed

section \<open>The consent flag\<close>

text \<open>C20. The consent flag survives being written and read back: what \<open>writeUnlockFlag\<close> encodes,
  \<open>readUnlockFlag\<close> decodes to the same flag, for every flag whose numbers are Go integers and whose
  phase is plain text.\<close>

theorem unlockFlag_roundtrip:
  assumes "is_int64 (Count f)" and "is_int64 (OwnerUID f)" and "list_all json_plain (Phase f)"
  shows "unmarshalFlag (marshalFlag f) = Some f"
  by (rule unmarshal_marshal) (simp add: flag_ok_def assms)

theorem unlockFlag_roundtrip_witness:
  "unmarshalFlag (marshalFlag \<lparr>Armed = True, Count = -7, OwnerUID = 1000, Phase = ''verity-off''\<rparr>)
   = Some \<lparr>Armed = True, Count = -7, OwnerUID = 1000, Phase = ''verity-off''\<rparr>"
  by (rule unlockFlag_roundtrip) (simp_all add: is_int64_def, code_simp)

text \<open>C19. Writing the flag is atomic: whichever calls fail, and also when the power is lost between
  any two of them, the flag on the system partition is the old one or the new one, and nothing else
  is different except temporary files; success means the new flag and no temporary file left.  It
  succeeds when no call fails and no temporary file is in the way.\<close>

theorem writeUnlockFlag_atomic:
  assumes cfg: "flag_paths cfg S" and S: "lookup (root w) S = Some (Dir d es)"
    and m: "\<not> is_dir (map_of es flag_name)"
    and run: "run_state (writeUnlockFlag cfg f) w = (e, w')"
  shows "\<exists>es'. root w' = put S (Some (Dir d es')) (root w)
     \<and> map_of es' flag_name \<in> {map_of es flag_name, Some (Reg d (marshalFlag f))}
     \<and> (\<forall>c. c \<noteq> flag_name \<longrightarrow> \<not> is_temp c \<longrightarrow> map_of es' c = map_of es c)
     \<and> (e = None \<longrightarrow> map_of es' = (map_of es)(flag_name \<mapsto> Reg d (marshalFlag f)))
     \<and> (quiet w \<and> (\<forall>k. map_of es (temp_name k) = None) \<longrightarrow> e = None)"
proof -
  obtain m' where dm: "dir_map S d m' w w'" and fw: "flag_written d (marshalFlag f) (map_of es) m' e"
      and q: "quiet w \<longrightarrow> (\<forall>k. map_of es (temp_name k) = None) \<longrightarrow> e = None"
    using wp_runD [OF wp_writeUnlockFlag [OF cfg S m] run] by (auto simp: flag_saved_def)
  from dm obtain es' t where w': "w' = w\<lparr>root := put S (Some (Dir d es')) (root w), tick := t\<rparr>" and m': "map_of es' = m'"
    unfolding dir_map_def by (elim exE conjE)
  show ?thesis
    by (rule exI [of _ es'], unfold m') (use fw q in \<open>simp add: w' flag_written_def\<close>)
qed

text \<open>The directory sync at the end fails: the new flag is in place, and the error is reported.\<close>

theorem writeUnlockFlag_atomic_witness:
  "\<exists>es'. root (snd (run_state (writeUnlockFlag ex_cfg zeroFlag) (ex_start (\<lambda>t. 6 \<le> t))))
       = put ([''efi''] @ [''state'']) (Some (Dir 3 es')) (root (ex_start (\<lambda>t. 6 \<le> t)))
     \<and> map_of es' flag_name \<in> {Some (Reg 3 ex_armed), Some (Reg 3 (marshalFlag zeroFlag))}"
proof -
  let ?es = "[(''install-id'', Reg 3 (ex_id @ ''\<newline>'')), (''unlock-armed'', Reg 3 ex_armed)]"
  have l: "lookup (root (ex_start (\<lambda>t. 6 \<le> t))) ([''efi''] @ [''state'']) = Some (Dir 3 ?es)"
    by (simp add: ex_start_def ex_world_def ex_root_def)
  have f: "map_of ?es flag_name = Some (Reg 3 ex_armed)" by (simp add: flag_name_def)
  then have "\<not> is_dir (map_of ?es flag_name)" by (simp add: is_dir_def)
  from writeUnlockFlag_atomic [OF ex_flag_paths l this prod.collapse [symmetric], of zeroFlag]
  show ?thesis unfolding f by blast
qed

section \<open>Consent\<close>

text \<open>C17. The public operations of the lock, called in any order and any number of times, move the
  stored consent flag only along the steps of the consent machine, as long as no file operation
  fails.  When operations do fail, a step may also start from the empty flag, which is what a failed
  read is taken for.  The device they leave is again one on which they can be called.\<close>

theorem lock_ops_refine_consent:
  assumes "crypto_seam D sm" and "volume_paths cfg D E" and "layout D E" and "device D E (root w)"
    and "list_all op_ok ops" and "run_state (run_ops sm cfg ops) w = (u, w')"
  shows "(quiet w \<longrightarrow> consent_step\<^sup>*\<^sup>* (stored (E @ [''state'']) (root w)) (stored (E @ [''state'']) (root w')))
     \<and> lossy_step\<^sup>*\<^sup>* (stored (E @ [''state'']) (root w)) (stored (E @ [''state'']) (root w'))
     \<and> device D E (root w')"
  using wp_runD [OF wp_run_ops [OF assms(1-5)] assms(6)] by (simp add: consented_def)

definition ex_ops :: "lock_op list" where
  "ex_ops = [OpArm True 1001, OpLockState, OpArm False 0]"

theorem lock_ops_refine_consent_witness:
  "consent_step\<^sup>*\<^sup>* \<lparr>Armed = True, Count = 4, OwnerUID = 1000, Phase = []\<rparr>
     (stored [''efi'', ''state''] (root (snd (run_state (run_ops ex_seam ex_cfg ex_ops) (ex_start (\<lambda>t. False))))))"
proof -
  have "list_all op_ok ex_ops" by (simp add: ex_ops_def is_int64_def)
  from lock_ops_refine_consent [OF ex_crypto ex_paths ex_layout ex_device this prod.collapse [symmetric]] ex_quiet
  show ?thesis unfolding ex_flag by simp
qed

text \<open>C18. The consent invariant: consent is given for a regular account (user id 1000 or above) or not at
  all, a transaction is recorded only while consent is given, and the recorded phase is the one the
  code knows.  If it holds of the stored flag, as it does when there is none, it holds after any
  sequence of operations of the lock, whichever reads and writes fail on the way.\<close>

theorem lock_ops_consent_invariant:
  assumes "crypto_seam D sm" and "volume_paths cfg D E" and "layout D E" and "device D E (root w)"
    and "list_all op_ok ops" and "run_state (run_ops sm cfg ops) w = (u, w')"
    and "consent_inv (stored (E @ [''state'']) (root w))"
  shows "consent_inv (stored (E @ [''state'']) (root w'))"
proof -
  have "lossy_step\<^sup>*\<^sup>* (stored (E @ [''state'']) (root w)) (stored (E @ [''state'']) (root w'))"
    using wp_runD [OF wp_run_ops [OF assms(1-5)] assms(6)] by (simp add: consented_def)
  from this assms(7) show ?thesis by (rule consent_inv_lossy)
qed

text \<open>Every third call fails.\<close>

theorem lock_ops_consent_invariant_witness:
  "consent_inv (stored [''efi'', ''state''] (root (snd (run_state (run_ops ex_seam ex_cfg ex_ops) (ex_start (\<lambda>t. t mod 3 = 0))))))"
proof -
  have o: "list_all op_ok ex_ops" by (simp add: ex_ops_def is_int64_def)
  have "consent_inv \<lparr>Armed = True, Count = 4, OwnerUID = 1000, Phase = []\<rparr>"
    by (simp add: consent_inv_def is_int64_def)
  with lock_ops_consent_invariant [OF ex_crypto ex_paths ex_layout ex_device o prod.collapse [symmetric], of "\<lambda>t. t mod 3 = 0"]
  show ?thesis unfolding ex_flag by simp
qed

text \<open>C21. \<open>ArmUnlockForOwner\<close> does what its specification says to the flag it read, which is the stored
  one, or the empty one if a call failed.  It refuses to arm for a user id below 1000 or over a
  transaction in progress.  To withdraw consent over a recorded transaction it asks the agent for the
  lock bit, and only then; it closes the transaction if the answer is that the device is unlocked, and
  refuses otherwise.  A refusal changes nothing.  In all other cases the new flag is stored, and no
  other file changes (but for temporary ones after a failure); success means that it is stored, and
  without failing calls and temporary files in the way it succeeds.  A failing write leaves the old
  flag or the new one.\<close>

theorem ArmUnlockForOwner_correct:
  assumes "crypto_seam D sm" and "volume_paths cfg D E" and "layout D E" and "device D E (root w)"
    and "is_int64 uid" and "run_state (ArmUnlockForOwner sm cfg armed uid) w = ((ok, msg), w')"
  shows "\<exists>f v. f \<in> {stored (E @ [''state'']) (root w)} \<union> (if quiet w then {} else {zeroFlag})
     \<and> events w' = (if \<not> armed \<and> Phase f \<noteq> [] then [ReadLockBit v] else []) @ events w
     \<and> (case arm_spec armed uid (v = Inr False) f of
          None \<Rightarrow> \<not> ok \<and> root w' = root w
        | Some g \<Rightarrow> untouched E (quiet w) (root w) (root w')
            \<and> stored (E @ [''state'']) (root w') \<in> {stored (E @ [''state'']) (root w), g}
            \<and> (ok \<longrightarrow> stored (E @ [''state'']) (root w') = g)
            \<and> (quiet w \<and> no_temps (E @ [''state'']) (root w) \<longrightarrow> ok))"
proof -
  have "arm_outcome cfg D E armed uid w (ok, msg) w'"
    by (rule wp_runD [OF wp_ArmUnlockForOwner [OF assms(1-5)] assms(6)])
  then obtain f v where f: "f = zeroFlag \<or> f = stored (E @ [''state'']) (root w)" "quiet w \<longrightarrow> f = stored (E @ [''state'']) (root w)"
      and v: "events w' = lock_asked armed f v @ events w"
      and c: "case arm_spec armed uid (v = Inr False) f of None \<Rightarrow> \<not> fst (ok, msg) \<and> root w' = root w \<and> quiet w' = quiet w
         | Some g \<Rightarrow> flag_moved cfg D E g (fst (ok, msg)) w w'"
    by (rule arm_outcomeE)
  show ?thesis
  proof (intro exI [of _ f] exI [of _ v] conjI)
    show "f \<in> {stored (E @ [''state'']) (root w)} \<union> (if quiet w then {} else {zeroFlag})" using f by auto
    show "events w' = (if \<not> armed \<and> Phase f \<noteq> [] then [ReadLockBit v] else []) @ events w"
      using v by (simp only: lock_asked_def)
    show "case arm_spec armed uid (v = Inr False) f of
          None \<Rightarrow> \<not> ok \<and> root w' = root w
        | Some g \<Rightarrow> untouched E (quiet w) (root w) (root w')
            \<and> stored (E @ [''state'']) (root w') \<in> {stored (E @ [''state'']) (root w), g}
            \<and> (ok \<longrightarrow> stored (E @ [''state'']) (root w') = g)
            \<and> (quiet w \<and> no_temps (E @ [''state'']) (root w) \<longrightarrow> ok)"
      using c by (cases "arm_spec armed uid (v = Inr False) f") (simp_all add: flag_moved_def Let_def)
  qed
qed

theorem ArmUnlockForOwner_correct_witness:
  "stored [''efi'', ''state''] (root (snd (run_state (ArmUnlockForOwner ex_seam ex_cfg True 1001) (ex_start (\<lambda>t. False)))))
   = \<lparr>Armed = True, Count = 4, OwnerUID = 1001, Phase = []\<rparr>"
proof -
  have "is_int64 1001" by (simp add: is_int64_def)
  from ArmUnlockForOwner_correct [OF ex_crypto ex_paths ex_layout ex_device this ex_run, of "\<lambda>t. False" True] ex_no_temps [of "\<lambda>t. False"] ex_quiet
  show ?thesis unfolding ex_flag by (auto simp: arm_spec_def armed_flag_def)
qed

text \<open>\<open>ArmUnlock\<close>, which knows no owner, can only withdraw consent: a request to give it is
  refused and changes nothing.\<close>

lemma ArmUnlock_refuses:
  "\<not> fst (fst (run_state (ArmUnlock sm cfg True) w)) \<and> root (snd (run_state (ArmUnlock sm cfg True) w)) = root w"
proof -
  have "wp (ArmUnlock sm cfg True) (\<lambda>r w'. \<not> fst r \<and> root w' = root w) w"
    unfolding ArmUnlock_def ArmUnlockForOwner_def readUnlockFlag_def os_ReadFile_def query_def
    by (simp add: wp_simps tick_root split: sum.split)
  then show ?thesis by (simp add: wp_def case_prod_beta)
qed

section \<open>Looking at the lock\<close>

text \<open>C22. The lock state fails closed: the device is reported unlocked only if the agent has just said
  so, and as armed only if the stored flag has consent of a regular account.  While locked, looking
  changes no file.  Otherwise it may close a recorded transaction of the flag, and it does close it
  when no call fails; consent without a transaction stays as it is, and so does every other file (but
  for temporary ones after a failure).  Without failing calls it reports what the flag then says.\<close>

theorem LockState_fails_closed:
  assumes "crypto_seam D sm" and "volume_paths cfg D E" and "layout D E" and "device D E (root w)"
    and "run_state (LockState sm cfg) w = (info, w')"
  shows "(\<exists>v. events w' = ReadLockBit v # events w \<and> (Locked info \<longleftrightarrow> v \<noteq> Inr False))
     \<and> (UnlockArmed info \<longrightarrow> Armed (stored (E @ [''state'']) (root w)) \<and> 1000 \<le> OwnerUID (stored (E @ [''state'']) (root w)))
     \<and> (Locked info \<longrightarrow> root w' = root w)
     \<and> untouched E (quiet w) (root w) (root w')
     \<and> (let f = stored (E @ [''state'']) (root w); f' = stored (E @ [''state'']) (root w');
             finished = (\<not> Locked info \<and> Armed f \<and> Phase f = unlockPhaseVerityOff) in
        (f' = f \<or> finished \<and> f' = closed_flag f)
        \<and> (quiet w \<and> no_temps (E @ [''state'']) (root w) \<and> finished \<longrightarrow> f' = closed_flag f)
        \<and> (quiet w \<longrightarrow> UnlockCount info = Count f' \<and> UnlockArmed info = (Armed f' \<and> 1000 \<le> OwnerUID f')))"
proof -
  have "look_outcome cfg D E w info w'"
    by (rule wp_runD [OF wp_LockState [OF assms(1-4)] assms(5)])
  then show ?thesis unfolding look_outcome_def Let_def by (elim conjE) (intro conjI, blast+)
qed

theorem LockState_fails_closed_witness:
  "root (snd (run_state (LockState crypto_stubs ex_cfg) (ex_start (\<lambda>t. False)))) = root (ex_start (\<lambda>t. False))
   \<and> Locked (fst (run_state (LockState crypto_stubs ex_cfg) (ex_start (\<lambda>t. False))))"
proof -
  have l: "Locked (fst (run_state (LockState crypto_stubs ex_cfg) (ex_start (\<lambda>t. False))))"
    by code_simp
  with LockState_fails_closed [OF stubs.crypto_seam_axioms ex_paths ex_layout ex_device prod.collapse [symmetric], of "\<lambda>t. False"]
  show ?thesis by (elim conjE) (intro conjI, simp_all)
qed

text \<open>C23. Without an agent nothing is ever unlocked: with the stubs the package starts with, the lock
  reads as locked whatever the flag says, and an unlock fails without touching the user's data.\<close>

theorem stubs_never_unlock:
  assumes "volume_paths cfg D E" and "layout D E" and "device D E (root w)"
  shows "Locked (fst (run_state (LockState crypto_stubs cfg) w))
     \<and> \<not> fst (fst (run_state (UnlockBootloader crypto_stubs cfg confirm pin) w))
     \<and> user_data_kept D (root w) (root (snd (run_state (UnlockBootloader crypto_stubs cfg confirm pin) w)))"
proof -
  have esp: "esp_state (E @ [''state'']) (root w)" using assms(3) by (simp add: device_def)
  note fp = flag_paths_volume [OF assms(1)]
  have lock: "wp (readLockBit crypto_stubs) (\<lambda>v w'. v \<noteq> Inr False) w1" for w1 :: "'a world"
    by (simp add: readLockBit_def logged_def crypto_stubs_def wp_simps)
  have "wp (LockState crypto_stubs cfg) (\<lambda>info _. Locked info) w"
    unfolding LockState_def by (rule wp_step [OF lock]) (auto simp: wp_simps wp_def Let_def case_prod_beta split: sum.split)
  moreover have pin: "wp (verifyPIN crypto_stubs uid p) (\<lambda>v w2. v \<noteq> Inr True \<and> root w2 = root w1) w1" for uid p and w1 :: "'a world"
    by (simp add: verifyPIN_def logged_def crypto_stubs_def wp_simps)
  have ver: "wp (readVerityOff crypto_stubs) (\<lambda>v w2. v \<noteq> Inr True \<and> root w2 = root w1) w1" for w1 :: "'a world"
    by (simp add: readVerityOff_def logged_def crypto_stubs_def wp_simps)
  let ?Q = "\<lambda>r w'. \<not> fst r \<and> root w' = root w"
  have stop: "wp (return (False, msg)) ?Q w1" if "root w1 = root w" for w1 :: "'a world" and msg :: string
    using that by (simp add: wp_return)
  have started: "wp (beginUnlock crypto_stubs cfg f pin) (\<lambda>e w2. e \<noteq> None \<and> root w2 = root w1) w1" for f and w1 :: "'a world"
    unfolding beginUnlock_def
    by (intro wp_ifI wp_step [OF pin]) (auto simp: wp_return split: sum.split)
  have "wp (UnlockBootloader crypto_stubs cfg confirm pin) ?Q w"
    unfolding UnlockBootloader_def
  proof (rule wp_ifI, rule stop [OF refl], rule wp_step [OF wp_readUnlockFlag [OF fp esp]], goal_cases)
    case (1 f w1)
    then have r1: "root w1 = root w" by (auto dest: tickedD)
    show ?case
      by (intro wp_ifI stop [OF r1] wp_step [OF started] wp_step [OF ver] wp_optionI) (use r1 in \<open>auto simp: wp_return\<close>)
  qed
  ultimately show ?thesis by (auto simp: wp_def case_prod_beta user_data_kept_def)
qed

theorem stubs_never_unlock_witness:
  "\<not> fst (fst (run_state (UnlockBootloader crypto_stubs ex_cfg ''UNLOCK'' ''2468'') (ex_start (\<lambda>t. False))))"
  using stubs_never_unlock [OF ex_paths ex_layout ex_device] by blast

section \<open>What the agent's answers can do\<close>

text \<open>C25. The answer of \<open>sintykey lock-state\<close> is not checked for being one of the two words it is
  documented to be: whatever stands after \<open>locked=\<close> on the first such line, other than \<open>true\<close>, makes
  \<open>LockState\<close> report the device as unlocked.  The comment on \<open>LockState\<close> promises that an unparseable
  read is reported as locked.\<close>

theorem LockState_trusts_garbage:
  assumes "bin \<noteq> []" and "run_state (exec [bin, ''lock-state''] []) w = (out, w1)" and "proc_err out = None"
    and "List.find (\<lambda>l. hasPrefix l ''locked='') (map trimSpace (scan_lines (proc_stdout out))) = Some (''locked='' @ t)"
    and "t \<noteq> ''true''"
  shows "\<not> Locked (fst (run_state (LockState (EnableSintykeyCrypto exec bin) cfg) w))"
proof -
  have "lockedLine (proc_stdout out) = Some False" using assms(4,5) by (simp add: lockedLine_find)
  then have "wp (readLockBit (EnableSintykeyCrypto exec bin)) (\<lambda>v _. v = Inr False) w"
    using assms(1-3) by (simp add: readLockBit_def logged_def EnableSintykeyCrypto_def sintykeyReadLockBit_def wp_simps wp_def)
  then have "wp (LockState (EnableSintykeyCrypto exec bin) cfg) (\<lambda>info _. \<not> Locked info) w"
    unfolding LockState_def by (rule wp_step) (simp add: wp_simps wp_def Let_def case_prod_beta)
  then show ?thesis by (simp add: wp_def case_prod_beta)
qed

text \<open>An agent that prints the word in capitals.\<close>

theorem LockState_trusts_garbage_witness:
  "\<not> Locked (fst (run_state (LockState (EnableSintykeyCrypto (\<lambda>_ _. return (ok_proc ''locked=TRUE\<newline>'')) ''sintykey'') ex_cfg)
     (ex_start (\<lambda>t. False))))"
proof -
  have lines: "scan_lines ''locked=TRUE\<newline>'' = [''locked=TRUE'']"
    by (simp add: scan_lines.simps scan_line_def drop_cr_def)
  have "trimSpace ''locked=TRUE'' = ''locked=TRUE''" "hasPrefix ''locked=TRUE'' ''locked=''" by code_simp+
  then have garbage: "List.find (\<lambda>l. hasPrefix l ''locked='') (map trimSpace (scan_lines (proc_stdout (ok_proc ''locked=TRUE\<newline>''))))
      = Some (''locked='' @ ''TRUE'')"
    by (simp add: ok_proc_def lines)
  show ?thesis by (rule LockState_trusts_garbage [OF _ _ _ garbage]) (simp_all add: ok_proc_def)
qed

section \<open>The count\<close>

text \<open>C26. The count of unlocks is documented as monotonic.  It is not when the read of the flag fails: on
  any device, whatever flag it has, arming that reports success after the failed read has stored the
  consent over an empty flag.  The count is zero then, and a recorded transaction is gone.\<close>

theorem ArmUnlock_loses_count:
  assumes "crypto_seam D sm" and "volume_paths cfg D E" and "layout D E" and "device D E (root w)"
    and "is_int64 uid" and "fault w (tick w)"
    and "run_state (ArmUnlockForOwner sm cfg True uid) w = ((True, msg), w')"
  shows "stored (E @ [''state'']) (root w') = \<lparr>Armed = True, Count = 0, OwnerUID = uid, Phase = []\<rparr>"
proof -
  let ?g = "zeroFlag\<lparr>Armed := True, OwnerUID := uid, Phase := []\<rparr>"
  have g: "flag_ok ?g" using assms(5) by (simp add: flag_ok_def zeroFlag_def is_int64_def)
  have "wp (ArmUnlockForOwner sm cfg True uid) (\<lambda>r w'. fst r \<longrightarrow> stored (E @ [''state'']) (root w') = ?g) w"
    unfolding ArmUnlockForOwner_def
  proof (rule wp_step [OF wp_readUnlockFlag_fault [OF assms(6)]], elim conjE, goal_cases)
    case (1 f w1)
    then have r: "root w1 = root w" "quiet w1 = quiet w" and f: "f = zeroFlag" by (auto dest: tickedD)
    note moved = wp_write_moved [OF assms(2-4) g r]
    show ?case
      unfolding f by (simp, intro conjI impI wp_guard [OF moved]) (auto simp: wp_return flag_moved_def Let_def zeroFlag_def)
  qed
  from wp_runD [OF this assms(7)] show ?thesis by (simp add: zeroFlag_def)
qed

text \<open>The stored count is four, and the read is the only call that fails.\<close>

lemma ex_lost: "fst (fst (run_state (ArmUnlockForOwner ex_seam ex_cfg True 1000) (ex_start (\<lambda>t. t = 0))))"
  by code_simp

theorem ArmUnlock_loses_count_witness:
  "Count (stored [''efi'', ''state''] (root (ex_start (\<lambda>t. t = 0)))) = 4
   \<and> Count (stored [''efi'', ''state''] (root (snd (run_state (ArmUnlockForOwner ex_seam ex_cfg True 1000) (ex_start (\<lambda>t. t = 0)))))) = 0"
proof -
  let ?r = "run_state (ArmUnlockForOwner ex_seam ex_cfg True 1000) (ex_start (\<lambda>t. t = 0))"
  have r: "?r = ((True, snd (fst ?r)), snd ?r)" by (intro prod_eqI) (simp_all add: ex_lost)
  have "fault (ex_start (\<lambda>t. t = 0)) (tick (ex_start (\<lambda>t. t = 0)))" by (simp add: ex_start_def ex_world_def)
  from ArmUnlock_loses_count [OF ex_crypto ex_paths ex_layout ex_device _ this r] ex_flag [of "\<lambda>t. t = 0"]
  show ?thesis by (simp add: is_int64_def)
qed

end
