(* ===== verification/ServeSafety.thy ===== *)
theory ServeSafety
  imports Serve Unlock
begin

text \<open>
  What the local API guarantees, whatever requests arrive and however their handlers and the
  background jobs interleave: the state shown to the user interface is well formed; a server under
  the runtime policy never touches anything but the consent flag, and gives consent only for an
  account whose PIN was accepted.  And what it does not: two jobs may run at the same time.
\<close>

lemma wp_on_sys [wp_simps]: "wp (on_sys m) Q = (\<lambda>s. wp m (\<lambda>a y. Q a (s\<lparr>sys := y\<rparr>)) (sys s))"
  by (simp add: wp_def on_sys_def fun_eq_iff case_prod_beta)

lemma guarantees_writeJSON [simp]: "guarantees R (writeJSON n v) s"
  by (simp add: writeJSON_def)

section \<open>The state shown to the user interface\<close>

definition ui_ok :: "uiState \<Rightarrow> bool" where
  "ui_ok u \<longleftrightarrow> uState u \<in> {0, 1, 2, 3, 4} \<and> uProgress u = (if uState u = 3 then 100 else -1)"

definition ui_step :: "'x shared \<Rightarrow> 'x shared \<Rightarrow> bool" where
  "ui_step s s' \<longleftrightarrow> (ui_ok (ui s) \<longrightarrow> ui_ok (ui s'))"

lemma ui_on_sys: "guarantees ui_step (atomic (on_sys m) k) s0 \<longleftrightarrow>
    (\<forall>s. ui_step s0 s \<longrightarrow> wp m (\<lambda>a y. guarantees ui_step (k a) (s\<lparr>sys := y\<rparr>)) (sys s))"
  by (simp add: guarantees_atomic wp_simps ui_step_def)

lemma ui_on_sysI: "(\<And>a s. guarantees ui_step (k a) s) \<Longrightarrow> guarantees ui_step (atomic (on_sys m) k) s0"
  by (simp add: ui_on_sys wp_def split: prod.split)

lemma ui_setI:
  "st \<in> {0, 1, 2, 3, 4} \<Longrightarrow> pr = (if st = 3 then 100 else -1) \<Longrightarrow> (\<And>s. guarantees ui_step (k ()) s) \<Longrightarrow>
     guarantees ui_step (atomic (set_ui st pr msg) k) s0"
  by (simp add: guarantees_atomic set_ui_def wp_simps ui_step_def ui_ok_def)

lemma ui_onlineI: "(\<And>s. guarantees ui_step (k ()) s) \<Longrightarrow> guarantees ui_step (atomic (setOnline v) k) s0"
  by (simp add: guarantees_atomic setOnline_def wp_simps ui_step_def ui_ok_def)

lemma ui_getsI: "(\<And>a s. guarantees ui_step (k a) s) \<Longrightarrow> guarantees ui_step (atomic (gets f) k) s0"
  by (simp add: guarantees_atomic wp_simps ui_step_def)

lemmas ui_intros = ui_on_sysI ui_setI ui_onlineI ui_getsI

lemma ui_handlers:
  "guarantees ui_step (scanHandler ev r) s" "guarantees ui_step (connectHandler ev r) s"
  "guarantees ui_step (statusHandler ev r) s" "guarantees ui_step (start verb fn r) s"
  "guarantees ui_step (lockStateHandler ev r) s" "guarantees ui_step (armUnlockHandler ev policy r) s"
  "guarantees ui_step (unlockHandler ev r) s"
  unfolding scanHandler_def connectHandler_def statusHandler_def start_def job_def lockStateHandler_def
    armUnlockHandler_def armWithPIN_def unlockHandler_def working_def snapshot_def
  by (auto intro!: ui_intros split: sum.split option.split prod.split)

lemma routes_cases:
  assumes "map_of (routes ev policy) k = Some h"
  obtains "h = scanHandler ev" | "h = connectHandler ev" | "h = statusHandler ev" | verb fn where "h = start verb fn"
    | "h = lockStateHandler ev" | "h = armUnlockHandler ev policy" | "h = unlockHandler ev"
  using assms by (auto simp: routes_def split: if_splits)

lemma mux_guarantees:
  assumes "\<And>k h s. map_of rs k = Some h \<Longrightarrow> guarantees R (h r) s"
  shows "guarantees R (mux rs r) s"
  using assms by (auto simp: mux_def split: option.split)

lemma ui_handler: "guarantees ui_step (newHandlerWithPolicy ev policy r) s"
proof -
  have "guarantees ui_step (mux (routes ev policy) r) s"
    by (rule mux_guarantees) (auto elim!: routes_cases intro: ui_handlers)
  then show ?thesis by (simp add: newHandlerWithPolicy_def)
qed

interpretation ui_server: served ui_step "newHandlerWithPolicy ev policy" for ev policy
  by unfold_locales (auto simp: ui_step_def transp_def ui_handler)

text \<open>C8. The state the user interface polls is always one it knows: idle, connecting, working, done or
  failed, with full progress exactly when done, and no progress otherwise.  This holds in every
  interleaving of any requests with the background jobs, and whatever the core, the staging library
  and the cryptographic functions do.\<close>

theorem served_ui_ok:
  assumes "(server_step (newHandlerWithPolicy ev policy))\<^sup>*\<^sup>* ([], \<lparr>ui = initialUI, sys = y\<rparr>) (ts, s)"
  shows "uState (ui s) \<in> {0, 1, 2, 3, 4} \<and> uProgress (ui s) = (if uState (ui s) = 3 then 100 else -1)"
  using ui_server.runs [OF assms] by (simp add: ui_step_def ui_ok_def initialUI_def)

section \<open>The runtime policy\<close>

text \<open>The primitives that cannot be undone.\<close>

fun harmless :: "event \<Rightarrow> bool" where
  "harmless (WipeVar r) = False"
| "harmless (SetUnlockBit r) = False"
| "harmless (DisableVerity r) = False"
| "harmless _ = True"

text \<open>
  \<open>policy_step\<close>: no file but the flag changed; no transaction was started; nothing irreversible was
  called; and consent that was not there before is for an account whose PIN the agent accepted, which
  is the one with the user id \<open>own\<close> if that is the id of a regular account.
\<close>

definition accepted :: "'x world \<Rightarrow> int \<Rightarrow> bool" where
  "accepted w uid \<longleftrightarrow> (\<exists>pin. VerifyPIN uid pin (Inr True) \<in> set (events w))"

definition consent_kept :: "int \<Rightarrow> 'x world \<Rightarrow> unlockFlag \<Rightarrow> unlockFlag \<Rightarrow> bool" where
  "consent_kept own w' f f' \<longleftrightarrow> (Phase f' = [] \<or> f' = f)
     \<and> (Armed f' \<longrightarrow> Armed f \<and> OwnerUID f' = OwnerUID f \<or> accepted w' (OwnerUID f') \<and> (1000 \<le> own \<longrightarrow> OwnerUID f' = own))"

definition policy_step :: "int \<Rightarrow> string list \<Rightarrow> string list \<Rightarrow> 'x world \<Rightarrow> 'x world \<Rightarrow> bool" where
  "policy_step own D E w w' \<longleftrightarrow> (\<exists>es. since w es w' \<and> list_all harmless es) \<and> (device D E (root w) \<longrightarrow>
     device D E (root w') \<and> quiet w' = quiet w \<and> untouched E (quiet w) (root w) (root w')
     \<and> consent_kept own w' (stored (E @ [''state'']) (root w)) (stored (E @ [''state'']) (root w')))"

lemma since_refl: "since w [] w"
  by (simp add: since_def)

lemma since_trans: "since w es w1 \<Longrightarrow> since w1 es' w2 \<Longrightarrow> since w (es @ es') w2"
  by (simp add: since_def)

lemma accepted_since: "accepted w uid \<Longrightarrow> since w es w' \<Longrightarrow> accepted w' uid"
  by (auto simp: accepted_def since_def)

lemma policy_step_refl: "policy_step own D E w w"
  unfolding policy_step_def consent_kept_def
  by (auto intro: exI [of _ "[]"] since_refl)

lemma consent_kept_trans:
  "consent_kept own w1 f g \<Longrightarrow> consent_kept own w2 g h \<Longrightarrow> since w1 es w2 \<Longrightarrow> consent_kept own w2 f h"
  using accepted_since [of w1 _ es w2] unfolding consent_kept_def by metis

lemma policy_step_trans:
  assumes "policy_step own D E w w1" and "policy_step own D E w1 w2"
  shows "policy_step own D E w w2"
proof -
  from assms obtain es es' where e: "since w es w1" "list_all harmless es" "since w1 es' w2" "list_all harmless es'"
    unfolding policy_step_def by blast
  have "since w (es @ es') w2 \<and> list_all harmless (es @ es')" using since_trans [OF e(1,3)] e(2,4) by simp
  moreover have "device D E (root w2) \<and> quiet w2 = quiet w \<and> untouched E (quiet w) (root w) (root w2)
      \<and> consent_kept own w2 (stored (E @ [''state'']) (root w)) (stored (E @ [''state'']) (root w2))" if d: "device D E (root w)"
  proof -
    from assms(1) d have 1: "device D E (root w1)" "untouched E (quiet w) (root w) (root w1)"
        "consent_kept own w1 (stored (E @ [''state'']) (root w)) (stored (E @ [''state'']) (root w1))"
      unfolding policy_step_def by blast+
    from assms(2) 1(1) have 2: "device D E (root w2)" "untouched E (quiet w1) (root w1) (root w2)"
        "consent_kept own w2 (stored (E @ [''state'']) (root w1)) (stored (E @ [''state'']) (root w2))"
      unfolding policy_step_def by blast+
    have q: "quiet w1 = quiet w" "quiet w2 = quiet w1"
      using assms d 1(1) unfolding policy_step_def by blast+
    show ?thesis
      unfolding q by (intro conjI 2(1) refl untouched_trans [OF 1(2) 2(2) [unfolded q]] consent_kept_trans [OF 1(3) 2(3) e(3)])
  qed
  ultimately show ?thesis unfolding policy_step_def by blast
qed

lemma look_policy: "look_outcome cf D E w info w' \<Longrightarrow> policy_step own D E w w'"
proof -
  assume o: "look_outcome cf D E w info w'"
  have "device D E (root w')" "quiet w' = quiet w" "untouched E (quiet w) (root w) (root w')"
    using o unfolding look_outcome_def Let_def by blast+
  moreover obtain v where v: "events w' = ReadLockBit v # events w" using o unfolding look_outcome_def Let_def by blast
  moreover have "stored (E @ [''state'']) (root w') = stored (E @ [''state'']) (root w)
      \<or> stored (E @ [''state'']) (root w') = closed_flag (stored (E @ [''state'']) (root w))"
    using o unfolding look_outcome_def Let_def by blast
  then have "consent_kept own w' (stored (E @ [''state'']) (root w)) (stored (E @ [''state'']) (root w'))"
    by (auto simp: consent_kept_def closed_flag_def)
  ultimately show ?thesis
    unfolding policy_step_def since_def by (auto intro!: exI [of _ "[ReadLockBit v]"])
qed

lemma wp_look_events:
  assumes "silent_seam sm"
  shows "wp (LockState sm cf) (\<lambda>_ w'. \<exists>es. since w es w' \<and> list_all harmless es) w"
proof -
  have "wp (readLockBit sm) (\<lambda>v w1. since w [ReadLockBit v] w1) w"
    using since_seam(1) [OF assms since_refl] by simp
  then show ?thesis
    unfolding LockState_def Let_def
  proof (rule wp_step, goal_cases)
    case (1 v w1)
    have "silent (do { f \<leftarrow> readUnlockFlag cf;
        f' \<leftarrow> (if \<not> l \<and> Armed f \<and> Phase f = unlockPhaseVerityOff
          then do { _ \<leftarrow> finalizeUnlockFlag cf f; readUnlockFlag cf } else return f);
        return \<lparr>Locked = l, UnlockArmed = Armed f' \<and> OwnerUID f' \<ge> 1000, UnlockCount = Count f'\<rparr> })" for l
      by (intro silent_intros)
    from since_silent [OF this 1] show ?case
      by (rule wp_mono) (auto intro!: exI [of _ "[ReadLockBit v]"])
  qed
qed

text \<open>Arming: the calls it makes, and its effect on the flag.\<close>

lemma wp_arm_events:
  assumes "silent_seam sm"
  shows "wp (ArmUnlockForOwner sm cf armed uid) (\<lambda>_ w'. \<exists>es. since w es w' \<and> list_all harmless es) w"
    (is "wp _ ?Q w")
proof -
  have stop: "wp (return r) ?Q w2" if "since w es w2" "list_all harmless es" for r w2 es
    using that by (auto simp: wp_return)
  have quiet_end: "wp (m \<bind> (\<lambda>e. case e of None \<Rightarrow> return r1 | Some err \<Rightarrow> return (r2 err))) ?Q w1"
    if "silent m" "since w es w1" "list_all harmless es" for m r1 r2 w1 es
    by (rule wp_step [OF since_silent [OF that(1,2)]]) (use that(3) in \<open>auto simp: wp_return split: option.split\<close>)
  have asked: "wp (readLockBit sm) (\<lambda>v w2. since w [ReadLockBit v] w2) w1" if "since w [] w1" for w1
    using since_seam(1) [OF assms that] by simp
  show ?thesis
    unfolding ArmUnlockForOwner_def
  proof (rule wp_step [OF since_silent [OF silent_flag(1) since_refl]], goal_cases)
    case (1 f w1)
    have q: "wp (readLockBit sm \<bind> (\<lambda>v. if v = Inr False then finalizeUnlockFlag cf f \<bind> (\<lambda>e. case e of
             None \<Rightarrow> return (True, ''Bootloader unlock transaction finalized.'')
           | Some err \<Rightarrow> return (False, ''cannot finalize unlock consent: '' @ error_text err))
          else return (False, ''The unlock transaction has started and must finish in recovery.''))) ?Q w1"
      by (rule wp_step [OF asked [OF 1]]) (intro wp_ifI quiet_end [OF silent_flag(3)] stop, assumption, simp, assumption, simp)
    show ?case
      by (intro wp_ifI stop [OF 1] quiet_end [OF silent_flag(2) 1] q) simp_all
  qed
qed

lemma arm_policy:
  assumes o: "arm_outcome cf D E armed uid w r w'" and ev: "\<exists>es. since w es w' \<and> list_all harmless es"
    and acc: "armed \<and> 1000 \<le> uid \<longrightarrow> accepted w uid \<and> (1000 \<le> own \<longrightarrow> uid = own)"
  shows "policy_step own D E w w'"
proof -
  let ?f = "stored (E @ [''state'']) (root w)" and ?f' = "stored (E @ [''state'']) (root w')"
  from o obtain f v where "f = zeroFlag \<or> f = ?f" and "quiet w \<longrightarrow> f = ?f" and "events w' = lock_asked armed f v @ events w"
    and c: "case arm_spec armed uid (v = Inr False) f of
      None \<Rightarrow> \<not> fst r \<and> root w' = root w \<and> quiet w' = quiet w | Some g \<Rightarrow> flag_moved cf D E g (fst r) w w'"
    by (rule arm_outcomeE)
  have acc': "armed \<and> 1000 \<le> uid \<longrightarrow> accepted w' uid \<and> (1000 \<le> own \<longrightarrow> uid = own)" using acc ev accepted_since by blast
  show ?thesis
  proof (cases "arm_spec armed uid (v = Inr False) f")
    case None
    with c have "root w' = root w" "quiet w' = quiet w" by simp_all
    then show ?thesis using ev by (simp add: policy_step_def consent_kept_def)
  next
    case (Some g)
    then have "Phase g = []" and "Armed g \<longrightarrow> armed \<and> 1000 \<le> uid \<and> OwnerUID g = uid"
      by (auto simp: arm_spec_def armed_flag_def disarmed_flag_def closed_flag_def split: if_splits)
    then have "consent_kept own w' ?f g" using acc' by (auto simp: consent_kept_def)
    moreover have "consent_kept own w' ?f ?f" by (simp add: consent_kept_def)
    moreover have "device D E (root w')" "quiet w' = quiet w" "untouched E (quiet w) (root w) (root w')" "?f' = ?f \<or> ?f' = g"
      using c Some unfolding flag_moved_def Let_def by simp_all
    ultimately show ?thesis using ev unfolding policy_step_def by metis
  qed
qed

text \<open>The files change along \<open>policy_step\<close>, and nothing else changes at all.\<close>

definition policy_shared :: "int \<Rightarrow> string list \<Rightarrow> string list \<Rightarrow> 'x shared \<Rightarrow> 'x shared \<Rightarrow> bool" where
  "policy_shared own D E s s' \<longleftrightarrow> policy_step own D E (disk (sys s)) (disk (sys s'))
     \<and> netw (sys s') = netw (sys s) \<and> ui s' = ui s"

lemma policy_shared_refl: "policy_shared own D E s s"
  by (simp add: policy_shared_def policy_step_refl)

lemma policy_shared_trans: "transp (policy_shared own D E)"
  by (rule transpI) (auto simp: policy_shared_def intro: policy_step_trans)

lemma policy_diskI:
  assumes "\<And>s. policy_shared own D E s0 s \<Longrightarrow>
     wp m (\<lambda>a w. policy_step own D E (disk (sys s)) w \<and>
       (\<forall>s'. disk (sys s') = w \<longrightarrow> guarantees (policy_shared own D E) (k a) s')) (disk (sys s))"
  shows "guarantees (policy_shared own D E) (atomic (on_sys (on_disk m)) k) s0"
proof (rule guarantees_atomicI, goal_cases)
  case (1 s)
  show ?case
    unfolding wp_on_sys wp_on_disk
    by (rule wp_mono [OF assms [OF 1]]) (simp add: policy_shared_def)
qed

locale runtime_server = crypto_seam D "crypto ev" for D :: "string list" and ev :: "'x env" +
  fixes E :: "string list" and policy :: HandlerPolicy
  assumes paths: "volume_paths (cfg (theCore ev)) D E" and lay: "layout D E"
    and uid64: "is_int64 (PolicyUID policy)" and runtime: "Runtime policy"
begin

lemma seam: "crypto_seam D (crypto ev)"
  by (rule crypto_seam_axioms)

lemma wp_look: "wp (LockState (crypto ev) (cfg (theCore ev))) (\<lambda>_ w'. policy_step (PolicyUID policy) D E w w') w"
proof (cases "device D E (root w)")
  case True
  show ?thesis by (rule wp_mono [OF wp_LockState [OF seam paths lay True]]) (rule look_policy)
next
  case False
  show ?thesis by (rule wp_mono [OF wp_look_events [OF seam_silent [OF seam]]]) (simp add: policy_step_def False)
qed

lemma wp_arm:
  assumes "is_int64 uid" and "armed \<and> 1000 \<le> uid \<longrightarrow> accepted w uid \<and> (1000 \<le> PolicyUID policy \<longrightarrow> uid = PolicyUID policy)"
  shows "wp (ArmUnlockForOwner (crypto ev) (cfg (theCore ev)) armed uid) (\<lambda>_ w'. policy_step (PolicyUID policy) D E w w') w"
proof (cases "device D E (root w)")
  case True
  note e = wp_arm_events [OF seam_silent [OF seam], of "cfg (theCore ev)" armed uid w]
  have "wp (ArmUnlockForOwner (crypto ev) (cfg (theCore ev)) armed uid)
      (\<lambda>r w'. arm_outcome (cfg (theCore ev)) D E armed uid w r w' \<and> (\<exists>es. since w es w' \<and> list_all harmless es)) w"
    unfolding wp_conj using wp_ArmUnlockForOwner [OF seam paths lay True assms(1)] e by simp
  then show ?thesis by (rule wp_mono) (use arm_policy assms(2) in blast)
next
  case False
  show ?thesis by (rule wp_mono [OF wp_arm_events [OF seam_silent [OF seam]]]) (simp add: policy_step_def False)
qed

lemma wp_pin:
  "wp (verifyPIN (crypto ev) uid pin) (\<lambda>v w'. policy_step (PolicyUID policy) D E w w' \<and> (v = Inr True \<longrightarrow> accepted w' uid)) w"
  by (rule wp_mono [OF wp_verifyPIN])
    (auto simp: policy_step_def since_def accepted_def consent_kept_def quiet_def intro: exI [of _ "[VerifyPIN uid pin v]" for v])

lemma armWithPIN_ok:
  assumes "is_int64 uid" and "1000 \<le> PolicyUID policy \<longrightarrow> uid = PolicyUID policy"
  shows "guarantees (policy_shared (PolicyUID policy) D E) (armWithPIN ev uid pin) s0"
proof -
  have arm: "guarantees (policy_shared (PolicyUID policy) D E)
      (atomic (on_sys (on_disk (ArmUnlockForOwner (crypto ev) (cfg (theCore ev)) True uid))) (\<lambda>(ok, msg). writeJSON 200 (okMessage ok msg))) s1"
    if "accepted (disk (sys s1)) uid" for s1 :: "'x shared"
  proof (rule policy_diskI, goal_cases)
    case (1 s)
    then have "accepted (disk (sys s)) uid" using that accepted_since by (auto simp: policy_shared_def policy_step_def)
    then show ?case using assms(2) by (intro wp_mono [OF wp_arm [OF assms(1)]]) (auto split: prod.split)
  qed
  show ?thesis
    unfolding armWithPIN_def
    by (auto intro!: policy_diskI wp_mono [OF wp_pin] arm split: sum.split)
qed

lemma armUnlock_ok: "guarantees (policy_shared (PolicyUID policy) D E) (armUnlockHandler ev policy r) s0"
proof -
  have z: "is_int64 0" by (simp add: is_int64_def)
  have peer: "is_int64 (uint w)" for w :: "32 word"
  proof -
    have "- (2 ^ 63) \<le> (0 :: int)" by simp
    also have "0 \<le> uint w" by simp
    finally show ?thesis using uint_lt2p [of w] by (simp add: is_int64_def)
  qed
  have o: "is_int64 uid" "1000 \<le> PolicyUID policy \<longrightarrow> uid = PolicyUID policy" if "armOwner policy r = Some uid" for uid
    using that uid64 peer by (cases "rConn r" rule: peerUID.cases; auto simp: armOwner_def split: if_splits)+
  show ?thesis
    unfolding armUnlockHandler_def ArmUnlock_def
    by (auto intro!: policy_diskI wp_mono [OF wp_look] wp_mono [OF wp_arm [OF z]] armWithPIN_ok o split: option.split prod.split)
qed

lemma lockState_ok: "guarantees (policy_shared (PolicyUID policy) D E) (lockStateHandler ev r) s0"
  unfolding lockStateHandler_def by (auto intro!: policy_diskI wp_mono [OF wp_look])

lemma runtime_ok: "guarantees (policy_shared (PolicyUID policy) D E) (newHandlerWithPolicy ev policy r) s"
proof -
  have c: "cleanURL ''/lock-state'' = ''/lock-state''" "cleanURL ''/arm-unlock'' = ''/arm-unlock''" by code_simp+
  show ?thesis
    using lockState_ok armUnlock_ok runtime
    by (auto simp: newHandlerWithPolicy_def mux_def routes_def c)
qed

end

sublocale runtime_server \<subseteq> served "policy_shared (PolicyUID policy) D E" "newHandlerWithPolicy ev policy"
  by unfold_locales (rule policy_shared_refl policy_shared_trans runtime_ok)+

context runtime_server
begin

lemmas runtime_runs = runs

end

text \<open>C4. A server under the runtime policy is safe to expose: whatever requests arrive, from whatever
  peers, and however their handlers interleave, no file but the consent flag changes (temporary files
  of writing it can stay behind only if file operations fail), the network is not used, no primitive
  that wipes, unlocks or disables verity is ever called, no unlock transaction is started; and if
  consent is given that was not there before, it is for an account whose PIN the agent accepted, and
  for the owner the policy names, if it names one.\<close>

theorem runtime_policy_safe:
  assumes "crypto_seam D (crypto ev)" and "volume_paths (cfg (theCore ev)) D E" and "layout D E"
    and "device D E (root (disk (sys s)))" and "Runtime policy" and "is_int64 (PolicyUID policy)"
    and "(server_step (newHandlerWithPolicy ev policy))\<^sup>*\<^sup>* ([], s) (ts, s')"
  shows "untouched E (quiet (disk (sys s))) (root (disk (sys s))) (root (disk (sys s'))) \<and> netw (sys s') = netw (sys s)
     \<and> (\<exists>es. since (disk (sys s)) es (disk (sys s')) \<and> list_all harmless es)
     \<and> (let f = stored (E @ [''state'']) (root (disk (sys s))); f' = stored (E @ [''state'']) (root (disk (sys s'))) in
        (Phase f' = [] \<or> f' = f)
        \<and> (Armed f' \<longrightarrow> Armed f \<and> OwnerUID f' = OwnerUID f
             \<or> (\<exists>pin. VerifyPIN (OwnerUID f') pin (Inr True) \<in> set (events (disk (sys s'))))
                \<and> (1000 \<le> PolicyUID policy \<longrightarrow> OwnerUID f' = PolicyUID policy)))"
proof -
  have "runtime_server D ev E policy"
    using assms(1-3,5,6) by (simp add: runtime_server_def runtime_server_axioms_def)
  from runtime_server.runtime_runs [OF this assms(7)] assms(4) show ?thesis
    unfolding policy_shared_def policy_step_def consent_kept_def accepted_def Let_def by blast
qed

section \<open>Requests that cannot be read\<close>

text \<open>C11. A body that does not hold a JSON value within the first 4096 bytes is answered with status 400
  on every route that takes one, and nothing is done: no action, no job, no change of any state.\<close>

theorem bad_body_refused:
  assumes "rMethod r = ''POST''" and "rPath r \<in> {''/connect'', ''/arm-unlock'', ''/unlock-bootloader''}"
    and "json_decode_body maxRequestBytes (rBody r) = None" and "\<not> Runtime policy \<or> rPath r = ''/arm-unlock''"
  shows "\<exists>body. newHandlerWithPolicy ev policy r = Halt (Some (JSON 400 body))"
proof -
  have c: "cleanURL ''/connect'' = ''/connect''" "cleanURL ''/arm-unlock'' = ''/arm-unlock''"
      "cleanURL ''/unlock-bootloader'' = ''/unlock-bootloader''" by code_simp+
  show ?thesis
    using assms c
    by (auto simp: newHandlerWithPolicy_def mux_def routes_def connectHandler_def armUnlockHandler_def
        unlockHandler_def decodeBody_def writeJSON_def)
qed

section \<open>Two jobs at the same time\<close>

definition postRequest :: "string \<Rightarrow> string \<Rightarrow> request" where
  "postRequest path body = \<lparr>rMethod = ''POST'', rPath = path, rBody = body, rConn = OtherConn, rCtx = background\<rparr>"

definition startedReply :: "bool \<Rightarrow> response" where
  "startedReply b = JSON 200 (json_print (JObj [(''started'', JBool b)]) @ ''\<newline>'')"

lemma post_routes:
  "newHandler ev (postRequest ''/reinstall'' b)
     = start ''Reinstalling'' (CoreReinstall (atomLib ev) (theCore ev) background) (postRequest ''/reinstall'' b)"
  "newHandler ev (postRequest ''/rollback'' b)
     = start ''Rolling back'' (CoreRollback (atomLib ev) (theCore ev)) (postRequest ''/rollback'' b)"
  "newHandler ev (postRequest ''/connect'' b) = connectHandler ev (postRequest ''/connect'' b)"
proof -
  have c: "cleanURL ''/reinstall'' = ''/reinstall''" "cleanURL ''/rollback'' = ''/rollback''"
    "cleanURL ''/connect'' = ''/connect''" by code_simp+
  note d = newHandler_def newHandlerWithPolicy_def postRequest_def mux_def routes_def c
  show "newHandler ev (postRequest ''/reinstall'' b)
     = start ''Reinstalling'' (CoreReinstall (atomLib ev) (theCore ev) background) (postRequest ''/reinstall'' b)"
    by (simp add: d)
  show "newHandler ev (postRequest ''/rollback'' b)
     = start ''Rolling back'' (CoreRollback (atomLib ev) (theCore ev)) (postRequest ''/rollback'' b)"
    by (simp add: d)
  show "newHandler ev (postRequest ''/connect'' b) = connectHandler ev (postRequest ''/connect'' b)"
    by (simp add: d)
qed

lemma body_postRequest [simp]: "rBody (postRequest p b) = b"
  by (simp add: postRequest_def)

lemmas run_simps = run_schedule_def start_def atomic_def working_def set_ui_def writeJSON_def startedReply_def initialUI_def

text \<open>C9. The check for a running job and the note that one has started are two steps, so the promise
  of one job at a time can be broken: of a reinstallation and a rollback requested together, both
  find the agent idle, both answer that they have started, and both run.\<close>

theorem start_overlaps:
  "\<exists>s. (server_step (newHandler ev))\<^sup>*\<^sup>* ([], \<lparr>ui = initialUI, sys = y\<rparr>)
     ([Halt (Some (startedReply True)), Halt (Some (startedReply True)),
       job (CoreReinstall (atomLib ev) (theCore ev) background), job (CoreRollback (atomLib ev) (theCore ev))], s)"
proof -
  let ?h = "newHandler ev" and ?s = "\<lparr>ui = initialUI, sys = y\<rparr>"
  let ?qs = "[postRequest ''/reinstall'' [], postRequest ''/rollback'' []]"
  let ?c = "run_schedule [0, 1, 0, 1, 0, 1] (map ?h ?qs, ?s)"
  have "fst ?c = [Halt (Some (startedReply True)), Halt (Some (startedReply True)),
       job (CoreReinstall (atomLib ev) (theCore ev) background), job (CoreRollback (atomLib ev) (theCore ev))]"
    by (simp add: post_routes run_simps)
  moreover have "(server_step ?h)\<^sup>*\<^sup>* ([], ?s) ?c"
    by (rule schedule_steps)
  ultimately show ?thesis by (metis prod.collapse)
qed

text \<open>
  It takes no such luck with the timing: connecting to a network while a job runs overwrites the
  state, and the next job is accepted.
\<close>

lemma connect_hides_job:
  "\<exists>t s. (server_step (newHandler ev))\<^sup>*\<^sup>* ([], \<lparr>ui = initialUI, sys = y\<rparr>)
     ([Halt (Some (startedReply True)), t, Halt (Some (startedReply True)),
       job (CoreReinstall (atomLib ev) (theCore ev) background), job (CoreRollback (atomLib ev) (theCore ev))], s)"
proof -
  let ?h = "newHandler ev" and ?s = "\<lparr>ui = initialUI, sys = y\<rparr>"
  let ?qs = "[postRequest ''/reinstall'' [], postRequest ''/connect'' ''{}'', postRequest ''/rollback'' []]"
  let ?c = "run_schedule [0, 0, 0, 1, 2, 2, 2] (map ?h ?qs, ?s)"
  have d: "decodeBody connectFields \<lparr>reqSSID = [], reqPSK = []\<rparr> ''{}'' = Some \<lparr>reqSSID = [], reqPSK = []\<rparr>"
    by code_simp
  have "\<exists>t. fst ?c = [Halt (Some (startedReply True)), t, Halt (Some (startedReply True)),
       job (CoreReinstall (atomLib ev) (theCore ev) background), job (CoreRollback (atomLib ev) (theCore ev))]"
    by (simp add: post_routes run_simps connectHandler_def d)
  moreover have "(server_step ?h)\<^sup>*\<^sup>* ([], ?s) ?c" by (rule schedule_steps)
  ultimately show ?thesis by (metis prod.collapse)
qed

section \<open>A server\<close>

text \<open>The example device, behind a server for its owners.  The staging library is not used by it.\<close>

definition ex_lib :: "tpm atom" where
  "ex_lib = \<lparr>atomLoadDeployment = (\<lambda>_. return (Inl (ErrText ''no WAL''))),
     atomStage = (\<lambda>_ _ _ _ _ _. return (Inl (ErrText ''no network''))), atomSyncBootState = (\<lambda>_ _. return None),
     atomRollback = (\<lambda>_ _. return (Inr ''rolled back'')), atomRepairLoader = (\<lambda>_ _ _ _. return (Inr ''repaired''))\<rparr>"

definition ex_env :: "tpm env" where
  "ex_env = \<lparr>theCore = NewCore ex_cfg, atomLib = ex_lib, crypto = ex_seam, jsonErr = (\<lambda>_. ''unexpected EOF'')\<rparr>"

definition ex_policy :: HandlerPolicy where
  "ex_policy = \<lparr>Runtime = True, PolicyUID = -1\<rparr>"

definition ex_shared :: "tpm shared" where
  "ex_shared = \<lparr>ui = initialUI, sys = \<lparr>disk = ex_start (\<lambda>_. False), netw = ex_net\<rparr>\<rparr>"

definition ex_arm :: request where
  "ex_arm = \<lparr>rMethod = ''POST'', rPath = ''/arm-unlock'', rBody = ''{\"armed\":true,\"pin\":\"2468\"}'',
     rConn = UnixConn (Ucred 1001), rCtx = background\<rparr>"

lemma ex_env_simps [simp]: "crypto ex_env = ex_seam" "cfg (theCore ex_env) = ex_cfg"
    "disk (sys ex_shared) = ex_start (\<lambda>_. False)"
  by (simp_all add: ex_env_def NewCore_def ex_shared_def)

interpretation ex_runtime: runtime_server "[''var'']" ex_env "[''efi'']" ex_policy
  using ex_crypto ex_paths ex_layout
  by (simp add: runtime_server_def runtime_server_axioms_def ex_policy_def is_int64_def)

text \<open>
  Three handlers of the same request, interleaved.  The consent that is there at the end is the old
  one, or the one of the peer, whose PIN was accepted.
\<close>

theorem runtime_policy_safe_witness:
  "let s' = snd (run_schedule [0, 1, 0, 2, 0, 1, 1, 2, 2]
         (map (newHandlerWithPolicy ex_env ex_policy) [ex_arm, ex_arm, ex_arm], ex_shared));
       f' = stored ([''efi''] @ [''state'']) (root (disk (sys s'))) in
   untouched [''efi''] True (root (ex_start (\<lambda>_. False))) (root (disk (sys s'))) \<and> netw (sys s') = netw (sys ex_shared)
   \<and> (Armed f' \<longrightarrow> OwnerUID f' = 1000 \<or> accepted (disk (sys s')) (OwnerUID f'))"
proof -
  let ?h = "newHandlerWithPolicy ex_env ex_policy"
  let ?c = "run_schedule [0, 1, 0, 2, 0, 1, 1, 2, 2] (map ?h [ex_arm, ex_arm, ex_arm], ex_shared)"
  have run: "(server_step ?h)\<^sup>*\<^sup>* ([], ex_shared) (fst ?c, snd ?c)"
    unfolding prod.collapse by (rule schedule_steps)
  have d: "device [''var''] [''efi''] (root (disk (sys ex_shared)))" using ex_device by simp
  have p: "Runtime ex_policy" "is_int64 (PolicyUID ex_policy)" by (simp_all add: ex_policy_def is_int64_def)
  have "crypto_seam [''var''] (crypto ex_env)" "volume_paths (cfg (theCore ex_env)) [''var''] [''efi'']"
    using ex_crypto ex_paths by simp_all
  from runtime_policy_safe [OF this ex_layout d p run] show ?thesis
    using ex_quiet unfolding Let_def accepted_def ex_env_simps ex_flag by auto
qed

theorem served_ui_ok_witness:
  "let s = snd (run_schedule [0, 0, 0, 1, 1] (map (newHandler ex_env) [postRequest ''/rollback'' []], ex_shared)) in
   uState (ui s) \<in> {0, 1, 2, 3, 4}"
proof -
  let ?c = "run_schedule [0, 0, 0, 1, 1] (map (newHandler ex_env) [postRequest ''/rollback'' []], ex_shared)"
  have "(server_step (newHandler ex_env))\<^sup>*\<^sup>* ([], ex_shared) (fst ?c, snd ?c)"
    unfolding prod.collapse by (rule schedule_steps)
  then show ?thesis unfolding newHandler_def ex_shared_def Let_def by (rule served_ui_ok [THEN conjunct1])
qed

theorem bad_body_refused_witness:
  "\<exists>body. newHandler ex_env (postRequest ''/connect'' ''{\"ssid\":'') = Halt (Some (JSON 400 body))"
proof -
  have "json_decode_body maxRequestBytes ''{\"ssid\":'' = None" by code_simp
  then show ?thesis
    unfolding newHandler_def by (intro bad_body_refused) (simp_all add: postRequest_def)
qed

end
