(* ===== verification/Tty.thy ===== *)
theory Tty
  imports ServeSafety
begin

text \<open>
  The text interface (\<open>internal/recovery/tty.go\<close>): a menu on the console, driving the same core.

  The session is a program on the console: what is typed, as the lines the scanner delivers, what is
  printed, and the terminal's local flags.  The loop ends with the input at the latest.
\<close>

section \<open>The console\<close>

text \<open>
  \<open>ioctlFails\<close>: which of the calls to the terminal fail; all of them do when standard input is something
  else.  \<open>syncTime\<close> is how long flushing the disks takes, and \<open>restart\<close> the kernel's answer to the
  request to restart, which is an error when it returns at all.
\<close>

record 'x console =
  csys :: "'x sys"
  typed :: "string list"
  printed :: string
  lflag :: "32 word"
  ioctls :: nat
  ioctlFails :: "nat \<Rightarrow> bool"
  syncTime :: int
  restart :: "gerror option"

type_synonym ('x, 'a) session = "('x console, 'a) state"

definition on_core :: "('x, 'a) prog \<Rightarrow> ('x, 'a) session" where
  "on_core m = State (\<lambda>s. case run_state m (csys s) of (a, y) \<Rightarrow> (a, s\<lparr>csys := y\<rparr>))"

lemma wp_on_core [wp_simps]: "wp (on_core m) Q = (\<lambda>s. wp m (\<lambda>a y. Q a (s\<lparr>csys := y\<rparr>)) (csys s))"
  by (simp add: wp_def on_core_def fun_eq_iff case_prod_beta)

definition print :: "string \<Rightarrow> ('x, unit) session" where
  "print t = modify (printed_update (\<lambda>p. p @ t))"

definition println :: "string \<Rightarrow> ('x, unit) session" where
  "println t = print (t @ ''\<newline>'')"

definition prompt :: "string \<Rightarrow> ('x, string \<times> bool) session" where
  "prompt label = do {
     print label;
     ls \<leftarrow> gets typed;
     case ls of
       [] \<Rightarrow> return ([], False)
     | l # rest \<Rightarrow> do { modify (typed_update (\<lambda>_. rest)); return (trimSpace l, True) }
   }"

definition ECHO :: "32 word" where
  "ECHO = 0x8"

text \<open>One call to the terminal; the result says whether it succeeded.\<close>

definition ioctl :: "('x, bool) session" where
  "ioctl = do {
     bad \<leftarrow> gets (\<lambda>s. ioctlFails s (ioctls s));
     modify (ioctls_update Suc);
     return (\<not> bad)
   }"

definition setEcho :: "bool \<Rightarrow> ('x, unit) session" where
  "setEcho on = do {
     got \<leftarrow> ioctl;
     if \<not> got then return ()
     else do {
       l \<leftarrow> gets lflag;
       ok \<leftarrow> ioctl;
       if ok then modify (lflag_update (\<lambda>_. if on then l OR ECHO else l AND NOT ECHO)) else return ()
     }
   }"

text \<open>Flushing is given up after ten seconds.\<close>

definition Reboot :: "('x, gerror option) session" where
  "Reboot = do {
     t \<leftarrow> gets syncTime;
     on_core (on_net (pass (min t (10 * second))));
     gets restart
   }"

section \<open>The actions of the menu\<close>

definition cancelUnlock :: "'x env \<Rightarrow> ('x, unit) session" where
  "cancelUnlock ev = do {
     (ok, msg) \<leftarrow> on_core (on_disk (ArmUnlock (crypto ev) (cfg (theCore ev)) False));
     if \<not> ok then println (''Unlock cancellation failed: '' @ msg)
     else println (''Unlock cancelled. '' @ msg)
   }"

definition confirmUnlock :: "'x env \<Rightarrow> string \<Rightarrow> ('x, unit) session" where
  "confirmUnlock ev pin = do {
     (confirm, ok) \<leftarrow> prompt ''Type UNLOCK exactly to continue> '';
     if \<not> ok \<or> confirm \<noteq> ''UNLOCK'' then cancelUnlock ev
     else do {
       (ok, msg) \<leftarrow> on_core (on_disk (UnlockBootloader (crypto ev) (cfg (theCore ev)) confirm pin));
       if \<not> ok then println (''Unlock failed: '' @ msg)
       else print (msg @ ''\<newline>Reboot to continue.\<newline>'')
     }
   }"

definition doUnlockBootloader :: "'x env \<Rightarrow> ('x, unit) session" where
  "doUnlockBootloader ev = do {
     st \<leftarrow> on_core (on_disk (LockState (crypto ev) (cfg (theCore ev))));
     if \<not> Locked st then println ''The bootloader is already unlocked.''
     else if \<not> UnlockArmed st then println ''Unlocking must first be allowed by the owner from the running system.''
     else do {
       println ''WARNING: this permanently erases every account, file, and setting.'';
       setEcho False;
       (pin, pinOK) \<leftarrow> prompt ''Owner PIN> '';
       setEcho True;
       print ''\<newline>'';
       if \<not> pinOK then cancelUnlock ev else confirmUnlock ev pin
     }
   }"

text \<open>\<open>%2d\<close> and \<open>%-32s\<close>; the width of a text counts its runes.\<close>

function rune_count :: "string \<Rightarrow> nat" where
  "rune_count [] = 0"
| "rune_count (c # s) = Suc (rune_count (drop (rune_len (c # s) - 1) s))"
  by pat_completeness auto
termination by (relation "measure length") auto

definition padLeft :: "nat \<Rightarrow> string \<Rightarrow> string" where
  "padLeft n s = replicate (n - rune_count s) (CHR '' '') @ s"

definition padRight :: "nat \<Rightarrow> string \<Rightarrow> string" where
  "padRight n s = s @ replicate (n - rune_count s) (CHR '' '')"

definition networkLine :: "nat \<Rightarrow> network \<Rightarrow> string" where
  "networkLine i n =
     ''  '' @ padLeft 2 (itoa (int i + 1)) @ '') ['' @ (if Secure n then ''*'' else '' '') @ ''] ''
       @ padRight 32 (SSID n) @ '' '' @ itoa (Signal n) @ '' dBm\<newline>''"

definition connectTo :: "'x env \<Rightarrow> ctx \<Rightarrow> network \<Rightarrow> ('x, bool) session" where
  "connectTo ev ctx0 n = do {
     (psk, _) \<leftarrow> (if Secure n then prompt ''Password> '' else return ([], True));
     q \<leftarrow> gets (\<lambda>s. quoteGo (netw (csys s)) (SSID n));
     print (''Connessione a '' @ q @ ''...\<newline>'');
     e \<leftarrow> on_core (CoreConnect (theCore ev) ctx0 (SSID n) psk);
     case e of
       None \<Rightarrow> return False
     | Some (Some err) \<Rightarrow> do { println (''Connessione fallita: '' @ error_text err); return True }
     | Some None \<Rightarrow> do { println ''Connesso.''; return True }
   }"

text \<open>An index into a slice; outside it the program panics.\<close>

definition elementAt :: "'a list \<Rightarrow> int \<Rightarrow> 'a option" where
  "elementAt xs i = (if 0 \<le> i \<and> i < int (length xs) then Some (xs ! nat i) else None)"

text \<open>The result is \<open>False\<close> when the program has panicked.\<close>

definition doWifi :: "'x env \<Rightarrow> ctx \<Rightarrow> ('x, bool) session" where
  "doWifi ev ctx0 = do {
     print ''Scansione reti...\<newline>'';
     r \<leftarrow> on_core (CoreScan (theCore ev) ctx0);
     case r of
       Inl err \<Rightarrow> do { println (''Scan fallito: '' @ error_text err); return True }
     | Inr nets \<Rightarrow>
         if nets = [] then do { println ''Nessuna rete trovata.''; return True }
         else do {
           print (concat (map (\<lambda>(i, n). networkLine i n) (enumerate 0 nets)));
           (sel, ok) \<leftarrow> prompt ''Rete (numero)> '';
           if \<not> ok then return True
           else (case atoi sel of (idx, e) \<Rightarrow>
             if e \<noteq> None \<or> idx < 1 \<or> idx > int (length nets)
             then do { println ''Selezione non valida.''; return True }
             else (case elementAt nets (idx - 1) of
                 None \<Rightarrow> return False
               | Some n \<Rightarrow> connectTo ev ctx0 n))
         }
   }"

definition doReinstall :: "'x env \<Rightarrow> ctx \<Rightarrow> ('x, unit) session" where
  "doReinstall ev ctx0 = do {
     (c, ok) \<leftarrow> prompt ''Scaricare e reinstallare una Sinty fresca? Serve la rete. [s/N]> '';
     if \<not> ok \<or> toLower c \<noteq> ''s'' then return ()
     else do {
       print ''Scarico e verifico l'immagine firmata...\<newline>'';
       r \<leftarrow> on_core (CoreReinstall (atomLib ev) (theCore ev) ctx0);
       case r of
         Inl err \<Rightarrow> println (''Reinstall fallita: '' @ error_text err)
       | Inr msg \<Rightarrow> print (msg @ ''\<newline>Riavvia per bootare l'immagine nuova.\<newline>'')
     }
   }"

definition doRepair :: "'x env \<Rightarrow> ('x, unit) session" where
  "doRepair ev = do {
     r \<leftarrow> on_core (Repair (atomLib ev) (theCore ev));
     case r of
       Inl err \<Rightarrow> println (''Ripara: '' @ error_text err)
     | Inr msg \<Rightarrow> println msg
   }"

definition doRepairLoader :: "'x env \<Rightarrow> ('x, unit) session" where
  "doRepairLoader ev = do {
     (c, ok) \<leftarrow> prompt ''Reinstallare il loader di avvio firmato? [s/N]> '';
     if \<not> ok \<or> toLower c \<noteq> ''s'' then return ()
     else do {
       r \<leftarrow> on_core (RepairLoader (atomLib ev) (theCore ev));
       case r of
         Inl err \<Rightarrow> println (''Ripara loader: '' @ error_text err)
       | Inr msg \<Rightarrow> println msg
     }
   }"

definition doStatus :: "'x env \<Rightarrow> ('x, unit) session" where
  "doStatus ev = do {
     r \<leftarrow> on_core (Status (atomLib ev) (theCore ev));
     case r of
       Inl err \<Rightarrow> println (''Stato: '' @ error_text err)
     | Inr s \<Rightarrow> do {
         println (''current='' @ stCurrent s @ '' pending='' @ stPending s @ '' rollback='' @ stRollback s
           @ '' last_known_good='' @ stLastKnownGood s);
         println (''boot_attempts='' @ itoa (stBootAttempts s) @ '' recovery='' @ stRecovery s
           @ '' kernelcache='' @ itoa (stKernelcache s) @ '' security='' @ itoa (stSecurityLevel s))
       }
   }"

section \<open>The menu\<close>

definition menuText :: string where
  "menuText = ''\<newline>=== Sinty Recovery ===\<newline>'' @
     ''  1) Connetti al wifi\<newline>'' @
     ''  2) Reinstalla Sinty (scarica)\<newline>'' @
     ''  3) Ripara (torna all'ultima buona)\<newline>'' @
     ''  4) Stato\<newline>'' @
     ''  5) Unlock bootloader (erases all data)\<newline>'' @
     ''  6) Riavvia\<newline>'' @
     ''  7) Ripara il loader di avvio\<newline>'' @
     ''  q) Esci\<newline>''"

text \<open>One round of the loop; \<open>None\<close> goes on, \<open>Some\<close> returns, with \<open>Some None\<close> for a panic.\<close>

definition dispatch :: "'x env \<Rightarrow> ctx \<Rightarrow> string \<Rightarrow> ('x, gerror option option option) session" where
  "dispatch ev ctx0 choice =
     (if choice = ''1'' then do { ok \<leftarrow> doWifi ev ctx0; return (if ok then None else Some None) }
      else if choice = ''2'' then do { doReinstall ev ctx0; return None }
      else if choice = ''3'' then do { doRepair ev; return None }
      else if choice = ''4'' then do { doStatus ev; return None }
      else if choice = ''5'' then do { doUnlockBootloader ev; return None }
      else if choice = ''6'' then do { print ''Riavvio...\<newline>''; e \<leftarrow> Reboot; return (Some (Some e)) }
      else if choice = ''7'' then do { doRepairLoader ev; return None }
      else if choice = ''q'' \<or> choice = ''Q'' then return (Some (Some None))
      else do { print ''Scelta non valida.\<newline>''; return None })"

definition menuRound :: "'x env \<Rightarrow> ctx \<Rightarrow> ('x, gerror option option option) session" where
  "menuRound ev ctx0 = do {
     print menuText;
     (choice, ok) \<leftarrow> prompt ''> '';
     if \<not> ok then return (Some (Some None)) else dispatch ev ctx0 choice
   }"

text \<open>Every round that goes on has read a line.\<close>

lemma keeps_on_core: "(\<And>s y. I s \<Longrightarrow> I (s\<lparr>csys := y\<rparr>)) \<Longrightarrow> keeps I (on_core m)"
  by (simp add: keeps_def wp_simps wp_def split: prod.split)

definition left :: "nat \<Rightarrow> 'x console \<Rightarrow> bool" where
  "left n s \<longleftrightarrow> length (typed s) \<le> n"

lemma left_core [keeps_intros]: "keeps (left n) (on_core m)"
  by (rule keeps_on_core) (simp add: left_def)

lemma left_console [keeps_intros]: "keeps (left n) (print t)" "keeps (left n) (setEcho b)" "keeps (left n) (prompt l)"
  by (auto simp: keeps_def print_def setEcho_def ioctl_def prompt_def wp_simps left_def split: list.split)

lemma left_actions [keeps_intros]:
  "keeps (left n) (doWifi ev ctx0)" "keeps (left n) (doReinstall ev ctx0)" "keeps (left n) (doRepair ev)"
  "keeps (left n) (doStatus ev)" "keeps (left n) (doUnlockBootloader ev)" "keeps (left n) Reboot"
  "keeps (left n) (doRepairLoader ev)"
  unfolding doWifi_def connectTo_def doReinstall_def doRepair_def doStatus_def doUnlockBootloader_def confirmUnlock_def
    cancelUnlock_def Reboot_def doRepairLoader_def println_def
  by (intro keeps_intros)+

lemma menuRound_reads:
  assumes "run_state (menuRound ev ctx0) s = (None, s')"
  shows "length (typed s') < length (typed s)"
proof (cases "typed s")
  case Nil
  with assms show ?thesis by (simp add: menuRound_def print_def prompt_def)
next
  case (Cons l ls)
  have c: "keeps (left (length ls)) (dispatch ev ctx0 x)" for x
    unfolding dispatch_def by (intro keeps_intros)
  have "\<exists>s1. run_state (dispatch ev ctx0 (trimSpace l)) s1 = (None, s') \<and> typed s1 = ls"
    using Cons assms by (simp add: menuRound_def print_def prompt_def) (intro exI conjI, assumption, simp)
  then obtain s1 where r: "run_state (dispatch ev ctx0 (trimSpace l)) s1 = (None, s')" and "typed s1 = ls" by blast
  then have "left (length ls) s1" by (simp add: left_def)
  from keeps_run [OF c this r] show ?thesis using Cons by (simp add: left_def)
qed

function Run :: "'x env \<Rightarrow> ctx \<Rightarrow> 'x console \<Rightarrow> gerror option option \<times> 'x console" where
  "Run ev ctx0 s =
     (case run_state (menuRound ev ctx0) s of
        (Some r, s') \<Rightarrow> (r, s')
      | (None, s') \<Rightarrow> Run ev ctx0 s')"
  by pat_completeness auto
termination
  by (relation "measure (\<lambda>(ev, ctx0, s). length (typed s))") (auto dest: menuRound_reads [OF sym])

declare Run.simps [simp del]

text \<open>The text interface over an input, with the scanner's lines.\<close>

definition RunTTY :: "'x env \<Rightarrow> ctx \<Rightarrow> string \<Rightarrow> 'x console \<Rightarrow> gerror option option \<times> 'x console" where
  "RunTTY ev ctx0 stdin s = Run ev ctx0 (s\<lparr>typed := scan_lines stdin, printed := []\<rparr>)"

section \<open>What a session can do\<close>

text \<open>
  The staging library does not use the cryptographic functions.
\<close>

locale staging =
  fixes lib :: "'x atom"
  assumes load_quiet: "keeps (\<lambda>y. events (disk y) = es) (atomLoadDeployment lib p)"
    and stage_quiet: "keeps (\<lambda>y. events (disk y) = es) (atomStage lib ctx0 p u v k d)"
    and sync_quiet: "keeps (\<lambda>y. events (disk y) = es) (atomSyncBootState lib p d)"
    and rollback_quiet: "keeps (\<lambda>y. events (disk y) = es) (atomRollback lib p d)"
    and loader_quiet: "keeps (\<lambda>y. events (disk y) = es) (atomRepairLoader lib d i g k)"
begin

lemma silent_keeps: "silent m \<Longrightarrow> keeps (\<lambda>y. events (disk y) = es) (on_disk m)"
  by (auto simp: silent_def keeps_def wp_simps)

lemma net_keeps: "keeps (\<lambda>y. events (disk y) = es) (on_net m)"
  by (auto simp: keeps_def wp_simps wp_def split: prod.split)

lemma core_quiet:
  "keeps (\<lambda>y. events (disk y) = es) (Status lib c)" "keeps (\<lambda>y. events (disk y) = es) (Repair lib c)"
  "keeps (\<lambda>y. events (disk y) = es) (CoreRollback lib c)" "keeps (\<lambda>y. events (disk y) = es) (RepairLoader lib c)"
  "keeps (\<lambda>y. events (disk y) = es) (CoreReinstall lib c ctx0)" "keeps (\<lambda>y. events (disk y) = es) (CoreScan c ctx0)"
  "keeps (\<lambda>y. events (disk y) = es) (CoreConnect c ctx0 ssid psk)"
  unfolding Status_def Repair_def CoreRollback_def RepairLoader_def CoreReinstall_def Reinstall_def CoreScan_def CoreConnect_def
  by (intro keeps_intros load_quiet stage_quiet sync_quiet rollback_quiet loader_quiet net_keeps silent_keeps silent_reads)+

end

text \<open>
  \<open>tame es w\<close>: since the record was \<open>es\<close>, only harmless calls were made.  \<open>calm\<close>: moreover no line
  that is left says \<open>UNLOCK\<close>.
\<close>

definition tame :: "event list \<Rightarrow> 'x world \<Rightarrow> bool" where
  "tame es w \<longleftrightarrow> (\<exists>new. events w = new @ es \<and> list_all harmless new)"

definition calm :: "event list \<Rightarrow> 'x console \<Rightarrow> bool" where
  "calm es s \<longleftrightarrow> tame es (disk (csys s)) \<and> list_all (\<lambda>t. trimSpace t \<noteq> ''UNLOCK'') (typed s)"

lemma tame_since: "tame es w \<Longrightarrow> since w new w' \<Longrightarrow> list_all harmless new \<Longrightarrow> tame es w'"
  unfolding tame_def since_def by (metis append.assoc list_all_append list_all_rev)

lemma calm_coreI: "keeps (\<lambda>y. tame es (disk y)) m \<Longrightarrow> keeps (calm es) (on_core m)"
  by (rule keepsI) (auto simp: wp_simps calm_def keeps_def elim: wp_mono)

lemma calm_quiet: "(\<And>ev. keeps (\<lambda>y. events (disk y) = ev) m) \<Longrightarrow> keeps (calm es) (on_core m)"
proof (rule calm_coreI, rule keepsI)
  fix y :: "'a sys" assume k: "\<And>ev. keeps (\<lambda>y. events (disk y) = ev) m" and t: "tame es (disk y)"
  from keeps_wp [OF k refl] show "wp m (\<lambda>_ y'. tame es (disk y')) y"
    by (rule wp_mono) (use t in \<open>simp add: tame_def\<close>)
qed

lemma calm_console [keeps_intros]: "keeps (calm es) (print t)" "keeps (calm es) (prompt p)" "keeps (calm es) (setEcho b)"
  by (auto simp: keeps_def print_def prompt_def setEcho_def ioctl_def wp_simps calm_def split: list.split)

lemma calm_lock:
  assumes "silent_seam sm"
  shows "keeps (calm es) (on_core (on_disk (LockState sm c)))" "keeps (calm es) (on_core (on_disk (ArmUnlock sm c armed)))"
proof -
  have "keeps (\<lambda>y. tame es (disk y)) (on_disk m)" if "\<And>w. wp m (\<lambda>_ w'. \<exists>es. since w es w' \<and> list_all harmless es) w" for m
    by (rule keepsI) (auto simp: wp_simps intro!: wp_mono [OF that] intro: tame_since)
  with wp_look_events [OF assms] wp_arm_events [OF assms] show
    "keeps (calm es) (on_core (on_disk (LockState sm c)))" "keeps (calm es) (on_core (on_disk (ArmUnlock sm c armed)))"
    unfolding ArmUnlock_def by (blast intro: calm_coreI)+
qed

lemma calm_cancel:
  assumes "silent_seam (crypto ev)"
  shows "keeps (calm es) (cancelUnlock ev)"
  unfolding cancelUnlock_def println_def by (intro keeps_intros calm_lock [OF assms])

lemma calm_confirm:
  assumes "silent_seam (crypto ev)"
  shows "keeps (calm es) (confirmUnlock ev pin)"
proof (rule keepsI)
  fix s :: "'a console"
  assume s: "calm es s"
  have "wp (prompt t) (\<lambda>(c, ok) s'. calm es s' \<and> c \<noteq> ''UNLOCK'') s" for t
    using s by (auto simp: prompt_def print_def wp_simps calm_def split: list.split)
  then show "wp (confirmUnlock ev pin) (\<lambda>_. calm es) s"
    unfolding confirmUnlock_def
  proof (rule wp_step, goal_cases)
    case (1 a s1)
    with calm_cancel [OF assms] show ?case by (cases a) (auto intro: keeps_wp)
  qed
qed

lemma calm_unlock:
  assumes "silent_seam (crypto ev)"
  shows "keeps (calm es) (doUnlockBootloader ev)"
  unfolding doUnlockBootloader_def println_def
  by (intro keeps_intros calm_lock [OF assms] calm_cancel [OF assms] calm_confirm [OF assms])

context staging
begin

lemma calm_round:
  assumes "atomLib ev = lib" and "silent_seam (crypto ev)"
  shows "keeps (calm es) (menuRound ev ctx0)"
proof -
  have "keeps (calm es) (dispatch ev ctx0 choice)" for choice
    unfolding dispatch_def doWifi_def connectTo_def doReinstall_def doRepair_def doStatus_def
      Reboot_def doRepairLoader_def println_def assms(1)
    by (intro keeps_intros calm_unlock [OF assms(2)] calm_quiet core_quiet net_keeps)
  then show ?thesis unfolding menuRound_def by (intro keeps_intros)
qed

end

text \<open>What every round keeps, the session keeps.\<close>

lemma Run_keeps: "(\<And>ctx0. keeps I (menuRound ev ctx0)) \<Longrightarrow> I s \<Longrightarrow> I (snd (Run ev ctx0 s))"
proof (induction ev ctx0 s rule: Run.induct)
  case (1 ev ctx0 s)
  obtain r s' where run: "run_state (menuRound ev ctx0) s = (r, s')" by (cases "run_state (menuRound ev ctx0) s")
  have s': "I s'" by (rule keeps_run [OF 1(2) 1(3) run])
  show ?case
    using s' 1(1) [OF run [symmetric] _ 1(2) s'] by (cases r) (simp_all add: Run.simps [of ev ctx0 s] run)
qed

section \<open>The echo\<close>

text \<open>
  \<open>echo_kept l s\<close>, when the flags were \<open>l\<close>: of the terminal's flags only the echo can be different; and
  if no call to the terminal fails, the flags are as they were or the echo is on, and if all of them
  fail, they are as they were.
\<close>

definition echo_kept :: "32 word \<Rightarrow> (nat \<Rightarrow> bool) \<Rightarrow> 'x console \<Rightarrow> bool" where
  "echo_kept l fails s \<longleftrightarrow> ioctlFails s = fails \<and> lflag s OR ECHO = l OR ECHO
     \<and> ((\<forall>n. \<not> fails n) \<longrightarrow> lflag s = l \<or> lflag s = l OR ECHO) \<and> ((\<forall>n. fails n) \<longrightarrow> lflag s = l)"

lemma echo_core [keeps_intros]: "keeps (echo_kept l fails) (on_core m)"
  by (rule keeps_on_core) (simp add: echo_kept_def)

lemma echo_console [keeps_intros]: "keeps (echo_kept l fails) (print t)" "keeps (echo_kept l fails) (prompt p)"
  by (auto simp: keeps_def print_def prompt_def wp_simps echo_kept_def split: list.split)

text \<open>The PIN is read without echo, and the echo is back afterwards.\<close>

lemma or_echo: "(l AND NOT ECHO) OR ECHO = l OR ECHO" for l :: "32 word"
  by (rule bit_eqI) (auto simp: bit_simps)

lemma echo_pin: "keeps (echo_kept l fails) (do { setEcho False; r \<leftarrow> prompt p; setEcho True; return r })"
  by (auto simp: keeps_def setEcho_def ioctl_def print_def prompt_def wp_simps echo_kept_def or_echo or.assoc split: list.split)

lemma echo_pin_then:
  assumes "\<And>t ok. keeps (echo_kept l fails) (k t ok)"
  shows "keeps (echo_kept l fails) (do { setEcho False; (t, ok) \<leftarrow> prompt p; setEcho True; k t ok })"
proof -
  have "(do { setEcho False; (t, ok) \<leftarrow> prompt p; setEcho True; k t ok })
      = (do { setEcho False; r \<leftarrow> prompt p; setEcho True; return r }) \<bind> (\<lambda>(t, ok). k t ok)"
    by (simp add: split_def)
  moreover have "keeps (echo_kept l fails) ((do { setEcho False; r \<leftarrow> prompt p; setEcho True; return r }) \<bind> (\<lambda>(t, ok). k t ok))"
    by (rule keeps_bind [OF echo_pin]) (auto intro: keeps_case_prod assms)
  ultimately show ?thesis by (simp only:)
qed

lemma echo_round: "keeps (echo_kept l fails) (menuRound ev ctx0)"
proof -
  have "keeps (echo_kept l fails) (doUnlockBootloader ev)"
    unfolding doUnlockBootloader_def confirmUnlock_def cancelUnlock_def println_def
    by (intro echo_pin_then keeps_intros)
  note pin = this
  show ?thesis
    unfolding menuRound_def dispatch_def doWifi_def connectTo_def doReinstall_def doRepair_def doStatus_def
      Reboot_def doRepairLoader_def println_def
    by (intro keeps_intros pin)
qed

section \<open>Sessions end without a panic\<close>

lemma elementAt_None: "elementAt xs i = None \<longleftrightarrow> i < 0 \<or> int (length xs) \<le> i"
  by (auto simp: elementAt_def)

lemma always_wifi: "always (\<lambda>ok. ok) (doWifi ev ctx0)"
proof -
  have "always (\<lambda>e. e \<noteq> None) (on_core (CoreConnect c ctx0 ssid psk))" for c ssid psk
    unfolding always_def CoreConnect_def wp_on_core wp_on_net
    by (intro allI wp_mono [OF wp_Connect]) (simp add: connected_def)
  note conn = always_bind [OF this]
  have "always (\<lambda>ok. ok) (connectTo ev ctx0 n)" for n
    unfolding connectTo_def case_prod_beta'
    by (intro always_after always_return conn) (auto split: option.split intro!: always_after always_return)
  then show ?thesis
    unfolding doWifi_def case_prod_beta'
    by (intro always_after)
      (auto simp: elementAt_None split: sum.split option.split intro!: always_after always_return)
qed

lemma Run_no_panic: "fst (Run ev ctx0 s) \<noteq> None"
proof (induction ev ctx0 s rule: Run.induct)
  case (1 ev ctx0 s)
  have "always (\<lambda>r. r \<noteq> Some None) (dispatch ev ctx0 choice)" for choice
    unfolding dispatch_def
    by (auto intro!: always_after always_return always_bind [OF always_wifi])
  then have "always (\<lambda>r. r \<noteq> Some None) (menuRound ev ctx0)"
    unfolding menuRound_def case_prod_beta' by (intro always_after) (simp add: always_return)
  then have w: "wp (menuRound ev ctx0) (\<lambda>r _. r \<noteq> Some None) s" by (simp add: always_def)
  obtain r s' where run: "run_state (menuRound ev ctx0) s = (r, s')" by (cases "run_state (menuRound ev ctx0) s")
  from wp_runD [OF w run] 1 [OF run [symmetric]] show ?case
    by (cases r) (simp_all add: Run.simps [of ev ctx0 s] run)
qed

text \<open>C6. A session at the console, over any input, comes to its end without a panic.  Unless a line
  of the input is the word \<open>UNLOCK\<close>, nothing irreversible happens in it: no primitive that wipes,
  unlocks or disables verity is called, whatever else is typed.  Of the terminal's flags no other than
  the echo ever changes.  If no call to the terminal fails and the echo was on, it is on at the end,
  also when it was switched off for a PIN; if standard input is no terminal, nothing changes there.  (A
  call that switches the echo back on and fails leaves it off: the code does not look at the result.)\<close>

theorem tty_session_safe:
  assumes "staging (atomLib ev)" and "crypto_seam D (crypto ev)" and "RunTTY ev ctx0 stdin s = (r, s')"
  shows "r \<noteq> None
     \<and> (list_all (\<lambda>l. trimSpace l \<noteq> ''UNLOCK'') (scan_lines stdin) \<longrightarrow>
          (\<exists>es. since (disk (csys s)) es (disk (csys s')) \<and> list_all harmless es))
     \<and> lflag s' OR ECHO = lflag s OR ECHO
     \<and> ((\<forall>n. \<not> ioctlFails s n) \<and> lflag s OR ECHO = lflag s \<longrightarrow> lflag s' = lflag s)
     \<and> ((\<forall>n. ioctlFails s n) \<longrightarrow> lflag s' = lflag s)"
proof -
  let ?s = "s\<lparr>typed := scan_lines stdin, printed := []\<rparr>"
  have run: "Run ev ctx0 ?s = (r, s')" using assms(3) by (simp add: RunTTY_def)
  have "r \<noteq> None" using Run_no_panic [of ev ctx0 ?s] by (simp add: run)
  moreover have "\<exists>es. since (disk (csys s)) es (disk (csys s')) \<and> list_all harmless es"
    if "list_all (\<lambda>l. trimSpace l \<noteq> ''UNLOCK'') (scan_lines stdin)"
  proof -
    have "calm (events (disk (csys s))) ?s" using that by (simp add: calm_def tame_def)
    from Run_keeps [OF staging.calm_round [OF assms(1) refl seam_silent [OF assms(2)]] this, of ctx0]
    obtain new where "events (disk (csys s')) = new @ events (disk (csys s))" "list_all harmless new"
      by (auto simp: run calm_def tame_def)
    then have "since (disk (csys s)) (rev new) (disk (csys s')) \<and> list_all harmless (rev new)" by (simp add: since_def)
    then show ?thesis by blast
  qed
  moreover have "echo_kept (lflag s) (ioctlFails s) ?s" by (simp add: echo_kept_def)
  from Run_keeps [OF echo_round this, of ev ctx0] have "echo_kept (lflag s) (ioctlFails s) s'" by (simp add: run)
  ultimately show ?thesis by (auto simp: echo_kept_def)
qed

interpretation ex_staging: staging ex_lib
  by unfold_locales (simp_all add: ex_lib_def keeps_return)

definition ex_console :: "tpm console" where
  "ex_console = \<lparr>csys = sys ex_shared, typed = [], printed = [], lflag = 0x8a3b, ioctls = 0, ioctlFails = (\<lambda>_. False),
     syncTime = 0, restart = None\<rparr>"

text \<open>The owner's PIN, but another word in place of \<open>UNLOCK\<close>.\<close>

theorem tty_session_safe_witness:
  "let s' = snd (RunTTY ex_env background ''5\<newline>2468\<newline>unlock\<newline>q\<newline>'' ex_console) in
   lflag s' = 0x8a3b \<and> (\<exists>es. since (disk (csys ex_console)) es (disk (csys s')) \<and> list_all harmless es)"
proof -
  have lines: "scan_lines ''5\<newline>2468\<newline>unlock\<newline>q\<newline>'' = [''5'', ''2468'', ''unlock'', ''q'']"
    by (simp add: scan_lines.simps scan_line_def drop_cr_def)
  have "list_all (\<lambda>l. trimSpace l \<noteq> ''UNLOCK'') [''5'', ''2468'', ''unlock'', ''q'']" by code_simp
  then have l: "list_all (\<lambda>l. trimSpace l \<noteq> ''UNLOCK'') (scan_lines ''5\<newline>2468\<newline>unlock\<newline>q\<newline>'')" by (simp only: lines)
  have st: "staging (atomLib ex_env)" using ex_staging.staging_axioms by (simp add: ex_env_def)
  have cs: "crypto_seam [''var''] (crypto ex_env)" using ex_crypto by simp
  have "\<forall>n. \<not> ioctlFails ex_console n" "lflag ex_console OR ECHO = lflag ex_console" "lflag ex_console = 0x8a3b"
    by (simp_all add: ex_console_def ECHO_def)
  with tty_session_safe [OF st cs prod.collapse [symmetric], of background "''5\<newline>2468\<newline>unlock\<newline>q\<newline>''" ex_console] l
  show ?thesis unfolding Let_def by (elim conjE) (intro conjI, simp_all)
qed

end
