(* ===== verification/Pind.thy ===== *)
theory Pind
  imports Serve
begin

text \<open>
  The PIN service (\<open>cmd/sinty-pind\<close>): one request per connection, which changes the PIN of the
  account the kernel reports for the peer.  The program \<open>sintykey\<close> is the parameter \<open>exec\<close>, as in
  \<open>CryptoSeam\<close>.
\<close>

section \<open>One request\<close>

fun pindPeerUID :: "unixConn \<Rightarrow> gerror + int" where
  "pindPeerUID (SyscallConnErr err) = Inl err"
| "pindPeerUID (ControlErr err) = Inl err"
| "pindPeerUID (UcredErr err) = Inl err"
| "pindPeerUID (Ucred uid) = Inr (uint uid)"

text \<open>
  \<open>ReadString\<close> with a newline: the line with its end and the rest, \<open>None\<close> if the input ends first,
  which is when the peer closes, the deadline of 30 seconds passes or the limit is reached.
\<close>

definition readLine :: "string \<Rightarrow> (string \<times> string) option" where
  "readLine inp = (case cut (CHR 0x0A) inp of None \<Rightarrow> None | Some (l, rest) \<Rightarrow> Some (l @ [CHR 0x0A], rest))"

definition crlf :: string where
  "crlf = [CHR 0x0D, CHR 0x0A]"

definition pindLimit :: nat where
  "pindLimit = 4096"

definition changePIN :: "'x exec \<Rightarrow> string \<Rightarrow> int \<Rightarrow> string \<Rightarrow> string \<Rightarrow> ('x, string) io" where
  "changePIN exec sintykey uid cur new = do {
     r \<leftarrow> exec [sintykey, ''change-pin'', ''--uid'', itoa uid] (cur @ ''\<newline>'' @ new @ ''\<newline>'');
     case proc_err r of
       Some err \<Rightarrow> return ''FAIL: current PIN incorrect or re-seal failed\<newline>''
     | None \<Rightarrow> return ''OK\<newline>''
   }"

text \<open>What is written to the peer; \<open>inp\<close> is what the peer sends.\<close>

definition handle :: "'x exec \<Rightarrow> string \<Rightarrow> unixConn \<Rightarrow> string \<Rightarrow> ('x, string) io" where
  "handle exec sintykey c inp =
     (case pindPeerUID c of
        Inl err \<Rightarrow> return ''FAIL: cannot determine caller identity\<newline>''
      | Inr uid \<Rightarrow>
     (case (case readLine (take pindLimit inp) of None \<Rightarrow> None | Some (cur, rest) \<Rightarrow>
             (case readLine rest of None \<Rightarrow> None | Some (new, _) \<Rightarrow> Some (cur, new))) of
        None \<Rightarrow> return (''FAIL: protocol (send <current-PIN>'' @ [CHR 0x5C] @ ''n<new-PIN>'' @ [CHR 0x5C] @ ''n)\<newline>'')
      | Some (cur0, new0) \<Rightarrow>
          let cur = trimRight cur0 crlf; new = trimRight new0 crlf in
          if length new < 4 then return ''FAIL: new PIN too short (minimum 4 characters)\<newline>''
          else changePIN exec sintykey uid cur new))"

section \<open>The service\<close>

text \<open>
  The socket is open to everybody.  \<open>Inl\<close> is the message the program ends with.  Afterwards it
  accepts connections for ever, each with a goroutine of its own.
\<close>

definition pindSetup :: "string \<Rightarrow> ('x, string + listener) io" where
  "pindSetup socket = do {
     _ \<leftarrow> os_Remove socket;
     e \<leftarrow> net_Listen socket;
     case e of
       Some err \<Rightarrow> return (Inl (''sinty-pind: listen '' @ socket @ '': '' @ error_text err))
     | None \<Rightarrow> do {
     e2 \<leftarrow> os_Chmod socket;
     case e2 of
       Some err \<Rightarrow> return (Inl (''sinty-pind: chmod: '' @ error_text err))
     | None \<Rightarrow> return (Inr \<lparr>lnPath = socket, lnMode = 0x1b6, lnGroup = None\<rparr>) }
   }"

definition pindServe :: "'x exec \<Rightarrow> string \<Rightarrow> unixConn \<times> string \<Rightarrow> ('x world, string) thread" where
  "pindServe exec sintykey = (\<lambda>(c, inp). atomic (handle exec sintykey c inp) (\<lambda>resp. Halt (Some resp)))"

section \<open>What it does\<close>

lemma readLine_Some: "readLine s = Some (l, r) \<longleftrightarrow> (\<exists>k. l = k @ [CHR 0x0A] \<and> s = k @ CHR 0x0A # r \<and> CHR 0x0A \<notin> set k)"
proof -
  have "readLine s = Some (l, r) \<longleftrightarrow> (\<exists>k. l = k @ [CHR 0x0A] \<and> cut (CHR 0x0A) s = Some (k, r))"
    by (auto simp: readLine_def split: option.splits)
  then show ?thesis by (simp add: cut_Some_iff)
qed

text \<open>A line without its end, and without the carriage returns before it.\<close>

lemma trimRight_line: "trimRight (k @ [CHR 0x0A]) crlf = trimRight k crlf"
  by (simp add: trimRight_def crlf_def)

lemma set_trimRight: "set (trimRight s cs) \<subseteq> set s"
  by (auto simp: trimRight_def dest: set_dropWhileD)

lemma trimRight_id: "s = [] \<or> \<not> List.member cs (last s) \<Longrightarrow> trimRight s cs = s"
  by (cases s rule: rev_cases) (simp_all add: trimRight_def)

text \<open>The two lines of a request.\<close>

definition pinLines :: "string \<Rightarrow> string \<Rightarrow> string \<Rightarrow> bool" where
  "pinLines inp cur new \<longleftrightarrow> (\<exists>cur0 new0 rest. take pindLimit inp = cur0 @ CHR 0x0A # new0 @ CHR 0x0A # rest
     \<and> CHR 0x0A \<notin> set cur0 \<and> CHR 0x0A \<notin> set new0 \<and> cur = trimRight cur0 crlf \<and> new = trimRight new0 crlf)"

lemma pinLines_read:
  "pinLines inp cur new \<longleftrightarrow> (\<exists>cur1 new1 rest rest2. readLine (take pindLimit inp) = Some (cur1, rest)
     \<and> readLine rest = Some (new1, rest2) \<and> cur = trimRight cur1 crlf \<and> new = trimRight new1 crlf)"
    (is "?L \<longleftrightarrow> ?R")
proof
  assume ?L
  then obtain cur0 new0 rest where t: "take pindLimit inp = cur0 @ CHR 0x0A # new0 @ CHR 0x0A # rest"
    and n: "CHR 0x0A \<notin> set cur0" "CHR 0x0A \<notin> set new0" and e: "cur = trimRight cur0 crlf" "new = trimRight new0 crlf"
    unfolding pinLines_def by blast
  have "readLine (take pindLimit inp) = Some (cur0 @ [CHR 0x0A], new0 @ CHR 0x0A # rest)"
    "readLine (new0 @ CHR 0x0A # rest) = Some (new0 @ [CHR 0x0A], rest)" using t n by (simp_all add: readLine_Some)
  with e show ?R using trimRight_line by metis
next
  assume ?R
  then obtain cur1 new1 rest rest2 where r: "readLine (take pindLimit inp) = Some (cur1, rest)"
    "readLine rest = Some (new1, rest2)" and e: "cur = trimRight cur1 crlf" "new = trimRight new1 crlf" by blast
  then obtain k k2 where "cur1 = k @ [CHR 0x0A]" "take pindLimit inp = k @ CHR 0x0A # rest" "CHR 0x0A \<notin> set k"
    "new1 = k2 @ [CHR 0x0A]" "rest = k2 @ CHR 0x0A # rest2" "CHR 0x0A \<notin> set k2"
    unfolding readLine_Some by blast
  with e show ?L unfolding pinLines_def
    by (intro exI [of _ k] exI [of _ k2] exI [of _ rest2]) (simp add: trimRight_line)
qed

lemma pinLines_no_end: "pinLines inp cur new \<Longrightarrow> CHR 0x0A \<notin> set cur \<and> CHR 0x0A \<notin> set new"
  unfolding pinLines_def using set_trimRight by blast

lemma handle_lines:
  assumes "pinLines inp cur new"
  shows "handle exec sintykey (Ucred uid) inp =
     (if length new < 4 then return ''FAIL: new PIN too short (minimum 4 characters)\<newline>''
      else changePIN exec sintykey (uint uid) cur new)"
  using assms unfolding pinLines_read by (auto simp: handle_def)

lemma handle_refuses:
  assumes "(\<exists>err. pindPeerUID c = Inl err) \<or> (\<forall>cur new. \<not> pinLines inp cur new)"
  shows "\<exists>msg. handle exec sintykey c inp = return (''FAIL: '' @ msg)"
proof (cases "pindPeerUID c")
  case (Inr uid)
  with assms have "\<forall>cur new. \<not> pinLines inp cur new" by simp
  then have "(case readLine (take pindLimit inp) of None \<Rightarrow> None | Some (cur, rest) \<Rightarrow>
      (case readLine rest of None \<Rightarrow> None | Some (new, _) \<Rightarrow> Some (cur, new))) = None"
    unfolding pinLines_read by (auto split: option.split)
  with Inr show ?thesis by (simp add: handle_def) (rule exI, rule refl)
qed (simp add: handle_def, rule exI, rule refl)

text \<open>C7. A request to change a PIN that cannot be attributed to an account, does not consist of two
  lines or has a new PIN of less than four bytes is refused without running anything.  Any other one
  runs \<open>sintykey change-pin\<close> once, for the user id the kernel reports for the peer and no other, with
  the two lines received on its standard input, and is answered \<open>OK\<close> exactly if the program
  succeeded.\<close>

theorem handle_own_pin:
  "if (\<exists>uid cur new. c = Ucred uid \<and> pinLines inp cur new \<and> 4 \<le> length new)
   then \<exists>uid cur new. c = Ucred uid \<and> pinLines inp cur new \<and> CHR 0x0A \<notin> set cur \<union> set new
     \<and> handle exec sintykey c inp = do {
          r \<leftarrow> exec [sintykey, ''change-pin'', ''--uid'', itoa (uint uid)] (cur @ ''\<newline>'' @ new @ ''\<newline>'');
          return (if proc_err r = None then ''OK\<newline>'' else ''FAIL: current PIN incorrect or re-seal failed\<newline>'') }
   else \<exists>msg. handle exec sintykey c inp = return (''FAIL: '' @ msg)"
proof (cases "\<exists>uid cur new. c = Ucred uid \<and> pinLines inp cur new \<and> 4 \<le> length new")
  case True
  then obtain uid cur new where c: "c = Ucred uid" and l: "pinLines inp cur new" "\<not> length new < 4" by auto
  have "changePIN exec sintykey (uint uid) cur new = do {
      r \<leftarrow> exec [sintykey, ''change-pin'', ''--uid'', itoa (uint uid)] (cur @ ''\<newline>'' @ new @ ''\<newline>'');
      return (if proc_err r = None then ''OK\<newline>'' else ''FAIL: current PIN incorrect or re-seal failed\<newline>'') }"
    unfolding changePIN_def by (rule arg_cong [where f = "State_Monad.bind _"]) (auto split: option.split)
  then show ?thesis
    using True c l pinLines_no_end [OF l(1)] handle_lines [OF l(1), of exec sintykey uid] by auto
next
  case False
  have "\<exists>msg. handle exec sintykey c inp = return (''FAIL: '' @ msg)"
  proof (cases c)
    case (Ucred uid)
    then show ?thesis
    proof (cases "\<exists>cur new. pinLines inp cur new")
      case True
      then obtain cur new where l: "pinLines inp cur new" by blast
      have "\<not> 4 \<le> length new" using False Ucred l by blast
      then have "length new < 4" by simp
      with handle_lines [OF l, of exec sintykey uid] Ucred show ?thesis by simp (rule exI, rule refl)
    qed (use handle_refuses in blast)
  qed (rule handle_refuses, simp)+
  with False show ?thesis by (simp only: if_False)
qed

section \<open>PINs the lock cannot use\<close>

text \<open>
  The lock takes a PIN of 4 to 256 bytes without line ends, and the service only asks for the minimum.
  An owner whose new PIN is longer, or holds a carriage return, can no longer unlock the device or
  consent to it.
\<close>

lemma pinLines_request:
  assumes "CHR 0x0A \<notin> set cur" and "CHR 0x0A \<notin> set new" and "length cur + length new + 2 \<le> pindLimit"
    and "trimRight cur crlf = cur" and "trimRight new crlf = new"
  shows "pinLines (cur @ CHR 0x0A # new @ [CHR 0x0A]) cur new"
  unfolding pinLines_def using assms
  by (intro exI [of _ cur] exI [of _ new] exI [of _ "[]"]) simp

end
