(* ===== verification/Flags.thy ===== *)
theory Flags
  imports Json
begin

text \<open>
  The part of Go's package \<open>flag\<close> both commands use: a set of string, boolean and integer flags, and the
  arguments they are parsed from.  What is not a flag, and everything after it, is left alone.
\<close>

section \<open>Values\<close>

text \<open>\<open>strconv.ParseBool\<close>.\<close>

definition parseBool :: "string \<Rightarrow> bool option" where
  "parseBool s =
     (if List.member [''1'', ''t'', ''T'', ''TRUE'', ''true'', ''True''] s then Some True
      else if List.member [''0'', ''f'', ''F'', ''FALSE'', ''false'', ''False''] s then Some False
      else None)"

text \<open>\<open>strconv.ParseInt\<close> with base 0: the base is chosen by the prefix, and underscores may separate digits.\<close>

definition lower :: "char \<Rightarrow> char" where
  "lower c = (case toLower [c] of [d] \<Rightarrow> d | _ \<Rightarrow> c)"

definition digitOf :: "char \<Rightarrow> int option" where
  "digitOf c =
     (if is_digit c then Some (digit_val c)
      else if 97 \<le> (of_char (lower c) :: int) \<and> (of_char (lower c) :: int) \<le> 122 then Some (of_char (lower c) - 87)
      else None)"

fun digitsIn :: "int \<Rightarrow> int \<Rightarrow> string \<Rightarrow> int option" where
  "digitsIn b n [] = Some n"
| "digitsIn b n (c # s) =
     (if c = CHR ''_'' then digitsIn b n s
      else (case digitOf c of
         None \<Rightarrow> None
       | Some d \<Rightarrow> if d \<ge> b \<or> n * b + d \<ge> 2 ^ 64 then None else digitsIn b (n * b + d) s))"

text \<open>The base, and the digits behind its prefix.\<close>

definition splitBase :: "string \<Rightarrow> int \<times> string" where
  "splitBase s =
     (case s of
        CHR ''0'' # r \<Rightarrow>
          (case r of
             p # d # r' \<Rightarrow>
               if lower p = CHR ''b'' then (2, d # r')
               else if lower p = CHR ''o'' then (8, d # r')
               else if lower p = CHR ''x'' then (16, d # r')
               else (8, r)
           | _ \<Rightarrow> (8, r))
      | _ \<Rightarrow> (10, s))"

text \<open>\<open>underscoreOK\<close>: an underscore stands between digits, the prefix counting as one.  The first argument is
  what was seen last: a digit, an underscore, or something else.\<close>

datatype seen = SeenDigit | SeenUnderscore | SeenOther

fun underscores :: "bool \<Rightarrow> seen \<Rightarrow> string \<Rightarrow> bool" where
  "underscores hex saw [] = (saw \<noteq> SeenUnderscore)"
| "underscores hex saw (c # s) =
     (if is_digit c \<or> hex \<and> 97 \<le> (of_char (lower c) :: int) \<and> (of_char (lower c) :: int) \<le> 102
      then underscores hex SeenDigit s
      else if c = CHR ''_'' then saw = SeenDigit \<and> underscores hex SeenUnderscore s
      else saw \<noteq> SeenUnderscore \<and> underscores hex SeenOther s)"

definition underscoreOK :: "string \<Rightarrow> bool" where
  "underscoreOK s =
     (case s of
        CHR ''0'' # p # r \<Rightarrow>
          if List.member ''box'' (lower p) then underscores (lower p = CHR ''x'') SeenDigit r
          else underscores False SeenOther s
      | _ \<Rightarrow> underscores False SeenOther s)"

definition parseUint :: "string \<Rightarrow> int option" where
  "parseUint s =
     (if s = [] then None
      else (case splitBase s of (b, ds) \<Rightarrow>
        (case digitsIn b 0 ds of
           None \<Rightarrow> None
         | Some n \<Rightarrow> if List.member ds (CHR ''_'') \<and> \<not> underscoreOK s then None else Some n)))"

definition parseInt :: "string \<Rightarrow> int option" where
  "parseInt s =
     (case s of
        [] \<Rightarrow> None
      | c # r \<Rightarrow>
          if c = CHR ''-'' then (case parseUint r of None \<Rightarrow> None | Some n \<Rightarrow> if n > 2 ^ 63 then None else Some (- n))
          else (case parseUint (if c = CHR ''+'' then r else s) of
             None \<Rightarrow> None | Some n \<Rightarrow> if n \<ge> 2 ^ 63 then None else Some n))"

lemma digitOf_nonneg: "digitOf c = Some d \<Longrightarrow> 0 \<le> d"
  by (auto simp: digitOf_def is_digit_def digit_val_def split: if_splits)

lemma digitsIn_nonneg: "digitsIn b n s = Some m \<Longrightarrow> 0 \<le> n \<Longrightarrow> 0 \<le> b \<Longrightarrow> 0 \<le> m"
proof (induction b n s rule: digitsIn.induct)
  case (2 b n c s)
  then show ?case by (auto split: if_splits option.splits dest: digitOf_nonneg)
qed simp

lemma splitBase_pos: "splitBase s = (b, ds) \<Longrightarrow> 0 \<le> b"
  by (auto simp: splitBase_def split: list.splits char.splits bool.splits if_splits)

lemma parseUint_nonneg: "parseUint s = Some n \<Longrightarrow> 0 \<le> n"
  by (auto simp: parseUint_def split: if_splits prod.splits option.splits dest!: splitBase_pos digitsIn_nonneg)

lemma parseInt_range: "parseInt s = Some i \<Longrightarrow> is_int64 i"
  by (auto simp: parseInt_def is_int64_def split: list.splits if_splits option.splits dest!: parseUint_nonneg)

text \<open>A decimal number is read in base ten, since it has no leading zero.\<close>

lemma digitsIn_decimal: "parse_uint n s = Inr m \<Longrightarrow> 0 \<le> n \<Longrightarrow> digitsIn 10 n s = Some m"
proof (induction n s rule: parse_uint.induct)
  case (2 n c cs)
  then have c: "is_digit c" and p: "parse_uint (10 * n + digit_val c) cs = Inr m" and b: "10 * n + digit_val c < 2 ^ 64"
    by (auto split: if_splits)
  from c have d: "0 \<le> digit_val c" "digit_val c < 10" "c \<noteq> CHR ''_''" "digitOf c = Some (digit_val c)"
    by (auto simp: is_digit_def digit_val_def digitOf_def)
  have "digitsIn 10 (10 * n + digit_val c) cs = Some m" using 2 c p b d by (auto split: if_splits)
  then show ?case using d b by (simp add: mult.commute)
qed simp

lemma parseUint_utoa:
  assumes "n < 2 ^ 64"
  shows "parseUint (utoa n) = Some (int n)"
proof (cases "n = 0")
  case True
  then have "utoa n = ''0''" by (simp add: utoa.simps) code_simp
  then show ?thesis using True by (simp add: parseUint_def splitBase_def)
next
  case False
  then have "hd (utoa n) \<noteq> CHR ''0''" using utoa_0 by blast
  then have b: "splitBase (utoa n) = (10, utoa n)"
    by (cases "utoa n") (auto simp: splitBase_def split: char.splits bool.splits)
  have "CHR ''_'' \<notin> set (utoa n)" using utoa_digits [of "CHR ''_''" n] by (auto simp: is_digit_def)
  with b digitsIn_decimal [OF parse_uint_utoa [OF assms]] show ?thesis by (simp add: parseUint_def)
qed

lemma parseInt_itoa:
  assumes "is_int64 i"
  shows "parseInt (itoa i) = Some i"
proof (cases "i < 0")
  case True
  with assms have "parseUint (utoa (nat (- i))) = Some (- i)"
    by (subst parseUint_utoa) (auto simp: is_int64_def nat_less_iff)
  with True assms show ?thesis by (simp add: itoa_def parseInt_def is_int64_def)
next
  case False
  with assms have p: "parseUint (utoa (nat i)) = Some i"
    by (subst parseUint_utoa) (auto simp: is_int64_def nat_less_iff)
  obtain c r where u: "utoa (nat i) = c # r" by (cases "utoa (nat i)") auto
  then have "c \<noteq> CHR ''-''" "c \<noteq> CHR ''+''" using utoa_hd [of "nat i"] not_digit_sign by auto
  with False assms p u show ?thesis by (simp add: itoa_def parseInt_def is_int64_def)
qed

lemma parseBool_print: "parseBool (print_bool b) = Some b"
  by (cases b) (simp_all add: parseBool_def print_bool_def)

section \<open>Parsing\<close>

datatype 'o kind = StringFlag "string \<Rightarrow> 'o \<Rightarrow> 'o" | BoolFlag "bool \<Rightarrow> 'o \<Rightarrow> 'o" | IntFlag "int \<Rightarrow> 'o \<Rightarrow> 'o"

type_synonym 'o flagset = "(string \<times> 'o kind) list"

text \<open>\<open>Set\<close>, for a flag with its value.\<close>

fun setFlag :: "'o kind \<Rightarrow> string \<Rightarrow> 'o \<Rightarrow> 'o option" where
  "setFlag (StringFlag f) v x = Some (f v x)"
| "setFlag (BoolFlag f) v x = map_option (\<lambda>b. f b x) (parseBool v)"
| "setFlag (IntFlag f) v x = map_option (\<lambda>i. f i x) (parseInt v)"

fun isBoolFlag :: "'o kind \<Rightarrow> bool" where
  "isBoolFlag (BoolFlag f) = True"
| "isBoolFlag _ = False"

text \<open>The name of a flag argument, with one or two dashes removed; \<open>None\<close> if it is none.\<close>

definition flagName :: "string \<Rightarrow> string option" where
  "flagName s =
     (case s of
        CHR ''-'' # c # r \<Rightarrow> if c = CHR ''-'' then (if r = [] then None else Some r) else Some (c # r)
      | _ \<Rightarrow> None)"

text \<open>\<open>FlagSet.Parse\<close>; asking for help is an error of its own.\<close>

datatype flag_error = ErrHelp | ErrFlag

fun parse :: "'o flagset \<Rightarrow> string list \<Rightarrow> 'o \<Rightarrow> flag_error + 'o" where
  "parse fs [] x = Inr x"
| "parse fs (s # args) x =
     (case flagName s of
        None \<Rightarrow> Inr x
      | Some n \<Rightarrow>
          if hd n = CHR ''-'' \<or> hd n = CHR ''='' then Inl ErrFlag
          else (case (case cut (CHR ''='') n of None \<Rightarrow> (n, None) | Some (k, v) \<Rightarrow> (k, Some v)) of (name, value) \<Rightarrow>
            (case map_of fs name of
               None \<Rightarrow> Inl (if name = ''help'' \<or> name = ''h'' then ErrHelp else ErrFlag)
             | Some k \<Rightarrow>
                 (case value of
                    Some v \<Rightarrow> (case setFlag k v x of None \<Rightarrow> Inl ErrFlag | Some y \<Rightarrow> parse fs args y)
                  | None \<Rightarrow>
                      if isBoolFlag k then (case setFlag k ''true'' x of None \<Rightarrow> Inl ErrFlag | Some y \<Rightarrow> parse fs args y)
                      else (case args of
                        [] \<Rightarrow> Inl ErrFlag
                      | v # args' \<Rightarrow> (case setFlag k v x of None \<Rightarrow> Inl ErrFlag | Some y \<Rightarrow> parse fs args' y))))))"

section \<open>Spellings\<close>

text \<open>A name as the flags of the program have it.\<close>

definition plainName :: "string \<Rightarrow> bool" where
  "plainName n \<longleftrightarrow> n \<noteq> [] \<and> hd n \<noteq> CHR ''-'' \<and> CHR ''='' \<notin> set n"

lemma flagName_dashes: "plainName n \<Longrightarrow> flagName (''--'' @ n @ t) = Some (n @ t)" "plainName n \<Longrightarrow> flagName (''-'' @ n @ t) = Some (n @ t)"
  by (cases n; simp add: flagName_def plainName_def)+

lemma plainName_hd: "plainName n \<Longrightarrow> hd (n @ t) \<noteq> CHR ''-'' \<and> hd (n @ t) \<noteq> CHR ''=''"
  by (cases n) (auto simp: plainName_def)

lemma cut_plain: "plainName n \<Longrightarrow> cut (CHR ''='') n = None" "plainName n \<Longrightarrow> cut (CHR ''='') (n @ ''='' @ v) = Some (n, v)"
  by (auto simp: plainName_def cut_None_iff cut_Some_iff)

lemma parse_eq:
  assumes n: "plainName n" and k: "map_of fs n = Some k"
  shows "parse fs ((''--'' @ n @ ''='' @ v) # args) x = (case setFlag k v x of None \<Rightarrow> Inl ErrFlag | Some y \<Rightarrow> parse fs args y)"
    and "parse fs ((''-'' @ n @ ''='' @ v) # args) x = (case setFlag k v x of None \<Rightarrow> Inl ErrFlag | Some y \<Rightarrow> parse fs args y)"
  by (simp_all only: parse.simps flagName_dashes [OF n] cut_plain [OF n] k option.case prod.case if_False)
    (simp_all add: plainName_hd [OF n])

lemma parse_next:
  assumes n: "plainName n" and k: "map_of fs n = Some k" and b: "\<not> isBoolFlag k"
  shows "parse fs ((''--'' @ n) # v # args) x = (case setFlag k v x of None \<Rightarrow> Inl ErrFlag | Some y \<Rightarrow> parse fs args y)"
    and "parse fs ((''-'' @ n) # v # args) x = (case setFlag k v x of None \<Rightarrow> Inl ErrFlag | Some y \<Rightarrow> parse fs args y)"
proof -
  note f = flagName_dashes [OF n, of "[]", unfolded append_Nil2] and h = plainName_hd [OF n, of "[]", unfolded append_Nil2]
  show "parse fs ((''--'' @ n) # v # args) x = (case setFlag k v x of None \<Rightarrow> Inl ErrFlag | Some y \<Rightarrow> parse fs args y)"
    "parse fs ((''-'' @ n) # v # args) x = (case setFlag k v x of None \<Rightarrow> Inl ErrFlag | Some y \<Rightarrow> parse fs args y)"
    by (simp_all only: parse.simps f h cut_plain [OF n] k option.case prod.case if_False b list.case)
      (simp_all add: h)
qed

text \<open>
  A flag with its value in one of its spellings: with one dash or two, and with the value behind an
  equals sign or as the next argument, which a boolean flag does not take.
\<close>

definition spell :: "bool \<Rightarrow> bool \<Rightarrow> string \<Rightarrow> string \<Rightarrow> string list" where
  "spell one eq n v =
     (let d = (if one then ''-'' else ''--'') in if eq then [d @ n @ ''='' @ v] else [d @ n, v])"

fun setFlags :: "'o flagset \<Rightarrow> (string \<times> string) list \<Rightarrow> 'o \<Rightarrow> 'o option" where
  "setFlags fs [] x = Some x"
| "setFlags fs ((n, v) # nvs) x =
     (case map_of fs n of
        None \<Rightarrow> None
      | Some k \<Rightarrow> (case setFlag k v x of None \<Rightarrow> None | Some y \<Rightarrow> setFlags fs nvs y))"

lemma parse_spell:
  assumes "plainName n" and "map_of fs n = Some k" and "eq \<or> \<not> isBoolFlag k"
  shows "parse fs (spell one eq n v @ args) x = (case setFlag k v x of None \<Rightarrow> Inl ErrFlag | Some y \<Rightarrow> parse fs args y)"
proof (cases eq)
  case True
  show ?thesis using parse_eq [OF assms(1,2), of v args x] by (cases one) (simp_all add: spell_def True)
next
  case False
  with assms(3) have "\<not> isBoolFlag k" by simp
  from parse_next [OF assms(1,2) this, of v args x] show ?thesis by (cases one) (simp_all add: spell_def False)
qed

lemma parse_spelled:
  assumes "\<And>n v. (n, v) \<in> set nvs \<Longrightarrow> plainName n \<and> (\<exists>k. map_of fs n = Some k \<and> (eq n \<or> \<not> isBoolFlag k))"
    and "setFlags fs nvs x = Some y"
  shows "parse fs (concat (map (\<lambda>(n, v). spell (one n) (eq n) n v) nvs)) x = Inr y"
  using assms
proof (induction nvs arbitrary: x)
  case (Cons p nvs)
  obtain n v where p: "p = (n, v)" by (cases p)
  from Cons.prems(1) [of n v] p obtain k where k: "plainName n" "map_of fs n = Some k" "eq n \<or> \<not> isBoolFlag k" by auto
  from Cons.prems(2) p k obtain x' where s: "setFlag k v x = Some x'" "setFlags fs nvs x' = Some y"
    by (auto split: option.splits)
  have "parse fs (concat (map (\<lambda>(n, v). spell (one n) (eq n) n v) nvs)) x' = Inr y"
    by (rule Cons.IH [OF _ s(2)]) (use Cons.prems(1) in auto)
  then show ?case using s(1) by (simp add: p parse_spell [OF k])
qed simp

end
