(* ===== verification/Commands.thy ===== *)
theory Commands
  imports Tty Pind Flags
begin

text \<open>
  The two commands (\<open>cmd/atom-recovery\<close>, \<open>cmd/sinty-pind\<close>): their flags, and what they run with them.
  The texts the package \<open>flag\<close> prints about its own errors are not modelled.
\<close>

section \<open>The recovery agent\<close>

record options =
  oIface :: string
  oWal :: string
  oDataDir :: string
  oManifestURL :: string
  oRevocationURL :: string
  oRootPub :: string
  oRootfsDir :: string
  oEspDir :: string
  oLoaderImage :: string
  oLoaderSig :: string
  oMode :: string
  oSocket :: string
  oRuntime :: bool
  oOwnerUID :: int
  oSocketGroup :: string
  oSintykey :: string

definition defaultOptions :: options where
  "defaultOptions = \<lparr>oIface = ''wlan0'', oWal = ''/boot/rootfs/deployment.json'', oDataDir = ''/var'',
     oManifestURL = [], oRevocationURL = [], oRootPub = ''/etc/atom/root.pub'', oRootfsDir = ''/boot/rootfs'',
     oEspDir = ''/boot/efi/EFI/atom'', oLoaderImage = ''/usr/lib/atomloops/loader.efi'', oLoaderSig = [],
     oMode = ''tty'', oSocket = ''/run/atom-recovery.sock'', oRuntime = False, oOwnerUID = -1,
     oSocketGroup = [], oSintykey = ''sintykey''\<rparr>"

definition recoveryFlags :: "options flagset" where
  "recoveryFlags =
     [(''iface'', StringFlag (\<lambda>v o1. o1\<lparr>oIface := v\<rparr>)),
      (''wal'', StringFlag (\<lambda>v o1. o1\<lparr>oWal := v\<rparr>)),
      (''data-dir'', StringFlag (\<lambda>v o1. o1\<lparr>oDataDir := v\<rparr>)),
      (''manifest-url'', StringFlag (\<lambda>v o1. o1\<lparr>oManifestURL := v\<rparr>)),
      (''revocation-url'', StringFlag (\<lambda>v o1. o1\<lparr>oRevocationURL := v\<rparr>)),
      (''root-pub'', StringFlag (\<lambda>v o1. o1\<lparr>oRootPub := v\<rparr>)),
      (''rootfs-dir'', StringFlag (\<lambda>v o1. o1\<lparr>oRootfsDir := v\<rparr>)),
      (''esp-dir'', StringFlag (\<lambda>v o1. o1\<lparr>oEspDir := v\<rparr>)),
      (''loader-image'', StringFlag (\<lambda>v o1. o1\<lparr>oLoaderImage := v\<rparr>)),
      (''loader-sig'', StringFlag (\<lambda>v o1. o1\<lparr>oLoaderSig := v\<rparr>)),
      (''mode'', StringFlag (\<lambda>v o1. o1\<lparr>oMode := v\<rparr>)),
      (''socket'', StringFlag (\<lambda>v o1. o1\<lparr>oSocket := v\<rparr>)),
      (''runtime'', BoolFlag (\<lambda>v o1. o1\<lparr>oRuntime := v\<rparr>)),
      (''owner-uid'', IntFlag (\<lambda>v o1. o1\<lparr>oOwnerUID := v\<rparr>)),
      (''socket-group'', StringFlag (\<lambda>v o1. o1\<lparr>oSocketGroup := v\<rparr>)),
      (''sintykey'', StringFlag (\<lambda>v o1. o1\<lparr>oSintykey := v\<rparr>))]"

text \<open>The configuration of the core.\<close>

definition configOf :: "options \<Rightarrow> string \<Rightarrow> config" where
  "configOf o1 rootPub =
     \<lparr>Iface = oIface o1, WALPath = oWal o1, DataDir = oDataDir o1, RequireMount = True,
      ManifestURL = oManifestURL o1, RevocationURL = oRevocationURL o1, RootPub = rootPub,
      LoaderImage = oLoaderImage o1,
      LoaderSig = (if oLoaderSig o1 = [] then oLoaderImage o1 @ ''.sig'' else oLoaderSig o1),
      Dirs = \<lparr>Rootfs = oRootfsDir o1, ESP = oEspDir o1\<rparr>\<rparr>"

definition policyOf :: "options \<Rightarrow> ServePolicy" where
  "policyOf o1 =
     (if oRuntime o1 then \<lparr>Handler = \<lparr>Runtime = True, PolicyUID = oOwnerUID o1\<rparr>, SocketGroup = oSocketGroup o1\<rparr>
      else \<lparr>Handler = \<lparr>Runtime = False, PolicyUID = 0\<rparr>, SocketGroup = []\<rparr>)"

text \<open>
  The outside of the process: the agent \<open>sintykey\<close>, the staging library, the group database, the error
  texts of the JSON decoder, and the context the signals cancel.
\<close>

record 'x outside =
  execProgram :: "'x exec"
  stagingLib :: "'x atom"
  groupDB :: "string \<Rightarrow> gerror + string"
  jsonErrText :: "string \<Rightarrow> string"
  signalCtx :: ctx

definition envOf :: "'x outside \<Rightarrow> options \<Rightarrow> string \<Rightarrow> 'x env" where
  "envOf os o1 rootPub = \<lparr>theCore = NewCore (configOf o1 rootPub), atomLib = stagingLib os,
     crypto = EnableSintykeyCrypto (execProgram os) (oSintykey o1), jsonErr = jsonErrText os\<rparr>"

text \<open>
  How the command ends: with an exit code and a message on standard error, or serving requests until it
  is told to stop, with exit code 0 then; or with a panic.
\<close>

datatype 'x outcome = Exit int string | Serving listener "request \<Rightarrow> 'x goroutine" | Panicked

definition exitError :: "gerror option \<Rightarrow> 'x outcome" where
  "exitError e = (case e of None \<Rightarrow> Exit 0 [] | Some err \<Rightarrow> Exit 1 (''atom-recovery: '' @ error_text err @ ''\<newline>''))"

definition runMode :: "'x outside \<Rightarrow> options \<Rightarrow> string \<Rightarrow> string \<Rightarrow> ('x, 'x outcome) session" where
  "runMode os o1 rootPub stdin =
     (if oMode o1 = ''tty'' then do {
        r \<leftarrow> State (RunTTY (envOf os o1 rootPub) (signalCtx os) stdin);
        return (case r of None \<Rightarrow> Panicked | Some e \<Rightarrow> exitError e)
      }
      else if oMode o1 = ''serve'' then do {
        r \<leftarrow> on_core (on_disk (ServeWithPolicy (groupDB os) (envOf os o1 rootPub) (oSocket o1) (policyOf o1)));
        return (case r of Inl err \<Rightarrow> exitError (Some err) | Inr (ln, h) \<Rightarrow> Serving ln h)
      }
      else do {
        q \<leftarrow> gets (\<lambda>s. quoteGo (netw (csys s)) (oMode o1));
        return (Exit 2 (''atom-recovery: unknown mode '' @ q @ '' (tty | serve)\<newline>''))
      })"

definition run :: "'x outside \<Rightarrow> string list \<Rightarrow> string \<Rightarrow> ('x, 'x outcome) session" where
  "run os args stdin =
     (case parse recoveryFlags args defaultOptions of
        Inl err \<Rightarrow> return (Exit 2 [])
      | Inr o1 \<Rightarrow>
          if oMode o1 = ''reboot'' then do { e \<leftarrow> Reboot; return (exitError e) }
          else do {
            r \<leftarrow> on_core (on_disk (os_ReadFile (oRootPub o1)));
            case r of
              Inl err \<Rightarrow> return (Exit 1 (''atom-recovery: read ROOT key '' @ oRootPub o1 @ '': '' @ error_text err @ ''\<newline>''))
            | Inr rootPub \<Rightarrow> runMode os o1 rootPub stdin
          })"

section \<open>The PIN service\<close>

record pindOptions =
  pSocket :: string
  pSintykey :: string

definition pindFlags :: "pindOptions flagset" where
  "pindFlags = [(''socket'', StringFlag (\<lambda>v o1. o1\<lparr>pSocket := v\<rparr>)), (''sintykey'', StringFlag (\<lambda>v o1. o1\<lparr>pSintykey := v\<rparr>))]"

text \<open>
  The service, or \<open>Inl\<close> the message it ends with: with exit code 2 for an error of the flags, 0 after
  the request for help, and 1 otherwise (\<open>log.Fatalf\<close>).
\<close>

definition pindMain ::
    "'x exec \<Rightarrow> string list \<Rightarrow> ('x, (int \<times> string) + listener \<times> (unixConn \<times> string \<Rightarrow> ('x world, string) thread)) io" where
  "pindMain exec args =
     (case parse pindFlags args \<lparr>pSocket = ''/run/sinty-pind.sock'', pSintykey = ''/usr/bin/sintykey''\<rparr> of
        Inl err \<Rightarrow> return (Inl (if err = ErrHelp then 0 else 2, []))
      | Inr o1 \<Rightarrow> do {
          r \<leftarrow> pindSetup (pSocket o1);
          case r of
            Inl msg \<Rightarrow> return (Inl (1, msg))
          | Inr ln \<Rightarrow> return (Inr (ln, pindServe exec (pSintykey o1)))
        })"

section \<open>What is served\<close>

lemma always_disk: "always P m \<Longrightarrow> always P (on_core (on_disk m))"
  by (simp add: always_def wp_simps)

text \<open>What the command serves: the policy comes from its flags, and the functions are wired to the agent.\<close>

lemma run_serving:
  assumes "run_state (run os args stdin) s = (Serving ln h, s')"
  shows "\<exists>o1 rootPub. parse recoveryFlags args defaultOptions = Inr o1 \<and> oMode o1 = ''serve''
     \<and> h = newHandlerWithPolicy (envOf os o1 rootPub) (Handler (policyOf o1))"
proof -
  let ?P = "\<lambda>o1 r. \<forall>ln h. r = Serving ln h \<longrightarrow> oMode o1 = ''serve''
      \<and> (\<exists>rootPub. h = newHandlerWithPolicy (envOf os o1 rootPub) (Handler (policyOf o1)))"
  have "always (\<lambda>r. \<forall>ln h. r = Inr (ln, h) \<longrightarrow> h = newHandlerWithPolicy ev (Handler pol)) (ServeWithPolicy db ev sock pol)" for db ev sock pol
    unfolding ServeWithPolicy_def
    by (intro always_after) (auto split: option.split sum.split intro!: always_after always_return)
  note sv = always_disk [OF this]
  have ex: "?P o1 (exitError e)" for o1 e by (simp add: exitError_def split: option.split)
  have mode: "always (?P o1) (runMode os o1 rootPub stdin)" for o1 rootPub
    unfolding runMode_def
    by (auto intro!: always_after always_return always_bind [OF sv] split: option.splits sum.splits prod.splits simp: exitError_def)
  have "always (\<lambda>r. \<exists>o1. parse recoveryFlags args defaultOptions = Inr o1 \<and> ?P o1 r \<or> (\<nexists>ln h. r = Serving ln h)) (run os args stdin)"
  proof (cases "parse recoveryFlags args defaultOptions")
    case (Inr o1)
    have "always (?P o1) (run os args stdin)"
      unfolding run_def Inr sum.case
      by (auto intro!: always_after always_return mode split: sum.splits option.splits simp: exitError_def)
    then show ?thesis using Inr by (simp add: always_def) (blast intro: wp_mono)
  qed (simp add: run_def always_return)
  from always_run [OF this assms] show ?thesis by blast
qed

text \<open>The owner given by a flag is an integer of the machine.\<close>

lemma setFlag_owner:
  assumes "map_of recoveryFlags n = Some k" and "setFlag k v x = Some y" and "is_int64 (oOwnerUID x)"
  shows "is_int64 (oOwnerUID y)"
  using assms by (auto simp: recoveryFlags_def split: if_splits) (erule parseInt_range)

lemma parse_owner: "parse fs args x = Inr y \<Longrightarrow> fs = recoveryFlags \<Longrightarrow> is_int64 (oOwnerUID x) \<Longrightarrow> is_int64 (oOwnerUID y)"
proof (induction fs args x rule: parse.induct)
  case (2 fs s args x)
  show ?case
  proof (cases "flagName s")
    case (Some n)
    obtain name val where nv: "(case cut (CHR ''='') n of None \<Rightarrow> (n, None) | Some (k, v) \<Rightarrow> (k, Some v)) = (name, val)"
      by (cases "case cut (CHR ''='') n of None \<Rightarrow> (n, None) | Some (k, v) \<Rightarrow> (k, Some v)")
    have d: "\<not> (hd n = CHR ''-'' \<or> hd n = CHR ''='')" using "2.prems" Some by (auto split: if_splits)
    obtain k where k: "map_of fs name = Some k" using "2.prems" Some nv d by (auto split: option.splits)
    note own = setFlag_owner [of name k, unfolded "2.prems"(2) [symmetric], OF k]
    note ih = "2.IH" [OF Some d nv [symmetric] k]
    note ev = parse.simps(2) [of fs s args x, unfolded Some option.case if_not_P [OF d] nv prod.case k]
    show ?thesis
    proof (cases val)
      case v: (Some v)
      with "2.prems"(1) obtain x' where st: "setFlag k v x = Some x'" "parse fs args x' = Inr y"
        unfolding ev by (auto split: option.splits)
      from ih(3) [OF v st(1) st(2) "2.prems"(2) own [OF st(1) "2.prems"(3)]] show ?thesis .
    next
      case None
      show ?thesis
      proof (cases "isBoolFlag k")
        case True
        with None "2.prems"(1) obtain x' where st: "setFlag k ''true'' x = Some x'" "parse fs args x' = Inr y"
          unfolding ev by (auto split: option.splits)
        from ih(1) [OF None True st(1) st(2) "2.prems"(2) own [OF st(1) "2.prems"(3)]] show ?thesis .
      next
        case False
        with None "2.prems"(1) obtain v args' x' where st: "args = v # args'" "setFlag k v x = Some x'" "parse fs args' x' = Inr y"
          unfolding ev by (auto split: option.splits list.splits)
        from ih(2) [OF None False st(1,2,3) "2.prems"(2) own [OF st(2) "2.prems"(3)]] show ?thesis .
      qed
    qed
  qed (use 2 in simp)
qed simp

section \<open>Flags\<close>

text \<open>The options as a user would give them, by the documented names of the flags.\<close>

definition optionValues :: "options \<Rightarrow> (string \<times> string) list" where
  "optionValues o1 =
     [(''iface'', oIface o1), (''wal'', oWal o1), (''data-dir'', oDataDir o1), (''manifest-url'', oManifestURL o1),
      (''revocation-url'', oRevocationURL o1), (''root-pub'', oRootPub o1), (''rootfs-dir'', oRootfsDir o1),
      (''esp-dir'', oEspDir o1), (''loader-image'', oLoaderImage o1), (''loader-sig'', oLoaderSig o1), (''mode'', oMode o1),
      (''socket'', oSocket o1), (''runtime'', print_bool (oRuntime o1)), (''owner-uid'', itoa (oOwnerUID o1)),
      (''socket-group'', oSocketGroup o1), (''sintykey'', oSintykey o1)]"

text \<open>C12. Every option of the recovery agent can be given by its flag, and reaches the option it is named
  after: for any values of all the options (with a user id that is an integer of the machine), each
  flag in any of its spellings, with one dash or two, and with the value behind an equals sign or as the
  next argument (the flag \<open>--runtime\<close>, a boolean, only behind an equals sign), the parsed options are
  exactly these, whatever the options were before.\<close>

theorem recoveryFlags_roundtrip:
  assumes "is_int64 (oOwnerUID o1)" and "eq ''runtime''"
  shows "parse recoveryFlags (concat (map (\<lambda>(n, v). spell (one n) (eq n) n v) (optionValues o1))) o0 = Inr o1"
proof (rule parse_spelled)
  show "plainName n \<and> (\<exists>k. map_of recoveryFlags n = Some k \<and> (eq n \<or> \<not> isBoolFlag k))" if "(n, v) \<in> set (optionValues o1)" for n v
    using that assms(2) by (auto simp: optionValues_def recoveryFlags_def plainName_def)
  show "setFlags recoveryFlags (optionValues o1) o0 = Some o1"
    using parseInt_itoa [OF assms(1)] by (cases o0; cases o1) (simp add: optionValues_def recoveryFlags_def parseBool_print)
qed

theorem recoveryFlags_roundtrip_witness:
  "parse recoveryFlags (concat (map (\<lambda>(n, v). spell (n = ''mode'') (n = ''runtime'') n v)
     (optionValues (defaultOptions\<lparr>oMode := ''serve'', oRuntime := True, oOwnerUID := 1000\<rparr>)))) defaultOptions
   = Inr (defaultOptions\<lparr>oMode := ''serve'', oRuntime := True, oOwnerUID := 1000\<rparr>)"
  by (rule recoveryFlags_roundtrip) (simp_all add: is_int64_def)

end
