(* ===== verification/Spec2Isabelle.thy ===== *)
theory Spec2Isabelle
  imports Commands
begin

text \<open>
  A verification of the Sinty recovery agent (\<open>cmd/atom-recovery\<close>, \<open>cmd/sinty-pind\<close> and the packages
  under \<open>internal/\<close>).

  \<^bold>\<open>The program.\<close>  The agent runs in a recovery image.  Its core (\<open>internal/recovery/core.go\<close>) brings up
  a wireless network (\<open>internal/wifi\<close>, with its own DHCP client \<open>internal/dhcp\<close>), reinstalls or repairs
  the system through the staging library \<open>atom\<close>, and keeps the bootloader lock
  (\<open>internal/recovery/lock.go\<close>): the owner's consent is a flag on the system partition, and an unlock
  verifies the owner's PIN, turns verity off, records the transaction, erases the user's data
  (\<open>internal/recovery/data_wipe.go\<close>) and flips the lock bit, through the program \<open>sintykey\<close>
  (\<open>internal/recovery/crypto_seam.go\<close>, \<open>crypto_sintykey.go\<close>).  Two front-ends drive the core: a text
  menu (\<open>internal/recovery/tty.go\<close>) and an HTTP server on a unix socket (\<open>internal/recovery/serve.go\<close>),
  which also runs on the installed system under a restricted policy.  A second command,
  \<open>sinty-pind\<close>, changes the PIN of the account that asks.

  \<^bold>\<open>How Go is modelled.\<close>  A function with effects is a program of the state monad (\<open>Prelude\<close>), an error a
  value of the type \<open>gerror\<close> (\<open>Os\<close>), \<open>if err != nil\<close> a case distinction.  Integers that matter at
  their width are words or reduced with \<open>go_int\<close>; strings are lists of bytes.  A panic is an outer
  \<open>None\<close> where the code indexes slices, and is proved not to happen.  \<open>Os\<close> has the file tree, with links and
  mount points, and a schedule of failing calls, which also stands for a loss of power; \<open>NetState\<close> has
  the clock and the sockets of the network; \<open>GoStrings\<close>, \<open>Json\<close> and \<open>Flags\<close> model the packages \<open>strings\<close>,
  \<open>strconv\<close>, \<open>path/filepath\<close>, \<open>encoding/json\<close> and \<open>flag\<close> as far as they are used.  A goroutine is a tree
  of atomic actions on a shared state (\<open>Threads\<close>), and a server interleaves the goroutines of any
  requests in any order.

  \<^bold>\<open>Theories and sources.\<close>
  \<^item> \<open>Config\<close>, \<open>Core\<close>: \<open>core.go\<close> and \<open>reinstall.go\<close>.  The records \<open>config\<close> and \<open>core\<close> are the structs
    \<open>Config\<close> and \<open>Core\<close>; \<open>sys\<close> is the files and the network together; \<open>atom\<close> is the staging library.
  \<^item> \<open>DataWipe\<close>: \<open>data_wipe.go\<close>.  What the two passes of the erasure keep and delete, also when they
    stop anywhere, and which volumes are accepted.
  \<^item> \<open>CryptoSeam\<close>: \<open>crypto_seam.go\<close>, \<open>crypto_sintykey.go\<close>.  The locale \<open>crypto_seam\<close> is the contract of
    the six functions; it is met by the stubs and, by \<open>sintykey_program\<close>, by the wired program.
  \<^item> \<open>Lock\<close>: \<open>lock.go\<close>.  Writing the flag is atomic; \<open>UnlockOrder\<close> has the order of the primitives,
    \<open>UnlockSafety\<close> the state of the device after an unlock that failed anywhere, \<open>Consent\<close> the consent
    machine that every operation refines, with losses where file operations fail, \<open>ExampleAgent\<close> a concrete device, \<open>Unlock\<close> the properties.
  \<^item> \<open>DhcpPacket\<close>, \<open>DhcpRaw\<close>, \<open>DhcpNetlink\<close>, \<open>DhcpClient\<close>: \<open>internal/dhcp\<close>.  Round trips of packets
    and frames, no panic on any input, checksums, netlink messages, and that an exchange and an
    acquisition end in bounded time with an answer to this client.
  \<^item> \<open>Wifi\<close>: \<open>internal/wifi/wifi.go\<close>.  The commands sent to \<open>wpa_supplicant\<close>, their order, and the
    parser of scan results.
  \<^item> \<open>Serve\<close>: \<open>serve.go\<close>, one definition per route, the router, the runtime policy, the socket.
    \<open>ServeSafety\<close> has the properties of every interleaving, by the rely/guarantee rule of \<open>Threads\<close>
    (locale \<open>served\<close>): the polled state is well formed, and the runtime policy is safe.
  \<^item> \<open>Tty\<close>: \<open>tty.go\<close>.  A session ends, does not panic, restores the echo as far as the terminal lets
    it, and does nothing irreversible unless \<open>UNLOCK\<close> is typed.
  \<^item> \<open>Pind\<close>: \<open>cmd/sinty-pind\<close>.  \<open>Commands\<close>: the flags and the main functions of both commands.
  \<^item> This theory: the properties that span components, below.

  \<^bold>\<open>Bounds.\<close>  Where a loop is bounded in the model, it is by the code or by a number that is proved to be
  enough: 40 symbolic links as in the kernel, 10000 names of temporary files as in \<open>os.CreateTemp\<close>, five
  attempts of the DHCP client; the recursion of the JSON parser has fuel of twice the length of the
  input, which never runs out.  All other loops are total functions.

  \<^bold>\<open>Parameters.\<close>  Code that is not part of the repository is an argument: \<open>sintykey\<close> (\<open>exec\<close>), the
  library \<open>atom\<close>, the kernel's answers, \<open>wpa_supplicant\<close>, the group database.  What is assumed of them is
  in the locales \<open>sintykey_program\<close> (of the subcommands of the seam, only \<open>wipe-var\<close> changes files, and
  only key custody; nothing about other subcommands) and \<open>staging\<close>
  (the library does not call the cryptographic functions).  \<open>strconv.Quote\<close> and the texts of JSON
  syntax errors, which only appear in messages, are arguments too.

  \<^bold>\<open>Not modelled.\<close>  The Cairo interface under \<open>ui/\<close> (Zig; drawing and input), the scripts under \<open>.github/\<close>
  and the packaging; owners and permission bits of files, other than the mode and group of the socket;
  the mutex of the core, since each locked method is one step; concurrency inside a call of the
  wireless client or of the staging library, each of which is one action of a goroutine; the
  transport of HTTP (headers, time limits, closing the server); the texts \<open>flag\<close> prints; the log of
  \<open>sinty-pind\<close>.  Data that is written but not synced is not lost in the model: a call of \<open>fsync\<close> can fail,
  and a run can stop after any call, but leaving the call out would not be seen.  A receive timeout is
  taken to be set, and to end at its microsecond: the error of setting it, which \<open>raw.go\<close> does not look
  at, and the rounding to ticks of the kernel are left out.  The theorems on the wipe are about a
  configured data directory that exists (\<open>volume_paths\<close>, \<open>present\<close>), so that its first checks, of the path
  itself, pass in them.
\<close>

section \<open>The runtime service as it is started\<close>

lemma volume_paths_key: "volume_paths (configOf o1 k) D E = volume_paths (configOf o1 k') D E"
  by (simp add: volume_paths_def configOf_def)

text \<open>C5. The agent started with \<open>--runtime\<close>, as a whole: if \<open>run\<close> comes to serve requests with such flags,
  the handler is the one of the runtime policy with the owner of \<open>--owner-uid\<close>.  Then, whatever requests
  arrive on its socket, and however they interleave, no file but the consent flag changes (but for
  temporary files after a failure), nothing irreversible is called, no unlock is started, and new
  consent is only for an account whose PIN \<open>sintykey\<close> accepted, and for the account of \<open>--owner-uid\<close> if
  that is the id of a regular account.\<close>

theorem recovery_runtime_safe:
  assumes "run_state (run os args stdin) s = (Serving ln h, s1)"
    and "parse recoveryFlags args defaultOptions = Inr o1" and "oRuntime o1"
    and "sintykey_program D (execProgram os)" and "volume_paths (configOf o1 []) D E" and "layout D E"
    and "device D E (root (disk (csys s1)))"
    and "(server_step h)\<^sup>*\<^sup>* ([], \<lparr>ui = initialUI, sys = csys s1\<rparr>) (ts, s2)"
  shows "(\<exists>key. h = newHandlerWithPolicy (envOf os o1 key) \<lparr>Runtime = True, PolicyUID = oOwnerUID o1\<rparr>)
     \<and> untouched E (quiet (disk (csys s1))) (root (disk (csys s1))) (root (disk (sys s2)))
     \<and> (\<exists>es. since (disk (csys s1)) es (disk (sys s2)) \<and> list_all harmless es)
     \<and> consent_kept (oOwnerUID o1) (disk (sys s2)) (stored (E @ [''state'']) (root (disk (csys s1)))) (stored (E @ [''state'']) (root (disk (sys s2))))"
proof -
  from run_serving [OF assms(1)] assms(2) obtain key where
    h: "h = newHandlerWithPolicy (envOf os o1 key) (Handler (policyOf o1))" by auto
  have p: "Handler (policyOf o1) = \<lparr>Runtime = True, PolicyUID = oOwnerUID o1\<rparr>" using assms(3) by (simp add: policyOf_def)
  have "is_int64 (oOwnerUID o1)"
    by (rule parse_owner [OF assms(2) refl]) (simp add: defaultOptions_def is_int64_def)
  moreover have "crypto_seam D (crypto (envOf os o1 key))"
    using sintykey_program.enabled_seam [OF assms(4)] by (simp add: envOf_def)
  moreover have "volume_paths (cfg (theCore (envOf os o1 key))) D E"
    using assms(5) volume_paths_key [of o1 key D E "[]"] by (simp add: envOf_def NewCore_def)
  ultimately have "runtime_server D (envOf os o1 key) E (Handler (policyOf o1))"
    using assms(6) by (simp add: runtime_server_def runtime_server_axioms_def p)
  from runtime_server.runtime_runs [OF this assms(8) [unfolded h]] assms(7) h show ?thesis
    unfolding policy_shared_def policy_step_def p by auto
qed


text \<open>The example device, with the agent started on it.\<close>

definition ex_outside :: "tpm outside" where
  "ex_outside = \<lparr>execProgram = ex_exec, stagingLib = ex_lib, groupDB = (\<lambda>_. Inr ''1000''),
     jsonErrText = (\<lambda>_. ''unexpected EOF''), signalCtx = background\<rparr>"

definition ex_args :: "string list" where
  "ex_args = [''--mode=serve'', ''--runtime'', ''--data-dir=/var'', ''--esp-dir'', ''/efi'', ''--root-pub=/efi/state/install-id'',
     ''--socket=/efi/agent.sock'']"

definition ex_options :: options where
  "ex_options = defaultOptions\<lparr>oMode := ''serve'', oRuntime := True, oEspDir := ''/efi'', oRootPub := ''/efi/state/install-id'',
     oSocket := ''/efi/agent.sock''\<rparr>"

lemma ex_parse: "parse recoveryFlags ex_args defaultOptions = Inr ex_options"
  by code_simp

definition ex_socket :: "(tpm, (gerror + string) \<times> (gerror + listener)) io" where
  "ex_socket = do {
     k \<leftarrow> os_ReadFile ''/efi/state/install-id'';
     r \<leftarrow> openSocket (\<lambda>_. Inr ''1000'') ''/efi/agent.sock'' [];
     return (k, r) }"

lemma ex_socket: "case run_state ex_socket (ex_start (\<lambda>_. False)) of ((Inr k, Inr ln), w) \<Rightarrow> device [''var''] [''efi''] (root w) | _ \<Rightarrow> False"
  by code_simp

lemma ex_serves:
  "\<exists>ln h s1. run_state (run ex_outside ex_args []) ex_console = (Serving ln h, s1)
     \<and> device [''var''] [''efi''] (root (disk (csys s1)))"
proof -
  let ?w = "ex_start (\<lambda>_. False)"
  obtain k w0 where k: "run_state (os_ReadFile ''/efi/state/install-id'') ?w = (k, w0)" by (rule prod.exhaust)
  obtain r w1 where r: "run_state (openSocket (\<lambda>_. Inr ''1000'') ''/efi/agent.sock'' []) w0 = (r, w1)" by (rule prod.exhaust)
  have "run_state ex_socket ?w = ((k, r), w1)" by (simp add: ex_socket_def k r)
  with ex_socket obtain key ln where kl: "k = Inr key" "r = Inr ln" and d: "device [''var''] [''efi''] (root w1)"
    by (auto split: sum.splits)
  have o1: "oMode ex_options = ''serve''" "oRootPub ex_options = ''/efi/state/install-id''"
    "oSocket ex_options = ''/efi/agent.sock''" "SocketGroup (policyOf ex_options) = []"
    by (simp_all add: ex_options_def defaultOptions_def policyOf_def)
  have "run_state (run ex_outside ex_args []) ex_console
      = (Serving ln (newHandlerWithPolicy (envOf ex_outside ex_options key) (Handler (policyOf ex_options))),
         ex_console\<lparr>csys := (csys ex_console)\<lparr>disk := w1\<rparr>\<rparr>)"
    using k r kl
    by (simp add: run_def ex_parse runMode_def o1 on_core_def ServeWithPolicy_def ex_outside_def ex_console_def)
  note run = this
  show ?thesis by (rule exI, rule exI, rule exI, rule conjI [OF run]) (use d in simp)
qed

text \<open>A request to arm, by an account that is not the owner so far.\<close>

theorem recovery_runtime_safe_witness:
  "\<exists>ln h s1. run_state (run ex_outside ex_args []) ex_console = (Serving ln h, s1)
     \<and> untouched [''efi''] (quiet (disk (csys s1))) (root (disk (csys s1)))
         (root (disk (sys (snd (run_schedule [0, 0, 0] (map h [ex_arm], \<lparr>ui = initialUI, sys = csys s1\<rparr>))))))"
proof -
  from ex_serves obtain ln h s1 where run: "run_state (run ex_outside ex_args []) ex_console = (Serving ln h, s1)"
    and d: "device [''var''] [''efi''] (root (disk (csys s1)))" by blast
  have vp: "volume_paths (configOf ex_options []) [''var''] [''efi'']" by code_simp
  have rt: "oRuntime ex_options" by (simp add: ex_options_def)
  have ag: "sintykey_program [''var''] (execProgram ex_outside)" using ex.sintykey_program_axioms by (simp add: ex_outside_def)
  let ?c = "run_schedule [0, 0, 0] (map h [ex_arm], \<lparr>ui = initialUI, sys = csys s1\<rparr>)"
  have st: "(server_step h)\<^sup>*\<^sup>* ([], \<lparr>ui = initialUI, sys = csys s1\<rparr>) (fst ?c, snd ?c)"
    unfolding prod.collapse by (rule schedule_steps)
  from recovery_runtime_safe [OF run ex_parse rt ag vp ex_layout d st] run show ?thesis by blast
qed

section \<open>PINs across the two services\<close>

text \<open>
  The lock takes a PIN of 4 to 256 bytes without a line end; the PIN service only asks for the minimum.
\<close>



end
